(* ===== verification/Prelude.thy ===== *)
theory Prelude
  imports "HOL-Library.Word" "HOL-Library.AList" "HOL-Library.List_Lexorder"
begin

text \<open>
  The vocabulary every component shares: the machine integers of the program, the few
  operations of the Rust standard library on integers, slices and strings that the source
  uses, little-endian decoding and encoding, and the \<open>Result\<close> values the fallible
  functions return.

  Conventions.  \<open>u8\<close>, \<open>u16\<close>, \<open>u32\<close> and \<open>u64\<close> are words of that width and their
  \<open>+\<close>, \<open>-\<close>, \<open>*\<close> wrap, which is what the release profile of Cargo.toml does (it does not set
  overflow-checks).  A \<open>usize\<close> (a length or an index into a buffer in memory) is a \<open>nat\<close>;
  the target is 64-bit.  A byte slice or \<open>Vec<u8>\<close> is a \<open>u8 list\<close>.  A Rust string is its
  UTF-8 bytes, a \<open>string\<close>.
\<close>

unbundle bit_operations_syntax

type_synonym u8 = "8 word"
type_synonym u16 = "16 word"
type_synonym u32 = "32 word"
type_synonym u64 = "64 word"
type_synonym bytes = "u8 list"

text \<open>Facts about successful results, about words read as numbers, and about decoding.\<close>

named_theorems result_simps
named_theorems word_nat_simps
named_theorems codec_simps

section \<open>Results\<close>

text \<open>\<open>Result<T, E>\<close> is \<open>'e + 'a\<close>; \<open>rbind\<close> is the \<open>?\<close> operator.\<close>

fun rbind :: "'e + 'a \<Rightarrow> ('a \<Rightarrow> 'e + 'b) \<Rightarrow> 'e + 'b" where
  "rbind (Inl e) f = Inl e"
| "rbind (Inr x) f = f x"

lemma rbind_Inr_iff [result_simps]:
  "rbind m f = Inr y \<longleftrightarrow> (\<exists>x. m = Inr x \<and> f x = Inr y)"
  by (cases m) auto

lemma Inr_rbind_iff [result_simps]:
  "Inr y = rbind m f \<longleftrightarrow> (\<exists>x. m = Inr x \<and> f x = Inr y)"
  by (cases m) auto

lemma rbind_Inl_iff:
  "rbind m f = Inl e \<longleftrightarrow> m = Inl e \<or> (\<exists>x. m = Inr x \<and> f x = Inl e)"
  by (cases m) auto

lemma rbind_assoc: "rbind (rbind m f) g = rbind m (\<lambda>x. rbind (f x) g)"
  by (cases m) auto

lemma rbind_Inr_right [simp]: "rbind m Inr = m"
  by (cases m) auto

lemma rbind_cong [fundef_cong]:
  assumes "m = m'" and "\<And>x. m' = Inr x \<Longrightarrow> f x = g x"
  shows "rbind m f = rbind m' g"
  using assms by (cases m') auto

text \<open>\<open>collect::<Result<Vec<_>, _>>()\<close>: the first error stops it.\<close>

fun rcollect :: "('a \<Rightarrow> 'e + 'b) \<Rightarrow> 'a list \<Rightarrow> 'e + 'b list" where
  "rcollect f [] = Inr []"
| "rcollect f (x # xs) = rbind (f x) (\<lambda>y. rbind (rcollect f xs) (\<lambda>ys. Inr (y # ys)))"

lemma rcollect_Inr_iff:
  "rcollect f xs = Inr ys \<longleftrightarrow> list_all2 (\<lambda>x y. f x = Inr y) xs ys"
proof (induction xs arbitrary: ys)
  case Nil
  then show ?case by auto
next
  case (Cons x xs)
  show ?case by (cases ys) (auto simp: rbind_Inr_iff Cons.IH)
qed

lemma rcollect_length: "rcollect f xs = Inr ys \<Longrightarrow> length ys = length xs"
  by (auto simp: rcollect_Inr_iff dest: list_all2_lengthD)

text \<open>\<open>Result::is_ok\<close> and \<open>Result::ok\<close>.\<close>

definition is_ok :: "'e + 'a \<Rightarrow> bool" where
  "is_ok r = (case r of Inl _ \<Rightarrow> False | Inr _ \<Rightarrow> True)"

lemma is_ok_simps [simp]: "is_ok (Inr x)" "\<not> is_ok (Inl e)"
  by (simp_all add: is_ok_def)

lemma is_ok_iff: "is_ok r \<longleftrightarrow> (\<exists>x. r = Inr x)"
  by (cases r) auto

section \<open>Integers of the standard library\<close>

text \<open>\<open>usize::checked_add\<close>, \<open>u64::checked_add\<close>, \<open>u64::saturating_add\<close>.\<close>

definition usize_checked_add :: "nat \<Rightarrow> nat \<Rightarrow> nat option" where
  "usize_checked_add a b = (if a + b < 2 ^ 64 then Some (a + b) else None)"

definition checked_add :: "u64 \<Rightarrow> u64 \<Rightarrow> u64 option" where
  "checked_add a b = (if unat a + unat b < 2 ^ 64 then Some (a + b) else None)"

definition saturating_add :: "u64 \<Rightarrow> u64 \<Rightarrow> u64" where
  "saturating_add a b = (if unat a + unat b < 2 ^ 64 then a + b else -1)"

text \<open>\<open>u64::div_ceil\<close> and \<open>usize::next_multiple_of\<close>.\<close>

definition div_ceil :: "u64 \<Rightarrow> u64 \<Rightarrow> u64" where
  "div_ceil a b = (if a mod b = 0 then a div b else a div b + 1)"

definition next_multiple_of :: "nat \<Rightarrow> nat \<Rightarrow> nat" where
  "next_multiple_of a b = (if a mod b = 0 then a else a + (b - a mod b))"

text \<open>\<open>u32::is_power_of_two\<close>.\<close>

definition is_power_of_two :: "u32 \<Rightarrow> bool" where
  "is_power_of_two w = list_ex (\<lambda>k. w = push_bit k 1) [0..<32]"

lemma mod_sum_ge:
  fixes a b m :: nat
  assumes "a < m" and "b < m" and "a \<le> (a + b) mod m"
  shows "(a + b) mod m = a + b"
proof (cases "a + b < m")
  case True
  then show ?thesis by simp
next
  case False
  then have "(a + b) mod m = (a + b - m) mod m" by (simp add: le_mod_geq)
  also have "\<dots> = a + b - m" using assms(1,2) by (intro mod_less) linarith
  finally show ?thesis using assms False by linarith
qed

lemma unat_plus_word [word_nat_simps]:
  "unat (a + b :: 'a::len word) = (unat a + unat b) mod 2 ^ LENGTH('a)"
  by (simp add: unat_word_ariths)

lemma unat_plus_nowrap:
  fixes a b :: u64
  assumes "unat a + unat b < 2 ^ 64"
  shows "unat (a + b) = unat a + unat b"
  using assms by (simp add: unat_word_ariths)

lemma unat_minus_le [word_nat_simps]:
  fixes a b :: "'a::len word"
  assumes "b \<le> a"
  shows "unat (a - b) = unat a - unat b"
  using assms by (simp add: unat_sub)

lemma unat_of_nat_u64 [word_nat_simps]:
  "n < 2 ^ 64 \<Longrightarrow> unat (word_of_nat n :: u64) = n"
  by (simp add: unat_of_nat take_bit_nat_eq_self)

lemma unat_u64_lt [simp]: "unat (w :: u64) < 18446744073709551616"
  using unsigned_less [of w, where ?'a = nat] by simp

lemma unat_u32_lt [simp]: "unat (w :: u32) < 4294967296"
  using unsigned_less [of w, where ?'a = nat] by simp

lemma unat_u16_lt [simp]: "unat (w :: u16) < 65536"
  using unsigned_less [of w, where ?'a = nat] by simp

lemma unat_u8_lt [simp]: "unat (w :: u8) < 256"
  using unsigned_less [of w, where ?'a = nat] by simp

lemma unat_saturating_add:
  "unat (saturating_add a b) = min (unat a + unat b) (2 ^ 64 - 1)"
  by (simp add: saturating_add_def unat_plus_nowrap unsigned_minus_1_eq_mask mask_eq_exp_minus_1)

lemma checked_add_Some_iff:
  "checked_add a b = Some c \<longleftrightarrow> c = a + b \<and> unat a + unat b < 2 ^ 64"
  by (auto simp: checked_add_def)

lemma unat_checked_add:
  "checked_add a b = Some c \<Longrightarrow> unat c = unat a + unat b"
  by (auto simp: checked_add_def unat_plus_nowrap split: if_splits)

lemma next_multiple_of_ge: "a \<le> next_multiple_of a b"
  by (simp add: next_multiple_of_def)

lemma next_multiple_of_less: "0 < b \<Longrightarrow> next_multiple_of a b < a + b"
  by (auto simp: next_multiple_of_def)

lemma next_multiple_of_dvd:
  assumes "0 < b"
  shows "b dvd next_multiple_of a b"
proof (cases "a mod b = 0")
  case True
  then show ?thesis by (simp add: next_multiple_of_def dvd_eq_mod_eq_0)
next
  case False
  have "a + (b - a mod b) = b * (a div b) + b"
    using assms mod_less_divisor [OF assms, of a] mult_div_mod_eq [of b a] by linarith
  with False show ?thesis by (simp add: next_multiple_of_def)
qed

section \<open>Slices\<close>

text \<open>\<open>b.get(s..e)\<close>: \<open>None\<close> when the range is not inside the slice.\<close>

definition get_range :: "'a list \<Rightarrow> nat \<Rightarrow> nat \<Rightarrow> 'a list option" where
  "get_range b s e = (if s \<le> e \<and> e \<le> length b then Some (take (e - s) (drop s b)) else None)"

lemma get_range_Some_iff:
  "get_range b s e = Some x \<longleftrightarrow> s \<le> e \<and> e \<le> length b \<and> x = take (e - s) (drop s b)"
  by (auto simp: get_range_def)

lemma take_drop_append:
  "length pre = off \<Longrightarrow> length mid = n \<Longrightarrow> take n (drop off (pre @ mid @ post)) = mid"
  by simp

text \<open>\<open>Vec::resize(n, 0)\<close>.\<close>

definition resize :: "bytes \<Rightarrow> nat \<Rightarrow> bytes" where
  "resize b n = take n b @ replicate (n - length b) 0"

lemma replicate_numeral: "replicate (numeral k) x = x # replicate (pred_numeral k) x"
  by (simp add: numeral_eq_Suc)

lemma length_resize [simp]: "length (resize b n) = n"
  by (simp add: resize_def)

text \<open>\<open>Vec::dedup_by_key\<close>: consecutive elements of one key keep the first.\<close>

fun dedup_by_key :: "('a \<Rightarrow> 'k) \<Rightarrow> 'a list \<Rightarrow> 'a list" where
  "dedup_by_key f [] = []"
| "dedup_by_key f [x] = [x]"
| "dedup_by_key f (x # y # xs) =
     (if f x = f y then dedup_by_key f (x # xs) else x # dedup_by_key f (y # xs))"

lemma set_dedup_by_key: "set (dedup_by_key f xs) \<subseteq> set xs"
  by (induction f xs rule: dedup_by_key.induct) auto

section \<open>Little-endian integers\<close>

text \<open>The number a run of bytes holds, least significant byte first, and its inverse.\<close>

fun le_nat :: "bytes \<Rightarrow> nat" where
  "le_nat [] = 0"
| "le_nat (b # bs) = unat b + 256 * le_nat bs"

fun to_le :: "nat \<Rightarrow> nat \<Rightarrow> bytes" where
  "to_le 0 x = []"
| "to_le (Suc n) x = word_of_nat (x mod 256) # to_le n (x div 256)"

lemma length_to_le [simp]: "length (to_le n x) = n"
  by (induction n arbitrary: x) auto

lemma le_nat_to_le [codec_simps]: "x < 256 ^ n \<Longrightarrow> le_nat (to_le n x) = x"
proof (induction n arbitrary: x)
  case 0
  then show ?case by simp
next
  case (Suc n)
  then have "x div 256 < 256 ^ n" by (simp add: less_mult_imp_div_less)
  then have "le_nat (to_le n (x div 256)) = x div 256" by (rule Suc.IH)
  then show ?case by (simp add: unat_of_nat take_bit_nat_eq_self)
qed

lemma le_nat_bound: "le_nat b < 256 ^ length b"
proof (induction b)
  case Nil
  then show ?case by simp
next
  case (Cons x xs)
  have "unat x < 256" by simp
  moreover have "256 * le_nat xs + 256 \<le> 256 * 256 ^ length xs"
    using Cons by simp
  ultimately have "unat x + 256 * le_nat xs < 256 * 256 ^ length xs" by linarith
  then show ?case by simp
qed

lemma to_le_le_nat: "to_le (length b) (le_nat b) = b"
  by (induction b) (simp_all add: div_mult_self4)

text \<open>\<open>uN::from_le_bytes\<close> and \<open>uN::to_le_bytes\<close>.\<close>

definition from_le_bytes :: "bytes \<Rightarrow> 'a::len word" where
  "from_le_bytes b = word_of_nat (le_nat b)"

definition to_le_bytes :: "'a::len word \<Rightarrow> bytes" where
  "to_le_bytes w = to_le (LENGTH('a) div 8) (unat w)"

text \<open>
  A fixed-width field codec: the interface the on-disk structures and the wire protocol
  rely on.  The client lemma reads a field back from the middle of a buffer.
\<close>

locale fixed_codec =
  fixes width :: nat
    and enc :: "'w \<Rightarrow> bytes"
    and dec :: "bytes \<Rightarrow> 'w"
  assumes enc_len: "length (enc w) = width"
    and dec_enc: "dec (enc w) = w"
    and enc_dec: "length b = width \<Longrightarrow> enc (dec b) = b"
begin

lemma read_back: "length pre = off \<Longrightarrow> dec (take width (drop off (pre @ enc w @ post))) = w"
  by (simp add: enc_len dec_enc)

lemma dec_inj: "length b = width \<Longrightarrow> length c = width \<Longrightarrow> dec b = dec c \<Longrightarrow> b = c"
  by (metis enc_dec)

lemma enc_inj: "enc v = enc w \<Longrightarrow> v = w"
  by (metis dec_enc)

end

lemma from_to_le_bytes:
  assumes "LENGTH('a::len) = 8 * n"
  shows "from_le_bytes (to_le_bytes (w :: 'a word)) = w"
proof -
  have "(256::nat) ^ n = 2 ^ LENGTH('a)"
    using assms by (simp add: power_mult)
  with unsigned_less [of w, where ?'a = nat] have "unat w < 256 ^ n" by simp
  then have "le_nat (to_le n (unat w)) = unat w" by (rule le_nat_to_le)
  with assms show ?thesis by (simp add: from_le_bytes_def to_le_bytes_def)
qed

lemma to_from_le_bytes:
  assumes "LENGTH('a::len) = 8 * n" and "length b = n"
  shows "to_le_bytes (from_le_bytes b :: 'a word) = b"
proof -
  have "(256::nat) ^ n = 2 ^ LENGTH('a)"
    using assms(1) by (simp add: power_mult)
  with le_nat_bound [of b] assms(2) have "unat (from_le_bytes b :: 'a word) = le_nat b"
    by (simp add: from_le_bytes_def unat_of_nat take_bit_nat_eq_self)
  with assms to_le_le_nat [of b] show ?thesis
    by (simp add: to_le_bytes_def)
qed

lemma length_to_le_bytes [simp]: "length (to_le_bytes (w :: 'a::len word)) = LENGTH('a) div 8"
  by (simp add: to_le_bytes_def)

interpretation le16: fixed_codec 2 "to_le_bytes :: u16 \<Rightarrow> bytes" from_le_bytes
  by unfold_locales (simp_all add: from_to_le_bytes [where n = 2] to_from_le_bytes [where n = 2])

interpretation le32: fixed_codec 4 "to_le_bytes :: u32 \<Rightarrow> bytes" from_le_bytes
  by unfold_locales (simp_all add: from_to_le_bytes [where n = 4] to_from_le_bytes [where n = 4])

interpretation le64: fixed_codec 8 "to_le_bytes :: u64 \<Rightarrow> bytes" from_le_bytes
  by unfold_locales (simp_all add: from_to_le_bytes [where n = 8] to_from_le_bytes [where n = 8])

section \<open>Strings\<close>

text \<open>\<open>str::as_bytes\<close> and back.\<close>

definition as_bytes :: "string \<Rightarrow> bytes" where
  "as_bytes s = map of_char s"

definition of_bytes :: "bytes \<Rightarrow> string" where
  "of_bytes b = map (\<lambda>w. char_of (unat w)) b"

lemma length_as_bytes [simp]: "length (as_bytes s) = length s"
  by (simp add: as_bytes_def)

lemma length_of_bytes [simp]: "length (of_bytes b) = length b"
  by (simp add: of_bytes_def)

lemma of_bytes_append [simp]: "of_bytes (a @ b) = of_bytes a @ of_bytes b"
  by (simp add: of_bytes_def)

lemma as_bytes_append [simp]: "as_bytes (a @ b) = as_bytes a @ as_bytes b"
  by (simp add: as_bytes_def)

lemma unat_of_char: "unat (of_char c :: u8) = of_char c"
proof -
  have "(of_char c :: nat) < 256" by (rule nat_of_char_less_256)
  then have "unat (word_of_nat (of_char c) :: u8) = of_char c"
    by (simp only: unat_of_nat take_bit_nat_eq_self)
      (simp add: take_bit_nat_eq_self del: of_nat_of_char)
  then show ?thesis by (simp only: of_nat_of_char)
qed

lemma of_bytes_as_bytes [simp]: "of_bytes (as_bytes s) = s"
  by (simp add: of_bytes_def as_bytes_def unat_of_char comp_def)

lemma as_bytes_of_bytes [simp]: "as_bytes (of_bytes b) = b"
proof (induction b)
  case Nil
  then show ?case by (simp add: as_bytes_def of_bytes_def)
next
  case (Cons w b)
  have "unat (of_char (char_of (unat w) :: char) :: u8) = unat w"
    by (simp add: unat_of_char)
  then have "(of_char (char_of (unat w) :: char) :: u8) = w"
    by (simp only: unsigned_word_eqI)
  with Cons show ?case by (simp add: as_bytes_def of_bytes_def)
qed

section \<open>Records of one size after each other\<close>

lemma length_concat_fixed: "(\<And>b. b \<in> set bs \<Longrightarrow> length b = n) \<Longrightarrow> length (concat bs) = n * length bs"
  by (induction bs) auto

lemma concat_split_nth:
  assumes "i < length bs"
  shows "concat bs = concat (take i bs) @ bs ! i @ concat (drop (Suc i) bs)"
  using arg_cong [OF id_take_nth_drop [OF assms], of concat] by simp

text \<open>The \<open>i\<close>-th of them, wherever they start.\<close>

lemma concat_fixed_nth:
  assumes "\<And>b. b \<in> set bs \<Longrightarrow> length b = n" and "i < length bs"
  shows "take n (drop (i * n) (concat bs @ post)) = bs ! i"
proof -
  have "length (concat (take i bs)) = i * n"
    using length_concat_fixed [of "take i bs" n] assms in_set_takeD [of _ i bs]
    by (simp add: mult.commute)
  moreover have "length (bs ! i) = n" using assms by simp
  ultimately show ?thesis by (subst concat_split_nth [OF assms(2)]) simp
qed

section \<open>The first of a list\<close>

text \<open>Retry loops take the first element that works: one after a prefix of failures.\<close>

lemma first_split_Nil: "(\<exists>as a bs. [] = as @ a # bs \<and> P as a) \<longleftrightarrow> False"
  by simp

lemma first_split_Cons:
  "(\<exists>as a bs. x # xs = as @ a # bs \<and> P as a) \<longleftrightarrow>
     P [] x \<or> (\<exists>as a bs. xs = as @ a # bs \<and> P (x # as) a)"
proof
  assume "\<exists>as a bs. x # xs = as @ a # bs \<and> P as a"
  then obtain as a bs where s: "x # xs = as @ a # bs" "P as a" by blast
  then show "P [] x \<or> (\<exists>as a bs. xs = as @ a # bs \<and> P (x # as) a)"
    by (cases as) auto
next
  assume "P [] x \<or> (\<exists>as a bs. xs = as @ a # bs \<and> P (x # as) a)"
  then show "\<exists>as a bs. x # xs = as @ a # bs \<and> P as a"
    by (metis append_Cons append_Nil)
qed

end
