(* ===== verification/Effects.thy ===== *)
theory Effects
  imports Prelude
begin

text \<open>
  Errors as values and state as an argument.  The program's errors are \<open>anyhow::Error\<close>s: a
  chain of contexts over a root cause.  Every \<open>bail!\<close> and \<open>anyhow!\<close> of the modelled code is
  a constructor here, with the numbers and paths its message prints as arguments; messages
  that another part of the program reads back (the helper's replies) stay strings.

  Operations of \<open>Fs\<close> and of the copier change state (the caches in \<open>RefCell\<close>s, the output)
  and may fail half way, so they are functions from the state to a result and the new state:
  a failing operation keeps the changes it made before failing.
\<close>

section \<open>Errors\<close>

text \<open>\<open>std::io::ErrorKind\<close>, the kinds the source tells apart.\<close>

datatype (plugins only: code size) io_kind =
    IoNotFound | IoPermissionDenied | IoInterrupted | IoUnexpectedEof
  | IoInvalidData | IoInvalidInput | IoBrokenPipe | IoOther

datatype (plugins only: code size) io_error = IoError (io_kind: io_kind) (io_message: string)

text \<open>src/disk.rs\<close>

datatype (plugins only: code size) disk_error =
    ShortRead nat nat nat          \<comment> \<open>wanted, offset, have\<close>
  | NoMagic
  | SuperChecksum
  | SysArraySize nat
  | BadSectorsize u32
  | BadNodesize u32
  | ZeroStripes u64
  | EncryptedExtent
  | UnknownExtentType u8

text \<open>src/decompress.rs\<close>

datatype (plugins only: code size) codec_error =
    RamBytesTooBig nat
  | SectorsizeZero
  | UnknownCompression u8
  | StreamError string nat io_error
  | ZstdHeader io_error
  | DecodesTooMuch string nat bool nat   \<comment> \<open>what, ram\_bytes, past its sector, sectorsize\<close>
  | DecodesShort string nat nat nat nat  \<comment> \<open>what, got, ram\_bytes, short by, sectorsize\<close>
  | LzoTruncatedHeader nat
  | LzoFrameLength nat nat
  | LzoSegmentOverrun nat nat
  | LzoMalformed nat
  | LzoError nat string
  | LzoPastSector nat nat nat

text \<open>src/fs.rs\<close>

datatype (plugins only: code size) fs_error =
    NoDeviceGiven
  | DifferentFilesystem string
  | RefusedFeatures
  | BadSysChunkKey u8
  | NotMapped u64 u64
  | StripedChunks string
  | DeviceNotGiven u64 u64
  | NoReadableMirror u64
  | Unreadable
  | WrongHeaderAddress u64
  | NodeChecksum u64
  | TooManyItems u64 nat
  | TreeTooDeep
  | WrongLevel u64 u8 u8
  | NoSuchTree u64
  | NoSuchInode u64 u64
  | SymlinkNotFollowed string string
  | NotADirectory string
  | ImplausibleExtent u64 u64
  | InlineTooBig u64 u32
  | ExtentAddressOverflow u64 u64
  | ExtentReadOverflow
  | OutsideDecompressed
  | SymlinkTooLong u64 u64
  | ParentChainTooLong u64 u64
  | NoParentReference u64 u64

text \<open>src/copy.rs and src/main.rs\<close>

datatype (plugins only: code size) app_error =
    NestingTooDeep nat
  | DirectoryLoop string
  | DestIsSymlink string
  | DestExists string
  | IsADirectory string
  | BadTypeOption
  | BadGlob string
  | HelperError string

datatype (plugins only: code size) err =
    Disk disk_error
  | Codec codec_error
  | Fs fs_error
  | App app_error
  | Io io_error
  | PathNotFound string     \<comment> \<open>\<open>NotFound\<close> of fs.rs\<close>
  | AccessDenied            \<comment> \<open>\<open>AccessDenied\<close> of main.rs\<close>
  | Incomplete u64          \<comment> \<open>\<open>Incomplete\<close> of main.rs\<close>
  | Context string err      \<comment> \<open>\<open>.context(..)\<close>\<close>

text \<open>\<open>Error::chain\<close>: the error and its sources, outermost first.\<close>

fun chain :: "err \<Rightarrow> err list" where
  "chain (Context c e) = Context c e # chain e"
| "chain e = [e]"

definition with_context :: "string \<Rightarrow> err + 'a \<Rightarrow> err + 'a" where
  "with_context c r = (case r of Inl e \<Rightarrow> Inl (Context c e) | Inr x \<Rightarrow> Inr x)"

lemma with_context_simps [simp]:
  "with_context c (Inr x) = Inr x"
  "with_context c (Inl e) = Inl (Context c e)"
  by (simp_all add: with_context_def)

lemma with_context_Inr_iff [result_simps]: "with_context c r = Inr x \<longleftrightarrow> r = Inr x"
  by (cases r) auto

section \<open>Stateful operations\<close>

type_synonym ('s, 'a) eff = "'s \<Rightarrow> (err + 'a) \<times> 's"

definition sret :: "'a \<Rightarrow> ('s, 'a) eff" where
  "sret x = (\<lambda>s. (Inr x, s))"

definition sthrow :: "err \<Rightarrow> ('s, 'a) eff" where
  "sthrow e = (\<lambda>s. (Inl e, s))"

definition slift :: "err + 'a \<Rightarrow> ('s, 'a) eff" where
  "slift r = (\<lambda>s. (r, s))"

definition sget :: "('s \<Rightarrow> 'a) \<Rightarrow> ('s, 'a) eff" where
  "sget f = (\<lambda>s. (Inr (f s), s))"

definition smodify :: "('s \<Rightarrow> 's) \<Rightarrow> ('s, unit) eff" where
  "smodify f = (\<lambda>s. (Inr (), f s))"

definition sbind :: "('s, 'a) eff \<Rightarrow> ('a \<Rightarrow> ('s, 'b) eff) \<Rightarrow> ('s, 'b) eff" where
  "sbind m f = (\<lambda>s. case m s of (Inl e, t) \<Rightarrow> (Inl e, t) | (Inr x, t) \<Rightarrow> f x t)"

definition scontext :: "string \<Rightarrow> ('s, 'a) eff \<Rightarrow> ('s, 'a) eff" where
  "scontext c m = (\<lambda>s. case m s of (r, t) \<Rightarrow> (with_context c r, t))"

text \<open>\<open>m.ok()\<close>: the operation's value if it succeeded; its effects stay.\<close>

definition stry :: "('s, 'a) eff \<Rightarrow> ('s, err + 'a) eff" where
  "stry m = (\<lambda>s. case m s of (r, t) \<Rightarrow> (Inr r, t))"

lemma sret_apply [simp]: "sret x s = (Inr x, s)"
  by (simp add: sret_def)

lemma sthrow_apply [simp]: "sthrow e s = (Inl e, s)"
  by (simp add: sthrow_def)

lemma slift_apply [simp]: "slift r s = (r, s)"
  by (simp add: slift_def)

lemma sget_apply [simp]: "sget f s = (Inr (f s), s)"
  by (simp add: sget_def)

lemma smodify_apply [simp]: "smodify f s = (Inr (), f s)"
  by (simp add: smodify_def)

lemma sbind_Inr: "m s = (Inr x, t) \<Longrightarrow> sbind m f s = f x t"
  by (simp add: sbind_def)

lemma sbind_Inl: "m s = (Inl e, t) \<Longrightarrow> sbind m f s = (Inl e, t)"
  by (simp add: sbind_def)

lemma sbind_ret [simp]: "sbind (sret x) f = f x"
  by (simp add: sbind_def fun_eq_iff)

lemma sbind_get [simp]: "sbind (sget g) f s = f (g s) s"
  by (simp add: sbind_def)

lemma sbind_lift_Inr [simp]: "sbind (slift (Inr x)) f = f x"
  by (simp add: sbind_def fun_eq_iff)

lemma sbind_lift_Inl [simp]: "sbind (slift (Inl e)) f = sthrow e"
  by (simp add: sbind_def fun_eq_iff)

lemma sbind_throw [simp]: "sbind (sthrow e) f = sthrow e"
  by (simp add: sbind_def fun_eq_iff)

lemma sbind_assoc: "sbind (sbind m f) g = sbind m (\<lambda>x. sbind (f x) g)"
  by (auto simp: sbind_def fun_eq_iff split: prod.splits sum.splits)

lemma sbind_Inr_iff [result_simps]:
  "sbind m f s = (Inr y, u) \<longleftrightarrow> (\<exists>x t. m s = (Inr x, t) \<and> f x t = (Inr y, u))"
  by (auto simp: sbind_def split: prod.splits sum.splits)

lemma scontext_Inr_iff [result_simps]: "scontext c m s = (Inr x, t) \<longleftrightarrow> m s = (Inr x, t)"
  by (auto simp: scontext_def with_context_Inr_iff split: prod.splits)

lemma scontext_Inr: "m s = (Inr x, t) \<Longrightarrow> scontext c m s = (Inr x, t)"
  by (simp add: scontext_def)

lemma sbind_cong [fundef_cong]:
  assumes "m = m'" and "s = s'" and "\<And>x t. m' s' = (Inr x, t) \<Longrightarrow> f x t = g x t"
  shows "sbind m f s = sbind m' g s'"
  using assms by (auto simp: sbind_def split: prod.splits sum.splits)

text \<open>A \<open>for\<close> loop over a list that collects its results.\<close>

fun smapM :: "('a \<Rightarrow> ('s, 'b) eff) \<Rightarrow> 'a list \<Rightarrow> ('s, 'b list) eff" where
  "smapM f [] = sret []"
| "smapM f (x # xs) = sbind (f x) (\<lambda>y. sbind (smapM f xs) (\<lambda>ys. sret (y # ys)))"

section \<open>Results that do not depend on the caches\<close>

text \<open>
  From every state with \<open>I\<close> the operation gives the result \<open>r\<close>, and \<open>I\<close> still holds after
  it: how a cached, stateful operation implements a pure specification.
\<close>

definition computes :: "('s \<Rightarrow> bool) \<Rightarrow> ('s, 'a) eff \<Rightarrow> err + 'a \<Rightarrow> bool" where
  "computes I m r \<longleftrightarrow> (\<forall>s. I s \<longrightarrow> fst (m s) = r \<and> I (snd (m s)))"

lemma computesD: "computes I m r \<Longrightarrow> I s \<Longrightarrow> fst (m s) = r \<and> I (snd (m s))"
  by (simp add: computes_def)

lemma computes_ret [intro]: "computes I (sret x) (Inr x)"
  by (simp add: computes_def)

lemma computes_throw [intro]: "computes I (sthrow e) (Inl e)"
  by (simp add: computes_def)

lemma computes_lift [intro]: "computes I (slift r) r"
  by (simp add: computes_def)

lemma computes_bind:
  assumes m: "computes I m r" and f: "\<And>y. r = Inr y \<Longrightarrow> computes I (f y) (g y)"
  shows "computes I (sbind m f) (rbind r g)"
  unfolding computes_def
proof (intro allI impI)
  fix s assume "I s"
  with m have ms: "fst (m s) = r" "I (snd (m s))" by (auto simp: computes_def)
  show "fst (sbind m f s) = rbind r g \<and> I (snd (sbind m f s))"
  proof (cases r)
    case (Inl e)
    with ms have "m s = (Inl e, snd (m s))" by (metis prod.collapse)
    with Inl ms show ?thesis using sbind_Inl [of m s e "snd (m s)" f] by simp
  next
    case (Inr y)
    with ms have "m s = (Inr y, snd (m s))" by (metis prod.collapse)
    then have "sbind m f s = f y (snd (m s))" by (rule sbind_Inr)
    with Inr ms f [OF Inr] show ?thesis by (simp add: computes_def)
  qed
qed

lemma computes_bind_Inr:
  "computes I m (Inr y) \<Longrightarrow> computes I (f y) r \<Longrightarrow> computes I (sbind m f) r"
  using computes_bind [of I m "Inr y" f "\<lambda>_. r"] by simp

lemma computes_context:
  "computes I m r \<Longrightarrow> computes I (scontext c m) (with_context c r)"
  by (simp add: computes_def scontext_def split_beta)

text \<open>
  From every state with \<open>I\<close>, a successful result has \<open>Q\<close>; \<open>I\<close> holds after success and failure.
\<close>

definition ensures :: "('s \<Rightarrow> bool) \<Rightarrow> ('s, 'a) eff \<Rightarrow> ('a \<Rightarrow> bool) \<Rightarrow> bool" where
  "ensures I m Q \<longleftrightarrow>
     (\<forall>s. I s \<longrightarrow> I (snd (m s)) \<and> (\<forall>y. fst (m s) = Inr y \<longrightarrow> Q y))"

lemma ensuresD: "ensures I m Q \<Longrightarrow> I s \<Longrightarrow> m s = (Inr y, t) \<Longrightarrow> Q y \<and> I t"
  by (metis ensures_def fst_conv snd_conv)

lemma ensures_ret: "Q x \<Longrightarrow> ensures I (sret x) Q"
  by (simp add: ensures_def)

lemma ensures_throw: "ensures I (sthrow e) Q"
  by (simp add: ensures_def)

lemma ensures_lift: "(\<And>y. r = Inr y \<Longrightarrow> Q y) \<Longrightarrow> ensures I (slift r) Q"
  by (simp add: ensures_def)

lemma ensures_get: "(\<And>s. I s \<Longrightarrow> Q (f s)) \<Longrightarrow> ensures I (sget f) Q"
  by (simp add: ensures_def)

lemma ensures_computes:
  "computes I m r \<Longrightarrow> (\<And>y. r = Inr y \<Longrightarrow> Q y) \<Longrightarrow> ensures I m Q"
  by (auto simp: ensures_def computes_def)

lemma ensures_bind:
  assumes m: "ensures I m P" and f: "\<And>y. P y \<Longrightarrow> ensures I (f y) Q"
  shows "ensures I (sbind m f) Q"
  unfolding ensures_def
proof (intro allI impI)
  fix s assume I: "I s"
  obtain r t where ms: "m s = (r, t)" by (cases "m s")
  with m I have t: "I t" and P: "\<And>y. r = Inr y \<Longrightarrow> P y" by (auto simp: ensures_def)
  show "I (snd (sbind m f s)) \<and> (\<forall>y. fst (sbind m f s) = Inr y \<longrightarrow> Q y)"
  proof (cases r)
    case (Inl e)
    with ms t show ?thesis by (simp add: sbind_Inl)
  next
    case (Inr y)
    with ms have "sbind m f s = f y t" by (simp add: sbind_Inr)
    with f [OF P [OF Inr]] t show ?thesis by (simp add: ensures_def)
  qed
qed

lemma ensures_mono: "ensures I m P \<Longrightarrow> (\<And>y. P y \<Longrightarrow> Q y) \<Longrightarrow> ensures I m Q"
  by (simp add: ensures_def)

lemma ensures_context: "ensures I m Q \<Longrightarrow> ensures I (scontext c m) Q"
  by (auto simp: ensures_def scontext_def with_context_Inr_iff split_beta)

lemma ensures_if:
  "(c \<Longrightarrow> ensures I a Q) \<Longrightarrow> (\<not> c \<Longrightarrow> ensures I b Q) \<Longrightarrow> ensures I (if c then a else b) Q"
  by simp

lemma ensures_let: "ensures I (f a) Q \<Longrightarrow> ensures I (let y = a in f y) Q"
  by simp

lemma ensures_mapM:
  assumes "\<And>x. x \<in> set xs \<Longrightarrow> ensures I (f x) (Q x)"
  shows "ensures I (smapM f xs) (list_all2 Q xs)"
  using assms
proof (induction xs)
  case Nil
  show ?case by (simp add: ensures_def)
next
  case (Cons x xs)
  show ?case
    unfolding smapM.simps
    by (rule ensures_bind [OF Cons.prems], simp, rule ensures_bind [OF Cons.IH])
      (auto simp: Cons.prems intro: ensures_ret)
qed

text \<open>
  Started with \<open>P\<close>, a success ends with \<open>Q\<close> of the result and the new state.
\<close>

definition yields :: "('s \<Rightarrow> bool) \<Rightarrow> ('s, 'a) eff \<Rightarrow> ('a \<Rightarrow> 's \<Rightarrow> bool) \<Rightarrow> bool" where
  "yields P m Q \<longleftrightarrow> (\<forall>s y t. P s \<longrightarrow> m s = (Inr y, t) \<longrightarrow> Q y t)"

lemma yieldsD: "yields P m Q \<Longrightarrow> P s \<Longrightarrow> m s = (Inr y, t) \<Longrightarrow> Q y t"
  by (auto simp: yields_def)

lemma yields_ret: "(\<And>s. P s \<Longrightarrow> Q x s) \<Longrightarrow> yields P (sret x) Q"
  by (simp add: yields_def)

lemma yields_throw: "yields P (sthrow e) Q"
  by (simp add: yields_def)

lemma yields_lift: "(\<And>s y. r = Inr y \<Longrightarrow> P s \<Longrightarrow> Q y s) \<Longrightarrow> yields P (slift r) Q"
  by (simp add: yields_def)

lemma yields_get: "(\<And>s. P s \<Longrightarrow> Q (f s) s) \<Longrightarrow> yields P (sget f) Q"
  by (simp add: yields_def)

lemma yields_bind:
  "yields P m R \<Longrightarrow> (\<And>y. yields (R y) (f y) Q) \<Longrightarrow> yields P (sbind m f) Q"
  unfolding yields_def sbind_Inr_iff by blast

lemma yields_weaken:
  "yields P m Q \<Longrightarrow> (\<And>s. P' s \<Longrightarrow> P s) \<Longrightarrow> (\<And>y s. Q y s \<Longrightarrow> Q' y s) \<Longrightarrow> yields P' m Q'"
  unfolding yields_def by blast

lemma yields_if:
  "(c \<Longrightarrow> yields P a Q) \<Longrightarrow> (\<not> c \<Longrightarrow> yields P b Q) \<Longrightarrow> yields P (if c then a else b) Q"
  by simp

text \<open>Started with \<open>P\<close>, the operation succeeds with \<open>y\<close>, and ends with \<open>Q\<close>.\<close>

definition achieves :: "('s \<Rightarrow> bool) \<Rightarrow> ('s, 'a) eff \<Rightarrow> 'a \<Rightarrow> ('s \<Rightarrow> bool) \<Rightarrow> bool" where
  "achieves P m y Q \<longleftrightarrow> (\<forall>s. P s \<longrightarrow> (\<exists>t. m s = (Inr y, t) \<and> Q t))"

lemma achievesD: "achieves P m y Q \<Longrightarrow> P s \<Longrightarrow> \<exists>t. m s = (Inr y, t) \<and> Q t"
  by (simp add: achieves_def)

lemma achieves_ret: "(\<And>s. P s \<Longrightarrow> Q s) \<Longrightarrow> achieves P (sret y) y Q"
  by (simp add: achieves_def)

lemma achieves_bind:
  "achieves P m y R \<Longrightarrow> achieves R (f y) z Q \<Longrightarrow> achieves P (sbind m f) z Q"
  unfolding achieves_def by (metis sbind_Inr)

lemma achieves_weaken:
  "achieves P m y Q \<Longrightarrow> (\<And>s. P' s \<Longrightarrow> P s) \<Longrightarrow> (\<And>s. Q s \<Longrightarrow> Q' s) \<Longrightarrow> achieves P' m y Q'"
  unfolding achieves_def by blast

lemma achieves_computes: "computes I m (Inr y) \<Longrightarrow> achieves I m y I"
  unfolding achieves_def computes_def by (metis prod.collapse)

section \<open>Two states\<close>

text \<open>An operation on one of two states: the file system's, and what a caller writes to.\<close>

definition on_fst :: "('s, 'a) eff \<Rightarrow> ('s \<times> 't, 'a) eff" where
  "on_fst m = (\<lambda>(s, t). case m s of (r, s') \<Rightarrow> (r, (s', t)))"

definition on_snd :: "('t, 'a) eff \<Rightarrow> ('s \<times> 't, 'a) eff" where
  "on_snd m = (\<lambda>(s, t). case m t of (r, t') \<Rightarrow> (r, (s, t')))"

lemma on_fst_Inr_iff [result_simps]:
  "on_fst m st = (Inr y, u) \<longleftrightarrow> m (fst st) = (Inr y, fst u) \<and> snd u = snd st"
  by (auto simp: on_fst_def split: prod.splits)

lemma on_snd_Inr_iff [result_simps]:
  "on_snd m st = (Inr y, u) \<longleftrightarrow> m (snd st) = (Inr y, snd u) \<and> fst u = fst st"
  by (auto simp: on_snd_def split: prod.splits)

lemma achieves_on_fst:
  "achieves P m y Q \<Longrightarrow>
     achieves (\<lambda>st. P (fst st) \<and> R (snd st)) (on_fst m) y (\<lambda>st. Q (fst st) \<and> R (snd st))"
  unfolding achieves_def on_fst_def by (auto split: prod.splits)

lemma achieves_on_snd:
  "achieves P m y Q \<Longrightarrow>
     achieves (\<lambda>st. R (fst st) \<and> P (snd st)) (on_snd m) y (\<lambda>st. R (fst st) \<and> Q (snd st))"
  unfolding achieves_def on_snd_def by (auto split: prod.splits)

lemma on_fst_apply [simp]:
  "fst (on_fst m st) = fst (m (fst st))" "snd (on_fst m st) = (snd (m (fst st)), snd st)"
  by (simp_all add: on_fst_def split_beta)

lemma on_snd_apply [simp]:
  "fst (on_snd m st) = fst (m (snd st))" "snd (on_snd m st) = (fst st, snd (m (snd st)))"
  by (simp_all add: on_snd_def split_beta)

section \<open>State that cannot be observed\<close>

text \<open>
  Two states that agree up to \<open>rel\<close> (the same devices and metadata, different cache
  contents) must give the same results and stay related: the caches are not observable.  An
  operation with that law is \<open>steady\<close>; the rules below carry it through sequencing, so each
  operation of \<open>Fs\<close> inherits it from the ones it calls.
\<close>

definition steady :: "('s \<Rightarrow> 's \<Rightarrow> bool) \<Rightarrow> ('s, 'a) eff \<Rightarrow> bool" where
  "steady rel m \<longleftrightarrow>
     (\<forall>s t. rel s t \<longrightarrow> fst (m s) = fst (m t) \<and> rel (snd (m s)) (snd (m t)))"

locale observation =
  fixes rel :: "'s \<Rightarrow> 's \<Rightarrow> bool"
  assumes rel_sym: "rel s t \<Longrightarrow> rel t s"
    and rel_trans: "rel s t \<Longrightarrow> rel t u \<Longrightarrow> rel s u"
begin

lemma steadyI:
  "(\<And>s t. rel s t \<Longrightarrow> fst (m s) = fst (m t) \<and> rel (snd (m s)) (snd (m t))) \<Longrightarrow> steady rel m"
  by (simp add: steady_def)

lemma steady_ret: "steady rel (sret x)"
  by (simp add: steady_def)

lemma steady_throw: "steady rel (sthrow e)"
  by (simp add: steady_def)

lemma steady_lift: "steady rel (slift r)"
  by (simp add: steady_def)

lemma steady_get: "(\<And>s t. rel s t \<Longrightarrow> f s = f t) \<Longrightarrow> steady rel (sget f)"
  by (auto simp: steady_def)

lemma steady_bind:
  assumes m: "steady rel m" and f: "\<And>x. steady rel (f x)"
  shows "steady rel (sbind m f)"
  unfolding steady_def
proof (intro allI impI)
  fix s t assume "rel s t"
  with m have "fst (m s) = fst (m t)" and st: "rel (snd (m s)) (snd (m t))"
    by (auto simp: steady_def)
  then obtain r where r: "m s = (r, snd (m s))" "m t = (r, snd (m t))"
    by (metis prod.collapse)
  have "\<And>x. fst (f x (snd (m s))) = fst (f x (snd (m t)))
          \<and> rel (snd (f x (snd (m s)))) (snd (f x (snd (m t))))"
    using f st by (auto simp: steady_def)
  with r st show "fst (sbind m f s) = fst (sbind m f t)
        \<and> rel (snd (sbind m f s)) (snd (sbind m f t))"
    by (cases r) (auto simp: sbind_def split: prod.splits)
qed

lemma steady_context: "steady rel m \<Longrightarrow> steady rel (scontext c m)"
  by (simp add: steady_def scontext_def split_beta)

lemma steady_mapM: "(\<And>x. steady rel (f x)) \<Longrightarrow> steady rel (smapM f xs)"
  by (induction xs) (auto intro!: steady_ret steady_bind)

lemma steady_if:
  "(c \<Longrightarrow> steady rel a) \<Longrightarrow> (\<not> c \<Longrightarrow> steady rel b) \<Longrightarrow> steady rel (if c then a else b)"
  by simp

lemma steady_result:
  assumes "steady rel m" and "rel s t"
  shows "fst (m s) = fst (m t)"
  using assms by (simp add: steady_def)

lemma steady_computes:
  assumes "computes I m r"
  shows "steady (\<lambda>s t. I s \<and> I t) m"
  using assms by (simp add: steady_def computes_def)

lemma steady_case_prod: "(\<And>a b. steady rel (f a b)) \<Longrightarrow> steady rel (case p of (a, b) \<Rightarrow> f a b)"
  by (simp add: split_beta)

lemma steady_case_option:
  "steady rel a \<Longrightarrow> (\<And>x. steady rel (f x)) \<Longrightarrow>
     steady rel (case y of None \<Rightarrow> a | Some x \<Rightarrow> f x)"
  by (cases y) simp_all

lemma steady_let: "steady rel (f a) \<Longrightarrow> steady rel (let y = a in f y)"
  by simp

lemmas steady_rules = steady_case_prod steady_case_option steady_let
  steady_ret steady_throw steady_lift steady_bind steady_context steady_mapM steady_if

end

end
