(* ===== verification/Utf8.thy ===== *)
theory Utf8
  imports Prelude
begin

text \<open>
  \<open>String::from_utf8\<close> and \<open>String::from_utf8_lossy\<close>, which the program applies to every name,
  label and link target it reads from the disk.  \<open>utf8_step\<close> decides the character a
  non-empty byte sequence starts with: whether it is well formed, and how many bytes it (or
  the longest prefix of it that could start a character) takes.  The lossy conversion puts
  the three bytes of U+FFFD in place of each ill-formed run.
\<close>

definition utf8_cont :: "u8 \<Rightarrow> bool" where
  "utf8_cont b \<longleftrightarrow> 0x80 \<le> b \<and> b \<le> 0xBF"

text \<open>What may follow the first byte of a three- and of a four-byte character.\<close>

definition utf8_second3 :: "u8 \<Rightarrow> u8 \<Rightarrow> bool" where
  "utf8_second3 b c \<longleftrightarrow>
     (if b = 0xE0 then 0xA0 \<le> c \<and> c \<le> 0xBF
      else if b = 0xED then 0x80 \<le> c \<and> c \<le> 0x9F
      else utf8_cont c)"

definition utf8_second4 :: "u8 \<Rightarrow> u8 \<Rightarrow> bool" where
  "utf8_second4 b c \<longleftrightarrow>
     (if b = 0xF0 then 0x90 \<le> c \<and> c \<le> 0xBF
      else if b = 0xF4 then 0x80 \<le> c \<and> c \<le> 0x8F
      else utf8_cont c)"

text \<open>How many of the bytes \<open>ps\<close> accepts in order are at the head of the list.\<close>

fun utf8_tail :: "(u8 \<Rightarrow> bool) list \<Rightarrow> bytes \<Rightarrow> bool \<times> nat" where
  "utf8_tail [] r = (True, 0)"
| "utf8_tail (p # ps) [] = (False, 0)"
| "utf8_tail (p # ps) (c # r) =
     (if p c then (case utf8_tail ps r of (ok, n) \<Rightarrow> (ok, Suc n)) else (False, 0))"

definition utf8_expect :: "u8 \<Rightarrow> (u8 \<Rightarrow> bool) list option" where
  "utf8_expect b =
     (if b < 0x80 then Some []
      else if 0xC2 \<le> b \<and> b \<le> 0xDF then Some [utf8_cont]
      else if 0xE0 \<le> b \<and> b \<le> 0xEF then Some [utf8_second3 b, utf8_cont]
      else if 0xF0 \<le> b \<and> b \<le> 0xF4 then Some [utf8_second4 b, utf8_cont, utf8_cont]
      else None)"

definition utf8_step :: "u8 \<Rightarrow> bytes \<Rightarrow> bool \<times> nat" where
  "utf8_step b r = (case utf8_expect b of None \<Rightarrow> (False, 0) | Some ps \<Rightarrow> utf8_tail ps r)"

text \<open>\<open>utf8_step b r\<close> counts the bytes of \<open>r\<close> that go with \<open>b\<close>.\<close>

function utf8_lossy :: "bytes \<Rightarrow> bytes" where
  "utf8_lossy [] = []"
| "utf8_lossy (b # r) =
     (let (ok, n) = utf8_step b r in
      (if ok then b # take n r else [0xEF, 0xBF, 0xBD]) @ utf8_lossy (drop n r))"
  by pat_completeness auto
termination
  by (relation "measure length") auto

function is_utf8 :: "bytes \<Rightarrow> bool" where
  "is_utf8 [] = True"
| "is_utf8 (b # r) = (let (ok, n) = utf8_step b r in ok \<and> is_utf8 (drop n r))"
  by pat_completeness auto
termination
  by (relation "measure length") auto

definition from_utf8 :: "bytes \<Rightarrow> string option" where
  "from_utf8 b = (if is_utf8 b then Some (of_bytes b) else None)"

definition from_utf8_lossy :: "bytes \<Rightarrow> string" where
  "from_utf8_lossy b = of_bytes (utf8_lossy b)"

lemma utf8_tail_append:
  "utf8_tail ps r = (True, n) \<Longrightarrow> utf8_tail ps (take n r @ t) = (True, n) \<and> n \<le> length r"
  by (induction ps r arbitrary: n rule: utf8_tail.induct)
    (auto split: if_splits prod.splits)

lemma utf8_step_append:
  assumes "utf8_step b r = (True, n)"
  shows "utf8_step b (take n r @ t) = (True, n)" and "n \<le> length r"
  using assms utf8_tail_append [of _ r n t]
  by (auto simp: utf8_step_def split: option.splits)

lemma utf8_lossy_id: "is_utf8 b \<Longrightarrow> utf8_lossy b = b"
  by (induction b rule: is_utf8.induct) (auto split: prod.splits)

lemma is_utf8_cons_append:
  assumes "utf8_step b r = (True, n)" and "is_utf8 t"
  shows "is_utf8 (b # take n r @ t)"
  using assms(2) utf8_step_append(1) [OF assms(1), of t] utf8_step_append(2) [OF assms(1)]
  by (simp add: min_absorb2)

lemma is_utf8_replacement: "is_utf8 t \<Longrightarrow> is_utf8 (0xEF # 0xBF # 0xBD # t)"
  by (simp add: utf8_step_def utf8_expect_def utf8_second3_def utf8_cont_def)

lemma is_utf8_lossy: "is_utf8 (utf8_lossy b)"
proof (induction b rule: utf8_lossy.induct)
  case 1
  show ?case by simp
next
  case (2 b r)
  obtain ok n where step: "utf8_step b r = (ok, n)" by (cases "utf8_step b r")
  with "2.IH" have rest: "is_utf8 (utf8_lossy (drop n r))" by simp
  show ?case
  proof (cases ok)
    case True
    with is_utf8_cons_append [OF _ rest, of b r n] step show ?thesis by simp
  next
    case False
    with is_utf8_replacement [OF rest] step show ?thesis by simp
  qed
qed

lemma from_utf8_lossy_exact_iff: "as_bytes (from_utf8_lossy b) = b \<longleftrightarrow> is_utf8 b"
  by (metis as_bytes_of_bytes from_utf8_lossy_def is_utf8_lossy utf8_lossy_id)

lemma from_utf8_as_bytes: "from_utf8 b = Some s \<Longrightarrow> as_bytes s = b"
  by (auto simp: from_utf8_def split: if_splits)

text \<open>ASCII is its own encoding.\<close>

lemma is_utf8_ascii: "\<forall>b \<in> set bs. b < 0x80 \<Longrightarrow> is_utf8 bs"
  by (induction bs) (auto simp: utf8_step_def utf8_expect_def)

lemma from_utf8_lossy_ascii: "\<forall>b \<in> set bs. b < 0x80 \<Longrightarrow> from_utf8_lossy bs = of_bytes bs"
  by (simp add: from_utf8_lossy_def is_utf8_ascii utf8_lossy_id)

end
