(* ===== verification/Disk.thy ===== *)
theory Disk
  imports Effects Utf8
begin

text \<open>
  The on-disk structures of src/disk.rs, parsed by offset out of byte buffers with bounds
  checks.  \<open>crc\<close> and \<open>crc_append\<close> stand for the crc32c crate's functions, which are not
  part of the repository: the definitions that checksum take them as an argument.
\<close>

section \<open>Constants\<close>

definition SUPER_OFFSET :: u64 where [simp]: "SUPER_OFFSET = 0x10000"
definition SUPER_SIZE :: nat where [simp]: "SUPER_SIZE = 4096"
definition MAGIC :: bytes where "MAGIC = as_bytes ''_BHRfS_M''"
definition HEADER_SIZE :: nat where [simp]: "HEADER_SIZE = 101"
definition KEY_SIZE :: nat where [simp]: "KEY_SIZE = 17"
definition INODE_ITEM_SIZE :: nat where [simp]: "INODE_ITEM_SIZE = 160"

definition FS_TREE_OBJECTID :: u64 where [simp]: "FS_TREE_OBJECTID = 5"
definition FIRST_FREE_OBJECTID :: u64 where [simp]: "FIRST_FREE_OBJECTID = 256"
definition LAST_FREE_OBJECTID :: u64 where [simp]: "LAST_FREE_OBJECTID = -1 - 256"

definition INODE_ITEM_KEY :: u8 where [simp]: "INODE_ITEM_KEY = 1"
definition INODE_REF_KEY :: u8 where [simp]: "INODE_REF_KEY = 12"
definition DIR_ITEM_KEY :: u8 where [simp]: "DIR_ITEM_KEY = 84"
definition DIR_INDEX_KEY :: u8 where [simp]: "DIR_INDEX_KEY = 96"
definition EXTENT_DATA_KEY :: u8 where [simp]: "EXTENT_DATA_KEY = 108"
definition ROOT_ITEM_KEY :: u8 where [simp]: "ROOT_ITEM_KEY = 132"
definition ROOT_BACKREF_KEY :: u8 where [simp]: "ROOT_BACKREF_KEY = 144"
definition ROOT_REF_KEY :: u8 where [simp]: "ROOT_REF_KEY = 156"
definition CHUNK_ITEM_KEY :: u8 where [simp]: "CHUNK_ITEM_KEY = 228"

definition FT_DIR :: u8 where [simp]: "FT_DIR = 2"
definition FT_SYMLINK :: u8 where [simp]: "FT_SYMLINK = 7"

definition BLOCK_GROUP_RAID0 :: u64 where [simp]: "BLOCK_GROUP_RAID0 = 8"
definition BLOCK_GROUP_RAID10 :: u64 where [simp]: "BLOCK_GROUP_RAID10 = 64"
definition BLOCK_GROUP_RAID5 :: u64 where [simp]: "BLOCK_GROUP_RAID5 = 128"
definition BLOCK_GROUP_RAID6 :: u64 where [simp]: "BLOCK_GROUP_RAID6 = 256"

definition INCOMPAT_FLAGS :: "(u64 \<times> string) list" where
  "INCOMPAT_FLAGS =
    [(0x1, ''mixed-backref''),
     (0x2, ''default-subvol''),
     (0x4, ''mixed-groups''),
     (0x8, ''compress-lzo''),
     (0x10, ''compress-zstd''),
     (0x20, ''big-metadata''),
     (0x40, ''extended-iref''),
     (0x80, ''raid56''),
     (0x100, ''skinny-metadata''),
     (0x200, ''no-holes''),
     (0x400, ''metadata-uuid''),
     (0x800, ''raid1c34''),
     (0x1000, ''zoned''),
     (0x2000, ''extent-tree-v2''),
     (0x4000, ''raid-stripe-tree''),
     (0x10000, ''simple-quota'')]"

definition INCOMPAT_REFUSED :: u64 where [simp]: "INCOMPAT_REFUSED = 0x6000"

section \<open>Reading fields\<close>

definition bytes :: "bytes \<Rightarrow> nat \<Rightarrow> nat \<Rightarrow> err + bytes" where
  "bytes b off len =
     (case Option.bind (usize_checked_add off len) (get_range b off) of
        Some s \<Rightarrow> Inr s
      | None \<Rightarrow> Inl (Disk (ShortRead len off (length b))))"

definition u8_at :: "bytes \<Rightarrow> nat \<Rightarrow> err + u8" where
  "u8_at b off = rbind (bytes b off 1) (\<lambda>s. Inr (s ! 0))"

definition u16_at :: "bytes \<Rightarrow> nat \<Rightarrow> err + u16" where
  "u16_at b off = rbind (bytes b off 2) (\<lambda>s. Inr (from_le_bytes s))"

definition u32_at :: "bytes \<Rightarrow> nat \<Rightarrow> err + u32" where
  "u32_at b off = rbind (bytes b off 4) (\<lambda>s. Inr (from_le_bytes s))"

definition u64_at :: "bytes \<Rightarrow> nat \<Rightarrow> err + u64" where
  "u64_at b off = rbind (bytes b off 8) (\<lambda>s. Inr (from_le_bytes s))"

lemma bytes_Inr_iff [result_simps]:
  "bytes b off len = Inr s \<longleftrightarrow>
     off + len < 2 ^ 64 \<and> off + len \<le> length b \<and> s = take len (drop off b)"
  by (auto simp: bytes_def usize_checked_add_def get_range_def split: if_splits)

lemma u8_at_Inr_iff [result_simps]:
  "u8_at b off = Inr v \<longleftrightarrow> off + 1 < 2 ^ 64 \<and> off < length b \<and> v = b ! off"
  by (auto simp: u8_at_def result_simps)

lemma u16_at_Inr_iff [result_simps]:
  "u16_at b off = Inr v \<longleftrightarrow>
     off + 2 < 2 ^ 64 \<and> off + 2 \<le> length b \<and> v = from_le_bytes (take 2 (drop off b))"
  by (auto simp: u16_at_def result_simps)

lemma u32_at_Inr_iff [result_simps]:
  "u32_at b off = Inr v \<longleftrightarrow>
     off + 4 < 2 ^ 64 \<and> off + 4 \<le> length b \<and> v = from_le_bytes (take 4 (drop off b))"
  by (auto simp: u32_at_def result_simps)

lemma u64_at_Inr_iff [result_simps]:
  "u64_at b off = Inr v \<longleftrightarrow>
     off + 8 < 2 ^ 64 \<and> off + 8 \<le> length b \<and> v = from_le_bytes (take 8 (drop off b))"
  by (auto simp: u64_at_def result_simps)

lemma bytes_length: "bytes b off len = Inr s \<Longrightarrow> length s = len"
  by (auto simp: result_simps)

text \<open>Reading back what an encoder wrote, anywhere in a buffer that fits in memory.\<close>

lemma bytes_mid:
  "length pre = off \<Longrightarrow> length mid = n \<Longrightarrow> off + n < 2 ^ 64 \<Longrightarrow>
     bytes (pre @ mid @ post) off n = Inr mid"
  by (simp add: bytes_Inr_iff)

lemma u8_at_mid:
  "length pre = off \<Longrightarrow> off + 1 < 2 ^ 64 \<Longrightarrow> u8_at (pre @ w # post) off = Inr w"
  by (simp add: u8_at_Inr_iff nth_append)

lemma u16_at_mid:
  "length pre = off \<Longrightarrow> off + 2 < 2 ^ 64 \<Longrightarrow> u16_at (pre @ to_le_bytes w @ post) off = Inr w"
  by (simp add: u16_at_Inr_iff le16.dec_enc)

lemma u32_at_mid:
  "length pre = off \<Longrightarrow> off + 4 < 2 ^ 64 \<Longrightarrow> u32_at (pre @ to_le_bytes w @ post) off = Inr w"
  by (simp add: u32_at_Inr_iff le32.dec_enc)

lemma u64_at_mid:
  "length pre = off \<Longrightarrow> off + 8 < 2 ^ 64 \<Longrightarrow> u64_at (pre @ to_le_bytes w @ post) off = Inr w"
  by (simp add: u64_at_Inr_iff le64.dec_enc)

section \<open>Keys\<close>

datatype key = Key (objectid: u64) (kty: u8) (koffset: u64)

text \<open>The derived \<open>Ord\<close>: by the fields in their order.\<close>

instantiation key :: linorder
begin

definition less_eq_key :: "key \<Rightarrow> key \<Rightarrow> bool" where
  "less_eq_key a b =
     (objectid a < objectid b \<or>
      objectid a = objectid b \<and>
        (kty a < kty b \<or> kty a = kty b \<and> koffset a \<le> koffset b))"

definition less_key :: "key \<Rightarrow> key \<Rightarrow> bool" where
  "less_key a b =
     (objectid a < objectid b \<or>
      objectid a = objectid b \<and>
        (kty a < kty b \<or> kty a = kty b \<and> koffset a < koffset b))"

instance
  by standard (auto simp: less_eq_key_def less_key_def intro: key.expand)

end

lemma key_le_Key [simp]:
  "Key a b c \<le> Key d e f \<longleftrightarrow> a < d \<or> a = d \<and> (b < e \<or> b = e \<and> c \<le> f)"
  by (simp add: less_eq_key_def)

lemma key_less_Key [simp]:
  "Key a b c < Key d e f \<longleftrightarrow> a < d \<or> a = d \<and> (b < e \<or> b = e \<and> c < f)"
  by (simp add: less_key_def)

definition key_parse :: "bytes \<Rightarrow> nat \<Rightarrow> err + key" where
  "key_parse b off =
     rbind (u64_at b off) (\<lambda>objectid.
     rbind (u8_at b (off + 8)) (\<lambda>ty.
     rbind (u64_at b (off + 9)) (\<lambda>offset.
     Inr (Key objectid ty offset))))"

text \<open>The disk format of a key, the inverse of the parser.\<close>

definition key_bytes :: "key \<Rightarrow> bytes" where
  "key_bytes k = to_le_bytes (objectid k) @ kty k # to_le_bytes (koffset k)"

lemma length_key_bytes [simp]: "length (key_bytes k) = 17"
  by (simp add: key_bytes_def)

lemma key_parse_Inr_iff [result_simps]:
  "key_parse b off = Inr k \<longleftrightarrow>
     off + 17 < 2 ^ 64 \<and> off + 17 \<le> length b \<and>
     k = Key (from_le_bytes (take 8 (drop off b))) (b ! (off + 8))
           (from_le_bytes (take 8 (drop (off + 9) b)))"
  by (auto simp: key_parse_def result_simps add.commute)

lemma key_parse_mid:
  assumes "length pre = off" and "off + 17 < 2 ^ 64"
  shows "key_parse (pre @ key_bytes k @ post) off = Inr k"
  using assms
  by (cases k) (simp add: key_parse_Inr_iff key_bytes_def nth_append le64.dec_enc)

section \<open>The superblock\<close>

record superblock =
  sb_fsid :: bytes
  sb_generation :: u64
  sb_root :: u64
  sb_chunk_root :: u64
  sb_log_root :: u64
  sb_total_bytes :: u64
  sb_bytes_used :: u64
  sb_root_dir_objectid :: u64
  sb_num_devices :: u64
  sb_sectorsize :: u32
  sb_nodesize :: u32
  sb_incompat_flags :: u64
  sb_csum_type :: u16
  sb_devid :: u64
  sb_label :: string
  sb_sys_chunk_array :: bytes

definition superblock_parse :: "(bytes \<Rightarrow> u32) \<Rightarrow> bytes \<Rightarrow> err + superblock" where
  "superblock_parse crc b =
     rbind (bytes b 0x40 8) (\<lambda>magic.
     if magic \<noteq> MAGIC then Inl (Disk NoMagic) else
     rbind (u16_at b 0xc4) (\<lambda>csum_type.
     rbind (if csum_type = 0 then
              rbind (u32_at b 0) (\<lambda>want.
              rbind (bytes b 32 (SUPER_SIZE - 32)) (\<lambda>body.
              if want \<noteq> crc body then Inl (Disk SuperChecksum) else Inr ()))
            else Inr ()) (\<lambda>_.
     rbind (u32_at b 0xa0) (\<lambda>sys_len.
     if unat sys_len > 2048 then Inl (Disk (SysArraySize (unat sys_len))) else
     rbind (bytes b 0x12b 256) (\<lambda>label_raw.
     rbind (bytes b 0x20 16) (\<lambda>fsid.
     rbind (u64_at b 0x48) (\<lambda>generation.
     rbind (u64_at b 0x50) (\<lambda>root.
     rbind (u64_at b 0x58) (\<lambda>chunk_root.
     rbind (u64_at b 0x60) (\<lambda>log_root.
     rbind (u64_at b 0x70) (\<lambda>total_bytes.
     rbind (u64_at b 0x78) (\<lambda>bytes_used.
     rbind (u64_at b 0x80) (\<lambda>root_dir_objectid.
     rbind (u64_at b 0x88) (\<lambda>num_devices.
     rbind (u32_at b 0x90) (\<lambda>sectorsize.
     rbind (u32_at b 0x94) (\<lambda>nodesize.
     rbind (u64_at b 0xbc) (\<lambda>incompat_flags.
     rbind (u64_at b 0xc9) (\<lambda>devid.
     rbind (bytes b 0x32b (unat sys_len)) (\<lambda>sys_chunk_array.
     if \<not> is_power_of_two sectorsize \<or> \<not> (512 \<le> sectorsize \<and> sectorsize \<le> 65536)
     then Inl (Disk (BadSectorsize sectorsize))
     else if \<not> is_power_of_two nodesize \<or> \<not> (4096 \<le> nodesize \<and> nodesize \<le> 65536)
     then Inl (Disk (BadNodesize nodesize))
     else Inr
       \<lparr>sb_fsid = fsid, sb_generation = generation, sb_root = root,
        sb_chunk_root = chunk_root, sb_log_root = log_root,
        sb_total_bytes = total_bytes, sb_bytes_used = bytes_used,
        sb_root_dir_objectid = root_dir_objectid, sb_num_devices = num_devices,
        sb_sectorsize = sectorsize, sb_nodesize = nodesize,
        sb_incompat_flags = incompat_flags, sb_csum_type = csum_type, sb_devid = devid,
        sb_label = from_utf8_lossy (takeWhile (\<lambda>c. c \<noteq> 0) label_raw),
        sb_sys_chunk_array = sys_chunk_array\<rparr>)))))))))))))))))))"

definition csum_name :: "superblock \<Rightarrow> string" where
  "csum_name sb =
     (if sb_csum_type sb = 0 then ''crc32c''
      else if sb_csum_type sb = 1 then ''xxhash64''
      else if sb_csum_type sb = 2 then ''sha256''
      else if sb_csum_type sb = 3 then ''blake2b''
      else ''unknown'')"

text \<open>What every accepted superblock satisfies; the rest of the reader relies on it.\<close>

definition superblock_ok :: "superblock \<Rightarrow> bool" where
  "superblock_ok sb \<longleftrightarrow>
     is_power_of_two (sb_sectorsize sb) \<and> 512 \<le> sb_sectorsize sb \<and> sb_sectorsize sb \<le> 65536 \<and>
     is_power_of_two (sb_nodesize sb) \<and> 4096 \<le> sb_nodesize sb \<and> sb_nodesize sb \<le> 65536 \<and>
     length (sb_sys_chunk_array sb) \<le> 2048 \<and> length (sb_fsid sb) = 16"

lemma superblock_parse_superblock_ok:
  "superblock_parse crc b = Inr sb \<Longrightarrow> superblock_ok sb"
  unfolding superblock_parse_def rbind_Inr_iff
  by (elim exE conjE, simp only: if_split_eq1)
    (clarsimp simp: rbind_Inr_iff superblock_ok_def split: if_split_asm dest!: bytes_length)

section \<open>Chunks\<close>

record chunk =
  ch_start :: u64
  ch_length :: u64
  ch_ty :: u64
  ch_stripes :: "(u64 \<times> u64) list"

definition stripe_at :: "bytes \<Rightarrow> nat \<Rightarrow> err + (u64 \<times> u64)" where
  "stripe_at b i =
     (let o' = 48 + i * 32 in
      rbind (u64_at b o') (\<lambda>devid. rbind (u64_at b (o' + 8)) (\<lambda>phys. Inr (devid, phys))))"

definition chunk_parse :: "u64 \<Rightarrow> bytes \<Rightarrow> err + (chunk \<times> nat)" where
  "chunk_parse start b =
     rbind (u16_at b 44) (\<lambda>n. let num_stripes = unat n in
     if num_stripes = 0 then Inl (Disk (ZeroStripes start)) else
     rbind (rcollect (stripe_at b) [0..<num_stripes]) (\<lambda>stripes.
     rbind (u64_at b 0) (\<lambda>len.
     rbind (u64_at b 24) (\<lambda>ty.
     Inr (\<lparr>ch_start = start, ch_length = len, ch_ty = ty, ch_stripes = stripes\<rparr>,
          48 + num_stripes * 32)))))"

definition profile :: "chunk \<Rightarrow> string" where
  "profile c = (let t = ch_ty c in
     if t AND BLOCK_GROUP_RAID0 \<noteq> 0 then ''raid0''
     else if t AND 0x10 \<noteq> 0 then ''raid1''
     else if t AND 0x20 \<noteq> 0 then ''dup''
     else if t AND BLOCK_GROUP_RAID10 \<noteq> 0 then ''raid10''
     else if t AND BLOCK_GROUP_RAID5 \<noteq> 0 then ''raid5''
     else if t AND BLOCK_GROUP_RAID6 \<noteq> 0 then ''raid6''
     else if t AND 0x200 \<noteq> 0 then ''raid1c3''
     else if t AND 0x400 \<noteq> 0 then ''raid1c4''
     else ''single'')"

definition kind :: "chunk \<Rightarrow> string" where
  "kind c = (let k = ch_ty c AND 7 in
     if k = 1 then ''data''
     else if k = 2 then ''system''
     else if k = 4 then ''metadata''
     else if k = 5 then ''data+metadata''
     else ''mixed'')"

section \<open>Inodes\<close>

record inode =
  i_size :: u64
  i_nlink :: u32
  i_uid :: u32
  i_gid :: u32
  i_mode :: u32
  i_mtime_sec :: int
  i_mtime_nsec :: u32

definition inode_parse :: "bytes \<Rightarrow> err + inode" where
  "inode_parse b =
     rbind (bytes b 0 INODE_ITEM_SIZE) (\<lambda>_.
     rbind (u64_at b 16) (\<lambda>size.
     rbind (u32_at b 40) (\<lambda>nlink.
     rbind (u32_at b 44) (\<lambda>uid.
     rbind (u32_at b 48) (\<lambda>gid.
     rbind (u32_at b 52) (\<lambda>mode.
     rbind (u64_at b 136) (\<lambda>mtime_sec.
     rbind (u32_at b 144) (\<lambda>mtime_nsec.
     Inr \<lparr>i_size = size, i_nlink = nlink, i_uid = uid, i_gid = gid, i_mode = mode,
          i_mtime_sec = sint mtime_sec, i_mtime_nsec = mtime_nsec\<rparr>))))))))"

text \<open>Octal in the source: \<open>0o170000\<close> is \<open>0xF000\<close>.\<close>

definition is_dir :: "inode \<Rightarrow> bool" where
  "is_dir i \<longleftrightarrow> i_mode i AND 0xF000 = 0x4000"

definition is_file :: "inode \<Rightarrow> bool" where
  "is_file i \<longleftrightarrow> i_mode i AND 0xF000 = 0x8000"

definition is_symlink :: "inode \<Rightarrow> bool" where
  "is_symlink i \<longleftrightarrow> i_mode i AND 0xF000 = 0xA000"

definition type_name :: "inode \<Rightarrow> string" where
  "type_name i = (let t = i_mode i AND 0xF000 in
     if t = 0x4000 then ''dir''
     else if t = 0x8000 then ''file''
     else if t = 0xA000 then ''symlink''
     else if t = 0x2000 then ''chardev''
     else if t = 0x6000 then ''blockdev''
     else if t = 0x1000 then ''fifo''
     else if t = 0xC000 then ''socket''
     else ''unknown'')"

lemma inode_parse_bounds: "inode_parse b = Inr i \<Longrightarrow> 160 \<le> length b"
  by (auto simp: inode_parse_def result_simps)

section \<open>Directory entries\<close>

record dir_entry =
  de_name :: bytes
  de_location :: key
  de_ftype :: u8

function parse_dir_from :: "bytes \<Rightarrow> nat \<Rightarrow> dir_entry list \<Rightarrow> err + dir_entry list" where
  "parse_dir_from b off out =
     (if off < length b then
        rbind (key_parse b off) (\<lambda>location.
        rbind (u16_at b (off + 25)) (\<lambda>data_len.
        rbind (u16_at b (off + 27)) (\<lambda>name_len.
        rbind (u8_at b (off + 29)) (\<lambda>ftype.
        rbind (bytes b (off + 30) (unat name_len)) (\<lambda>name.
        parse_dir_from b (off + (30 + unat name_len + unat data_len))
          (out @ [\<lparr>de_name = name, de_location = location, de_ftype = ftype\<rparr>]))))))
      else Inr out)"
  by pat_completeness auto
termination
  by (relation "measure (\<lambda>(b, off, out). length b - off)") auto

declare parse_dir_from.simps [simp del]

definition parse_dir_entries :: "bytes \<Rightarrow> err + dir_entry list" where
  "parse_dir_entries b = parse_dir_from b 0 []"

text \<open>
  The disk format of a directory item: the key it points to, the transaction it was made in,
  the lengths, the type, the name, and extra data (used by extended attributes).
\<close>

definition dir_entry_bytes :: "dir_entry \<Rightarrow> u64 \<Rightarrow> bytes \<Rightarrow> bytes" where
  "dir_entry_bytes e transid extra =
     key_bytes (de_location e) @ to_le_bytes transid
     @ to_le_bytes (word_of_nat (length extra) :: u16)
     @ to_le_bytes (word_of_nat (length (de_name e)) :: u16)
     @ de_ftype e # de_name e @ extra"

definition dir_entry_fits :: "dir_entry \<times> u64 \<times> bytes \<Rightarrow> bool" where
  "dir_entry_fits x =
     (case x of (e, t, extra) \<Rightarrow> length (de_name e) < 65536 \<and> length extra < 65536)"

definition dir_item_bytes :: "(dir_entry \<times> u64 \<times> bytes) list \<Rightarrow> bytes" where
  "dir_item_bytes xs = concat (map (\<lambda>(e, t, extra). dir_entry_bytes e t extra) xs)"

lemma length_dir_entry_bytes:
  "length (dir_entry_bytes e t extra) = 30 + length (de_name e) + length extra"
  by (simp add: dir_entry_bytes_def)

text \<open>One turn of the loop over an encoded entry.\<close>

lemma parse_dir_from_entry:
  assumes fits: "dir_entry_fits (e, t, extra)"
    and mem: "length (pre @ dir_entry_bytes e t extra @ post) < 2 ^ 64"
  shows "parse_dir_from (pre @ dir_entry_bytes e t extra @ post) (length pre) out =
     parse_dir_from (pre @ dir_entry_bytes e t extra @ post)
       (length pre + length (dir_entry_bytes e t extra)) (out @ [e])"
proof -
  let ?b = "pre @ dir_entry_bytes e t extra @ post"
  let ?n = "length pre"
  define k where "k = de_location e"
  define nl :: u16 where "nl = word_of_nat (length (de_name e))"
  define dl :: u16 where "dl = word_of_nat (length extra)"
  have b: "?b = pre @ key_bytes k @ to_le_bytes t @ to_le_bytes dl @ to_le_bytes nl
      @ de_ftype e # de_name e @ extra @ post"
    by (simp add: dir_entry_bytes_def k_def nl_def dl_def)
  have len: "?n + 30 + length (de_name e) + length extra < 2 ^ 64"
    using mem by (simp add: length_dir_entry_bytes)
  have nl: "unat nl = length (de_name e)" and dl: "unat dl = length extra"
    using fits by (simp_all add: nl_def dl_def dir_entry_fits_def unat_of_nat take_bit_nat_eq_self)
  have "key_parse ?b ?n = Inr k"
    unfolding b by (rule key_parse_mid) (use len in simp_all)
  moreover have "u16_at ?b (?n + 25) = Inr dl"
    using u16_at_mid [of "pre @ key_bytes k @ to_le_bytes t" "?n + 25" dl] len
    unfolding b by simp
  moreover have "u16_at ?b (?n + 27) = Inr nl"
    using u16_at_mid [of "pre @ key_bytes k @ to_le_bytes t @ to_le_bytes dl" "?n + 27" nl] len
    unfolding b by simp
  moreover have "u8_at ?b (?n + 29) = Inr (de_ftype e)"
    using u8_at_mid [of "pre @ key_bytes k @ to_le_bytes t @ to_le_bytes dl @ to_le_bytes nl"
        "?n + 29" "de_ftype e"] len
    unfolding b by simp
  moreover have "bytes ?b (?n + 30) (unat nl) = Inr (de_name e)"
    using bytes_mid [of "pre @ key_bytes k @ to_le_bytes t @ to_le_bytes dl @ to_le_bytes nl
        @ [de_ftype e]" "?n + 30" "de_name e" "unat nl"] len
    unfolding b by (simp add: nl)
  moreover have "?n < length ?b" by (simp add: length_dir_entry_bytes)
  moreover have "\<lparr>de_name = de_name e, de_location = k, de_ftype = de_ftype e\<rparr> = e"
    by (simp add: k_def)
  ultimately show ?thesis
    by (subst parse_dir_from.simps) (simp add: nl dl length_dir_entry_bytes add.assoc)
qed

lemma parse_dir_from_items:
  assumes "list_all dir_entry_fits xs" and "length (pre @ dir_item_bytes xs) < 2 ^ 64"
  shows "parse_dir_from (pre @ dir_item_bytes xs) (length pre) out = Inr (out @ map fst xs)"
  using assms
proof (induction xs arbitrary: pre out)
  case Nil
  then show ?case by (simp add: dir_item_bytes_def parse_dir_from.simps)
next
  case (Cons x xs)
  obtain e t extra where x: "x = (e, t, extra)" by (cases x)
  have split: "dir_item_bytes (x # xs) = dir_entry_bytes e t extra @ dir_item_bytes xs"
    by (simp add: dir_item_bytes_def x)
  have "parse_dir_from (pre @ dir_item_bytes (x # xs)) (length pre) out =
      parse_dir_from ((pre @ dir_entry_bytes e t extra) @ dir_item_bytes xs)
        (length (pre @ dir_entry_bytes e t extra)) (out @ [e])"
    using parse_dir_from_entry [of e t extra pre "dir_item_bytes xs" out] Cons.prems
    by (simp add: split [unfolded x] x)
  also have "\<dots> = Inr ((out @ [e]) @ map fst xs)"
    by (rule Cons.IH) (use Cons.prems in \<open>simp_all add: split\<close>)
  finally show ?case by (simp add: x)
qed

lemma parse_dir_entries_items:
  "list_all dir_entry_fits xs \<Longrightarrow> length (dir_item_bytes xs) < 2 ^ 64 \<Longrightarrow>
     parse_dir_entries (dir_item_bytes xs) = Inr (map fst xs)"
  using parse_dir_from_items [of xs "[]" "[]"] by (simp add: parse_dir_entries_def)

section \<open>File extents\<close>

datatype extent_kind =
    Inline bytes
  | Regular u64 u64 u64   \<comment> \<open>disk\_bytenr (0 is a hole), disk\_num\_bytes, offset\<close>
  | Prealloc

record extent =
  ex_file_off :: u64
  ex_len :: u64
  ex_ram_bytes :: u64
  ex_compression :: u8
  ex_kind :: extent_kind

definition extent_parse :: "u64 \<Rightarrow> bytes \<Rightarrow> err + extent" where
  "extent_parse file_off b =
     rbind (u64_at b 8) (\<lambda>ram_bytes.
     rbind (u8_at b 16) (\<lambda>compression.
     rbind (u8_at b 17) (\<lambda>encryption.
     if encryption \<noteq> 0 then Inl (Disk EncryptedExtent) else
     rbind (u8_at b 20) (\<lambda>t.
     rbind
       (if t = 0 then
          rbind (bytes b 21 (length b - 21)) (\<lambda>raw. Inr (Inline raw, ram_bytes))
        else if t = 1 \<or> t = 2 then
          rbind (u64_at b 45) (\<lambda>num_bytes.
          if t = 2 then Inr (Prealloc, num_bytes) else
          rbind (u64_at b 21) (\<lambda>disk_bytenr.
          rbind (u64_at b 29) (\<lambda>disk_num_bytes.
          rbind (u64_at b 37) (\<lambda>offset.
          Inr (Regular disk_bytenr disk_num_bytes offset, num_bytes)))))
        else Inl (Disk (UnknownExtentType t)))
       (\<lambda>(kind, len).
        Inr \<lparr>ex_file_off = file_off, ex_len = len, ex_ram_bytes = ram_bytes,
             ex_compression = compression, ex_kind = kind\<rparr>)))))"

definition compression_name :: "extent \<Rightarrow> string" where
  "compression_name e =
     (if ex_compression e = 0 then ''none''
      else if ex_compression e = 1 then ''zlib''
      else if ex_compression e = 2 then ''lzo''
      else if ex_compression e = 3 then ''zstd''
      else ''unknown'')"

lemma extent_parse_file_off: "extent_parse off b = Inr e \<Longrightarrow> ex_file_off e = off"
  by (auto simp: extent_parse_def result_simps split: if_splits)

section \<open>Name hash\<close>

definition name_hash :: "(u32 \<Rightarrow> bytes \<Rightarrow> u32) \<Rightarrow> bytes \<Rightarrow> u64" where
  "name_hash crc_append name = ucast (NOT (crc_append 1 name))"

section \<open>The superblock's disk format\<close>

text \<open>
  The disk format of a superblock, field by field at the offsets of the btrfs documentation,
  with zeros in the fields this reader does not use: everything after the checksum, and the
  checksum in front of it.
\<close>

definition superblock_body :: "superblock \<Rightarrow> bytes" where
  "superblock_body sb =
     sb_fsid sb @ replicate 16 0 @ MAGIC
     @ to_le_bytes (sb_generation sb) @ to_le_bytes (sb_root sb)
     @ to_le_bytes (sb_chunk_root sb) @ to_le_bytes (sb_log_root sb) @ replicate 8 0
     @ to_le_bytes (sb_total_bytes sb) @ to_le_bytes (sb_bytes_used sb)
     @ to_le_bytes (sb_root_dir_objectid sb) @ to_le_bytes (sb_num_devices sb)
     @ to_le_bytes (sb_sectorsize sb) @ to_le_bytes (sb_nodesize sb) @ replicate 8 0
     @ to_le_bytes (word_of_nat (length (sb_sys_chunk_array sb)) :: u32) @ replicate 24 0
     @ to_le_bytes (sb_incompat_flags sb) @ to_le_bytes (sb_csum_type sb) @ replicate 3 0
     @ to_le_bytes (sb_devid sb) @ replicate 90 0
     @ as_bytes (sb_label sb) @ replicate (256 - length (sb_label sb)) 0 @ replicate 256 0
     @ sb_sys_chunk_array sb @ replicate (3285 - length (sb_sys_chunk_array sb)) 0"

definition superblock_bytes :: "(bytes \<Rightarrow> u32) \<Rightarrow> superblock \<Rightarrow> bytes" where
  "superblock_bytes crc sb =
     to_le_bytes (crc (superblock_body sb)) @ replicate 28 0 @ superblock_body sb"

definition label_ok :: "string \<Rightarrow> bool" where
  "label_ok l \<longleftrightarrow> length l \<le> 256 \<and> 0 \<notin> set (as_bytes l) \<and> is_utf8 (as_bytes l)"

lemma length_MAGIC [simp]: "length MAGIC = 8"
  by (simp add: MAGIC_def)

lemma takeWhile_label:
  assumes "label_ok l"
  shows "takeWhile (\<lambda>c. c \<noteq> 0) (as_bytes l @ replicate n 0) = as_bytes l"
proof -
  have "takeWhile (\<lambda>c. c \<noteq> 0) (replicate n (0::u8)) = []" by (cases n) auto
  moreover have "\<forall>c \<in> set (as_bytes l). c \<noteq> 0" using assms by (auto simp: label_ok_def)
  ultimately show ?thesis by (simp add: takeWhile_append2)
qed

lemma length_superblock_body:
  "superblock_ok sb \<Longrightarrow> label_ok (sb_label sb) \<Longrightarrow> length (superblock_body sb) = 4064"
  by (simp add: superblock_body_def superblock_ok_def label_ok_def)

lemma superblock_fields:
  fixes crc :: "bytes \<Rightarrow> u32"
  assumes "superblock_ok sb" and "label_ok (sb_label sb)"
  defines "b \<equiv> superblock_bytes crc sb"
  shows "bytes b 0x40 8 = Inr MAGIC" and "u16_at b 0xc4 = Inr (sb_csum_type sb)"
    and "u32_at b 0 = Inr (crc (superblock_body sb))"
    and "bytes b 32 4064 = Inr (superblock_body sb)"
    and "u32_at b 0xa0 = Inr (word_of_nat (length (sb_sys_chunk_array sb)))"
    and "bytes b 0x12b 256 =
           Inr (as_bytes (sb_label sb) @ replicate (256 - length (sb_label sb)) 0)"
    and "bytes b 0x20 16 = Inr (sb_fsid sb)" and "u64_at b 0x48 = Inr (sb_generation sb)"
    and "u64_at b 0x50 = Inr (sb_root sb)" and "u64_at b 0x58 = Inr (sb_chunk_root sb)"
    and "u64_at b 0x60 = Inr (sb_log_root sb)" and "u64_at b 0x70 = Inr (sb_total_bytes sb)"
    and "u64_at b 0x78 = Inr (sb_bytes_used sb)"
    and "u64_at b 0x80 = Inr (sb_root_dir_objectid sb)"
    and "u64_at b 0x88 = Inr (sb_num_devices sb)" and "u32_at b 0x90 = Inr (sb_sectorsize sb)"
    and "u32_at b 0x94 = Inr (sb_nodesize sb)" and "u64_at b 0xbc = Inr (sb_incompat_flags sb)"
    and "u64_at b 0xc9 = Inr (sb_devid sb)"
    and "bytes b 0x32b (length (sb_sys_chunk_array sb)) = Inr (sb_sys_chunk_array sb)"
proof -
  have lens: "length (sb_fsid sb) = 16" "length (sb_sys_chunk_array sb) \<le> 2048"
    "length (sb_label sb) \<le> 256"
    using assms(1,2) by (simp_all add: superblock_ok_def label_ok_def)
  note layout = b_def superblock_bytes_def superblock_body_def
  show "bytes b 32 4064 = Inr (superblock_body sb)"
    using length_superblock_body [OF assms(1,2)]
    by (simp add: b_def superblock_bytes_def bytes_Inr_iff)
  show "bytes b 0x40 8 = Inr MAGIC" "bytes b 0x20 16 = Inr (sb_fsid sb)"
    "bytes b 0x12b 256 =
           Inr (as_bytes (sb_label sb) @ replicate (256 - length (sb_label sb)) 0)"
    "bytes b 0x32b (length (sb_sys_chunk_array sb)) = Inr (sb_sys_chunk_array sb)"
    using lens by (simp_all add: layout bytes_Inr_iff)
  show "u16_at b 0xc4 = Inr (sb_csum_type sb)"
    using lens by (simp add: layout u16_at_Inr_iff le16.dec_enc)
  show "u32_at b 0 = Inr (crc (superblock_body sb))"
    "u32_at b 0xa0 = Inr (word_of_nat (length (sb_sys_chunk_array sb)))"
    "u32_at b 0x90 = Inr (sb_sectorsize sb)" "u32_at b 0x94 = Inr (sb_nodesize sb)"
    using lens by (simp_all add: layout u32_at_Inr_iff le32.dec_enc)
  show "u64_at b 0x48 = Inr (sb_generation sb)" "u64_at b 0x50 = Inr (sb_root sb)"
    "u64_at b 0x58 = Inr (sb_chunk_root sb)" "u64_at b 0x60 = Inr (sb_log_root sb)"
    "u64_at b 0x70 = Inr (sb_total_bytes sb)" "u64_at b 0x78 = Inr (sb_bytes_used sb)"
    "u64_at b 0x80 = Inr (sb_root_dir_objectid sb)" "u64_at b 0x88 = Inr (sb_num_devices sb)"
    "u64_at b 0xbc = Inr (sb_incompat_flags sb)" "u64_at b 0xc9 = Inr (sb_devid sb)"
    using lens by (simp_all add: layout u64_at_Inr_iff le64.dec_enc)
qed

lemma superblock_parse_bytes:
  assumes "superblock_ok sb" and "label_ok (sb_label sb)"
  shows "superblock_parse crc (superblock_bytes crc sb) = Inr sb"
proof -
  note fields = superblock_fields [OF assms, of crc]
  have "unat (word_of_nat (length (sb_sys_chunk_array sb)) :: u32)
      = length (sb_sys_chunk_array sb)"
    using assms(1) by (simp add: superblock_ok_def unat_of_nat take_bit_nat_eq_self)
  with assms show ?thesis
    by (simp add: superblock_parse_def fields takeWhile_label)
      (simp add: superblock_ok_def label_ok_def from_utf8_lossy_def utf8_lossy_id)
qed

definition sample_superblock :: superblock where
  "sample_superblock =
     \<lparr>sb_fsid = replicate 16 0xAB, sb_generation = 7, sb_root = 0x500000,
      sb_chunk_root = 0x100000, sb_log_root = 0, sb_total_bytes = 0x1000000,
      sb_bytes_used = 0x20000, sb_root_dir_objectid = 6, sb_num_devices = 1,
      sb_sectorsize = 4096, sb_nodesize = 4096, sb_incompat_flags = 0x361,
      sb_csum_type = 0, sb_devid = 1, sb_label = ''fedora'', sb_sys_chunk_array = []\<rparr>"

lemma sample_superblock_ok: "superblock_ok sample_superblock"
  by (simp add: superblock_ok_def sample_superblock_def) code_simp

lemma sample_label_ok: "label_ok (sb_label sample_superblock)"
  by (simp add: label_ok_def sample_superblock_def as_bytes_def utf8_step_def utf8_expect_def)

text \<open>
  C10: The superblock survives the disk format: a superblock laid out as btrfs documents it,
  with its checksum, is accepted by \<open>Superblock::parse\<close> and read back exactly, for every
  checksum function, label and embedded chunk array.
\<close>

theorem superblock_parse_roundtrip:
  assumes "superblock_ok sb" and "label_ok (sb_label sb)"
  shows "superblock_parse crc (superblock_bytes crc sb) = Inr sb"
  by (rule superblock_parse_bytes [OF assms])

theorem superblock_parse_roundtrip_witness:
  "superblock_parse (\<lambda>b. word_of_nat (length b))
     (superblock_bytes (\<lambda>b. word_of_nat (length b)) sample_superblock)
     = Inr sample_superblock"
  by (rule superblock_parse_roundtrip [OF sample_superblock_ok sample_label_ok])

text \<open>
  C11: A superblock is accepted only if the magic is there, its stored CRC32C (when that is
  the checksum it declares) is that of bytes 32 to 4096, and its sizes are sane: sector and
  node sizes are powers of two within 512..65536 and 4096..65536, the embedded chunk array
  is at most 2048 bytes.  The rest of the reader divides by these and sizes buffers with them.
\<close>

theorem superblock_parse_accepts:
  assumes "superblock_parse crc b = Inr sb"
  shows "bytes b 0x40 8 = Inr MAGIC
    \<and> (sb_csum_type sb = 0 \<longrightarrow>
         (\<exists>body. bytes b 32 4064 = Inr body \<and> u32_at b 0 = Inr (crc body)))
    \<and> superblock_ok sb"
proof -
  have "bytes b 0x40 8 = Inr MAGIC
    \<and> (sb_csum_type sb = 0 \<longrightarrow>
         (\<exists>body. bytes b 32 4064 = Inr body \<and> u32_at b 0 = Inr (crc body)))"
    using assms unfolding superblock_parse_def rbind_Inr_iff
    by (elim exE conjE, simp only: if_split_eq1)
      (clarsimp simp: rbind_Inr_iff split: if_split_asm)
  with superblock_parse_superblock_ok [OF assms] show ?thesis by simp
qed

theorem superblock_parse_accepts_witness:
  "superblock_parse (\<lambda>_. 7) (superblock_bytes (\<lambda>_. 7) sample_superblock) = Inr sample_superblock
   \<and> u32_at (superblock_bytes (\<lambda>_. 7) sample_superblock) 0 = Inr 7"
  using superblock_parse_accepts
      [OF superblock_parse_bytes [OF sample_superblock_ok sample_label_ok, of "\<lambda>_. 7"]]
    superblock_parse_bytes [OF sample_superblock_ok sample_label_ok, of "\<lambda>_. 7"]
  by (simp add: sample_superblock_def)

text \<open>
  C12: A directory item holding any number of entries (names that collide in the hash share
  an item) is read back entry by entry, in order, names byte for byte, whatever extra data
  the entries carry.
\<close>

theorem parse_dir_entries_roundtrip:
  assumes "list_all dir_entry_fits xs" and "length (dir_item_bytes xs) < 2 ^ 64"
  shows "parse_dir_entries (dir_item_bytes xs) = Inr (map fst xs)"
  by (rule parse_dir_entries_items [OF assms])

definition sample_entry :: "u64 \<Rightarrow> bytes \<Rightarrow> dir_entry" where
  "sample_entry ino name = \<lparr>de_name = name, de_location = Key ino 1 0, de_ftype = 1\<rparr>"

theorem parse_dir_entries_roundtrip_witness:
  "parse_dir_entries (dir_item_bytes
     [(sample_entry 257 [97], 9, []), (sample_entry 258 [255, 98], 9, [1, 2])])
   = Inr [sample_entry 257 [97], sample_entry 258 [255, 98]]"
  using parse_dir_entries_roundtrip
    [of "[(sample_entry 257 [97], 9, []), (sample_entry 258 [255, 98], 9, [1, 2])]"]
  by (simp add: dir_entry_fits_def dir_item_bytes_def length_dir_entry_bytes sample_entry_def)

section \<open>The disk formats of chunks, inodes and extents\<close>

definition stripe_bytes :: "u64 \<times> u64 \<Rightarrow> bytes" where
  "stripe_bytes s = to_le_bytes (fst s) @ to_le_bytes (snd s) @ replicate 16 0"

definition chunk_bytes :: "chunk \<Rightarrow> bytes" where
  "chunk_bytes c =
     to_le_bytes (ch_length c) @ replicate 16 0 @ to_le_bytes (ch_ty c) @ replicate 12 0
     @ to_le_bytes (word_of_nat (length (ch_stripes c)) :: u16) @ replicate 2 0
     @ concat (map stripe_bytes (ch_stripes c))"

definition inode_bytes :: "inode \<Rightarrow> bytes" where
  "inode_bytes i =
     replicate 16 0 @ to_le_bytes (i_size i) @ replicate 16 0 @ to_le_bytes (i_nlink i)
     @ to_le_bytes (i_uid i) @ to_le_bytes (i_gid i) @ to_le_bytes (i_mode i)
     @ replicate 80 0 @ to_le_bytes (word_of_int (i_mtime_sec i) :: u64)
     @ to_le_bytes (i_mtime_nsec i) @ replicate 12 0"

definition extent_bytes :: "extent \<Rightarrow> bytes" where
  "extent_bytes e =
     replicate 8 0 @ to_le_bytes (ex_ram_bytes e) @ [ex_compression e, 0, 0, 0]
     @ (case ex_kind e of
          Inline raw \<Rightarrow> 0 # raw
        | Regular dbn dnb off \<Rightarrow>
            1 # to_le_bytes dbn @ to_le_bytes dnb @ to_le_bytes off @ to_le_bytes (ex_len e)
        | Prealloc \<Rightarrow> 2 # replicate 24 0 @ to_le_bytes (ex_len e))"

text \<open>An inline extent's length is its \<open>ram_bytes\<close>; times fit in 64 bits.\<close>

definition extent_ok :: "extent \<Rightarrow> bool" where
  "extent_ok e =
     (case ex_kind e of
        Inline raw \<Rightarrow> ex_len e = ex_ram_bytes e \<and> length raw < 2 ^ 32
      | _ \<Rightarrow> True)"

definition inode_ok :: "inode \<Rightarrow> bool" where
  "inode_ok i = (- (2 ^ 63) \<le> i_mtime_sec i \<and> i_mtime_sec i < 2 ^ 63)"

lemma length_stripe_bytes [simp]: "length (stripe_bytes s) = 32"
  by (simp add: stripe_bytes_def)

lemma length_stripes: "length (concat (map stripe_bytes ss)) = 32 * length ss"
  by (induction ss) auto

lemma length_chunk_bytes: "length (chunk_bytes c) = 48 + 32 * length (ch_stripes c)"
  by (simp add: chunk_bytes_def length_stripes)

lemma stripe_at_mid:
  assumes pre: "length pre = 48 + i * 32" and mem: "length pre + 32 < 2 ^ 64"
  shows "stripe_at (pre @ stripe_bytes s @ post) i = Inr s"
proof -
  have "u64_at (pre @ stripe_bytes s @ post) (48 + i * 32) = Inr (fst s)"
    using u64_at_mid [of pre "48 + i * 32" "fst s"] pre mem by (simp add: stripe_bytes_def)
  moreover have "u64_at (pre @ stripe_bytes s @ post) (48 + i * 32 + 8) = Inr (snd s)"
    using u64_at_mid [of "pre @ to_le_bytes (fst s)" "48 + i * 32 + 8" "snd s"] pre mem
    by (simp add: stripe_bytes_def)
  ultimately show ?thesis by (simp add: stripe_at_def Let_def)
qed

lemma stripes_collect:
  assumes "length hdr = 48" and "length (hdr @ concat (map stripe_bytes ss) @ post) < 2 ^ 64"
  shows "rcollect (stripe_at (hdr @ concat (map stripe_bytes ss) @ post)) [0..<length ss] = Inr ss"
  unfolding rcollect_Inr_iff list_all2_conv_all_nth
proof (intro conjI allI impI)
  show "length [0..<length ss] = length ss" by simp
next
  fix i assume "i < length [0..<length ss]"
  then have i: "i < length ss" by simp
  let ?pre = "hdr @ concat (map stripe_bytes (take i ss))"
  let ?post = "concat (map stripe_bytes (drop (Suc i) ss)) @ post"
  have "concat (map stripe_bytes ss) =
      concat (map stripe_bytes (take i ss)) @ stripe_bytes (ss ! i)
      @ concat (map stripe_bytes (drop (Suc i) ss))"
    using arg_cong [OF id_take_nth_drop [OF i], of "\<lambda>l. concat (map stripe_bytes l)"]
    by (simp only: map_append concat_append list.map concat.simps append_assoc)
  then have "stripe_at (hdr @ concat (map stripe_bytes ss) @ post) i
      = stripe_at (?pre @ stripe_bytes (ss ! i) @ ?post) i"
    by simp
  also have "\<dots> = Inr (ss ! i)"
    by (rule stripe_at_mid) (use assms i in \<open>simp_all add: length_stripes\<close>)
  finally show "stripe_at (hdr @ concat (map stripe_bytes ss) @ post) ([0..<length ss] ! i)
      = Inr (ss ! i)"
    using i by simp
qed

lemma chunk_parse_bytes:
  assumes "0 < length (ch_stripes c)" and "length (ch_stripes c) < 65536"
    and "length (chunk_bytes c @ post) < 2 ^ 64"
  shows "chunk_parse (ch_start c) (chunk_bytes c @ post) = Inr (c, length (chunk_bytes c))"
proof -
  let ?b = "chunk_bytes c @ post"
  have n: "unat (word_of_nat (length (ch_stripes c)) :: u16) = length (ch_stripes c)"
    using assms(2) by (simp add: unat_of_nat take_bit_nat_eq_self)
  have "u16_at ?b 44 = Inr (word_of_nat (length (ch_stripes c)))"
    by (simp add: u16_at_Inr_iff chunk_bytes_def le16.dec_enc)
  moreover have "u64_at ?b 0 = Inr (ch_length c)" "u64_at ?b 24 = Inr (ch_ty c)"
    by (simp_all add: u64_at_Inr_iff chunk_bytes_def le64.dec_enc)
  moreover have "rcollect (stripe_at ?b) [0..<length (ch_stripes c)] = Inr (ch_stripes c)"
    using stripes_collect [of "take 48 ?b" "ch_stripes c" post] assms(3)
    by (simp add: chunk_bytes_def length_stripes)
  ultimately show ?thesis
    using assms(1) by (simp add: chunk_parse_def n length_chunk_bytes)
qed

text \<open>Sample items, for the witnesses.\<close>

definition sample_chunk :: chunk where
  "sample_chunk = \<lparr>ch_start = 0x100000, ch_length = 0x400000, ch_ty = 0x22,
     ch_stripes = [(1, 0x500000), (1, 0x900000)]\<rparr>"

lemma inode_parse_bytes:
  assumes "inode_ok i"
  shows "inode_parse (inode_bytes i) = Inr i"
proof -
  have "sint (word_of_int (i_mtime_sec i) :: u64) = i_mtime_sec i"
    using assms by (simp add: inode_ok_def signed_of_int signed_take_bit_int_eq_self)
  then show ?thesis
    by (simp add: inode_parse_def u64_at_def u32_at_def bytes_def usize_checked_add_def
        get_range_def inode_bytes_def le64.dec_enc le32.dec_enc)
qed

lemma extent_parse_bytes:
  assumes "extent_ok e"
  shows "extent_parse (ex_file_off e) (extent_bytes e) = Inr e"
proof (cases "ex_kind e")
  case (Inline raw)
  then show ?thesis using assms
    by (simp add: extent_parse_def extent_bytes_def extent_ok_def u64_at_def u8_at_def
        bytes_def usize_checked_add_def get_range_def le64.dec_enc)
next
  case (Regular dbn dnb off)
  then show ?thesis
    by (simp add: extent_parse_def extent_bytes_def u64_at_def u8_at_def
        bytes_def usize_checked_add_def get_range_def le64.dec_enc)
next
  case Prealloc
  then show ?thesis
    by (simp add: extent_parse_def extent_bytes_def u64_at_def u8_at_def
        bytes_def usize_checked_add_def get_range_def le64.dec_enc)
qed

text \<open>
  C13: Inode items (times before 1970 included), file extent items of all three kinds and chunk
  items with any number of stripes from 1 to 65535 survive their disk formats; a chunk's length is
  reported too, so that the entries of the embedded chunk array are found one after the other
  whatever follows.
\<close>

theorem item_parse_roundtrip:
  assumes "inode_ok i" and "extent_ok e"
    and "0 < length (ch_stripes c)" and "length (ch_stripes c) < 65536"
    and "length (chunk_bytes c @ post) < 2 ^ 64"
  shows "inode_parse (inode_bytes i) = Inr i
    \<and> extent_parse (ex_file_off e) (extent_bytes e) = Inr e
    \<and> chunk_parse (ch_start c) (chunk_bytes c @ post) = Inr (c, length (chunk_bytes c))"
  using inode_parse_bytes [OF assms(1)] extent_parse_bytes [OF assms(2)]
    chunk_parse_bytes [OF assms(3-5)] by simp

definition sample_inode :: inode where
  "sample_inode = \<lparr>i_size = 5, i_nlink = 1, i_uid = 1000, i_gid = 1000, i_mode = 0x81A4,
     i_mtime_sec = -1, i_mtime_nsec = 999\<rparr>"

definition sample_inline :: extent where
  "sample_inline = \<lparr>ex_file_off = 0, ex_len = 5, ex_ram_bytes = 5, ex_compression = 0,
     ex_kind = Inline [104, 101, 108, 108, 111]\<rparr>"

theorem item_parse_roundtrip_witness:
  "inode_parse (inode_bytes sample_inode) = Inr sample_inode
   \<and> extent_parse 0 (extent_bytes sample_inline) = Inr sample_inline
   \<and> chunk_parse 0x100000 (chunk_bytes sample_chunk @ [1, 2, 3]) = Inr (sample_chunk, 112)"
  using item_parse_roundtrip [of sample_inode sample_inline sample_chunk "[1, 2, 3]"]
  by (simp add: inode_ok_def extent_ok_def sample_inode_def sample_inline_def sample_chunk_def
      length_chunk_bytes)

end
