(* ===== verification/Containers.thy ===== *)
theory Containers
  imports Prelude
begin

text \<open>
  The maps of the source.  \<open>HashMap\<close> is used for lookup, insertion, length and clearing, and
  \<open>BTreeMap\<close> also for \<open>range(..=k).next_back()\<close>, the entry with the greatest key not above
  \<open>k\<close>, and for iteration in key order.  The laws the clients use are locales; association
  lists provide them, sorted by key for \<open>BTreeMap\<close>, so that every use evaluates.
\<close>

section \<open>Interfaces\<close>

locale hash_map =
  fixes empty :: "'m"
    and insert :: "'k \<Rightarrow> 'v \<Rightarrow> 'm \<Rightarrow> 'm"
    and lookup :: "'m \<Rightarrow> 'k \<Rightarrow> 'v option"
  assumes lookup_empty: "lookup empty k = None"
    and lookup_insert: "lookup (insert k v m) j = (if j = k then Some v else lookup m j)"
begin

lemma lookup_insert_same: "lookup (insert k v m) k = Some v"
  by (simp add: lookup_insert)

lemma insert_keeps:
  assumes "\<And>j w. lookup m j = Some w \<Longrightarrow> P j w" and "P k v"
    and "lookup (insert k v m) j = Some w"
  shows "P j w"
  using assms by (auto simp: lookup_insert split: if_splits)

end

text \<open>An ordered map adds the greatest entry not above a key.\<close>

locale ordered_map = hash_map empty insert lookup
  for empty :: "'m"
    and insert :: "'k::linorder \<Rightarrow> 'v \<Rightarrow> 'm \<Rightarrow> 'm"
    and lookup :: "'m \<Rightarrow> 'k \<Rightarrow> 'v option" +
  fixes floor :: "'m \<Rightarrow> 'k \<Rightarrow> ('k \<times> 'v) option"
    and inv :: "'m \<Rightarrow> bool"
  assumes inv_empty: "inv empty"
    and inv_insert: "inv m \<Longrightarrow> inv (insert k v m)"
    and floor_Some: "inv m \<Longrightarrow> floor m k = Some (j, v) \<longleftrightarrow>
          lookup m j = Some v \<and> j \<le> k \<and> (\<forall>i w. lookup m i = Some w \<and> i \<le> k \<longrightarrow> i \<le> j)"
begin

lemma floor_sound: "inv m \<Longrightarrow> floor m k = Some (j, v) \<Longrightarrow> lookup m j = Some v \<and> j \<le> k"
  by (simp add: floor_Some)

lemma floor_greatest:
  "inv m \<Longrightarrow> floor m k = Some (j, v) \<Longrightarrow> lookup m i = Some w \<Longrightarrow> i \<le> k \<Longrightarrow> i \<le> j"
  by (auto simp: floor_Some)

lemma floor_exact: "inv m \<Longrightarrow> lookup m k = Some v \<Longrightarrow> floor m k = Some (k, v)"
  by (simp add: floor_Some)

end

section \<open>Association lists as maps\<close>

definition hm_insert :: "'k \<Rightarrow> 'v \<Rightarrow> ('k \<times> 'v) list \<Rightarrow> ('k \<times> 'v) list" where
  "hm_insert k v m = AList.update k v m"

interpretation hm: hash_map "[]" hm_insert map_of
  by unfold_locales (auto simp: hm_insert_def update_conv')

fun bt_insert :: "'k::linorder \<Rightarrow> 'v \<Rightarrow> ('k \<times> 'v) list \<Rightarrow> ('k \<times> 'v) list" where
  "bt_insert k v [] = [(k, v)]"
| "bt_insert k v ((j, w) # m) =
     (if k < j then (k, v) # (j, w) # m
      else if k = j then (k, v) # m
      else (j, w) # bt_insert k v m)"

text \<open>\<open>range(..=k).next_back()\<close>\<close>

definition bt_floor :: "('k::linorder \<times> 'v) list \<Rightarrow> 'k \<Rightarrow> ('k \<times> 'v) option" where
  "bt_floor m k =
     (case filter (\<lambda>e. fst e \<le> k) m of [] \<Rightarrow> None | r \<Rightarrow> Some (last r))"

definition bt_ok :: "('k::linorder \<times> 'v) list \<Rightarrow> bool" where
  "bt_ok m = sorted_wrt (<) (map fst m)"

lemma bt_ok_Nil [simp]: "bt_ok []"
  by (simp add: bt_ok_def)

lemma bt_keys_insert: "fst ` set (bt_insert k v m) = insert k (fst ` set m)"
  by (induction k v m rule: bt_insert.induct) auto

lemma bt_ok_insert: "bt_ok m \<Longrightarrow> bt_ok (bt_insert k v m)"
proof (induction k v m rule: bt_insert.induct)
  case (1 k v)
  then show ?case by (simp add: bt_ok_def)
next
  case (2 k v j w m)
  have "\<And>x. x \<in> fst ` set (bt_insert k v m) \<Longrightarrow> x = k \<or> x \<in> fst ` set m"
    by (auto simp: bt_keys_insert)
  with 2 show ?case by (auto simp: bt_ok_def bt_keys_insert)
qed

lemma bt_lookup_insert:
  "map_of (bt_insert k v m) j = (if j = k then Some v else map_of m j)"
  by (induction k v m rule: bt_insert.induct) auto

lemma bt_lookup_iff: "bt_ok m \<Longrightarrow> map_of m k = Some v \<longleftrightarrow> (k, v) \<in> set m"
  by (simp add: bt_ok_def strict_sorted_iff map_of_eq_Some_iff)

lemma sorted_last_max:
  "sorted_wrt (<) (map fst r) \<Longrightarrow> x \<in> set r \<Longrightarrow> fst x \<le> (fst (last r) :: 'k::linorder)"
  by (induction r) (auto simp: less_imp_le)

lemma bt_floor_max:
  assumes "bt_ok m" and "bt_floor m k = Some e"
  shows "e \<in> set m" and "fst e \<le> k" and "\<And>x. x \<in> set m \<Longrightarrow> fst x \<le> k \<Longrightarrow> fst x \<le> fst e"
proof -
  let ?r = "filter (\<lambda>e. fst e \<le> k) m"
  have r: "?r \<noteq> []" and e: "e = last ?r"
    using assms(2) by (auto simp: bt_floor_def split: list.splits)
  have sorted: "sorted_wrt (<) (map fst ?r)"
    using assms(1) by (simp add: bt_ok_def sorted_wrt_map sorted_wrt_filter)
  from last_in_set [OF r] e show "e \<in> set m" and "fst e \<le> k" by auto
  fix x assume "x \<in> set m" and "fst x \<le> k"
  then have "x \<in> set ?r" by simp
  from sorted_last_max [OF sorted this] e show "fst x \<le> fst e" by simp
qed

lemma bt_floor_exists: "(j, v) \<in> set m \<Longrightarrow> j \<le> k \<Longrightarrow> \<exists>e. bt_floor m k = Some e"
  by (cases "filter (\<lambda>e. fst e \<le> k) m") (auto simp: bt_floor_def filter_empty_conv)

lemma bt_floor_Some:
  assumes "bt_ok m"
  shows "bt_floor m k = Some (j, v) \<longleftrightarrow>
     map_of m j = Some v \<and> j \<le> k \<and> (\<forall>i w. map_of m i = Some w \<and> i \<le> k \<longrightarrow> i \<le> j)"
    (is "?L \<longleftrightarrow> ?R")
proof
  assume ?L
  from bt_floor_max [OF assms this] show ?R
    by (auto simp: bt_lookup_iff [OF assms])
next
  assume R: ?R
  then obtain e where e: "bt_floor m k = Some e"
    using bt_floor_exists bt_lookup_iff [OF assms] by metis
  note m = bt_floor_max [OF assms e]
  have "fst e = j"
    using R m bt_lookup_iff [OF assms, of "fst e" "snd e"] bt_lookup_iff [OF assms, of j v]
    by (metis antisym fst_conv prod.collapse)
  moreover have "map_of m (fst e) = Some (snd e)"
    using m(1) bt_lookup_iff [OF assms] by simp
  ultimately have "e = (j, v)" using R by (cases e) simp
  with e show ?L by simp
qed

interpretation bt: ordered_map "[]" bt_insert map_of bt_floor bt_ok
  by unfold_locales (simp_all add: bt_lookup_insert bt_ok_insert bt_floor_Some bt_ok_Nil)

end
