(* ===== verification/Device.thy ===== *)
theory Device
  imports Effects
begin

text \<open>
  Read-only access to an image file or a raw device (src/dev.rs).  What the operating system
  (or the helper service) answers to one positioned read is a parameter: a \<open>reader\<close> takes
  the number of calls this \<open>Device::read\<close> has made so far, an offset and the bytes wanted,
  and returns the bytes it put in the buffer or an error, so it may read short, be
  interrupted, or answer differently on a retry.
\<close>

definition ALIGN :: u64 where [simp]: "ALIGN = 4096"
definition MAX_IO :: nat where [simp]: "MAX_IO = 4194304"

type_synonym reader = "nat \<Rightarrow> u64 \<Rightarrow> nat \<Rightarrow> io_error + bytes"

datatype backing = File reader | Helper reader

record device =
  dev_backing :: backing
  dev_path :: string
  dev_retries :: nat   \<comment> \<open>how often one \<open>read\<close> can be interrupted\<close>

fun backing_read_at :: "backing \<Rightarrow> reader" where
  "backing_read_at (File f) k off want = f k off want"
| "backing_read_at (Helper h) k off want = h k off want"

text \<open>
  \<open>Device::open\<close>: \<open>file_open\<close> is the operating system's \<open>File::open\<close>, and \<open>remote_open\<close>
  asks the helper, which only a Windows build does, and only after an access-denied.
\<close>

definition device_open ::
  "bool \<Rightarrow> nat \<Rightarrow> (string \<Rightarrow> io_error + reader) \<Rightarrow> (string \<Rightarrow> io_error + reader option)
     \<Rightarrow> string \<Rightarrow> io_error + device" where
  "device_open windows retries file_open remote_open path =
     rbind
       (case file_open path of
          Inr f \<Rightarrow> Inr (File f)
        | Inl e \<Rightarrow>
            if windows \<and> io_kind e = IoPermissionDenied then
              rbind (remote_open path) (\<lambda>r. case r of Some h \<Rightarrow> Inr (Helper h) | None \<Rightarrow> Inl e)
            else Inl e)
       (\<lambda>b. Inr \<lparr>dev_backing = b, dev_path = path, dev_retries = retries\<rparr>)"

text \<open>
  The loop of \<open>Device::read\<close>: \<open>got\<close> holds the \<open>done\<close> bytes read so far.  Each call spends a
  unit of fuel and \<open>None\<close> is running out of it, which \<open>read_loop_serves\<close> rules out.
\<close>

fun read_loop :: "nat \<Rightarrow> reader \<Rightarrow> u64 \<Rightarrow> nat \<Rightarrow> nat \<Rightarrow> bytes \<Rightarrow> (io_error + bytes) option" where
  "read_loop fuel rd start nbuf k got =
     (if length got < nbuf then
        (case fuel of
           0 \<Rightarrow> None
         | Suc fuel' \<Rightarrow>
             (let want = min (nbuf - length got) MAX_IO in
              case rd k (start + word_of_nat (length got)) want of
                Inr [] \<Rightarrow> Some (Inr got)
              | Inr (x # xs) \<Rightarrow> read_loop fuel' rd start nbuf (Suc k) (got @ x # xs)
              | Inl e \<Rightarrow>
                  if io_kind e = IoInterrupted then read_loop fuel' rd start nbuf (Suc k) got
                  else Some (Inl e)))
      else Some (Inr got))"

declare read_loop.simps [simp del]

definition ran_past_end :: "string \<Rightarrow> io_error" where
  "ran_past_end path = IoError IoUnexpectedEof path"

definition never_returns :: io_error where
  "never_returns = IoError IoInterrupted []"

definition device_read :: "device \<Rightarrow> u64 \<Rightarrow> nat \<Rightarrow> io_error + bytes" where
  "device_read d off len =
     (let start = off - off mod ALIGN;
          end' = div_ceil (off + word_of_nat len) ALIGN * ALIGN;
          nbuf = unat (end' - start);
          skip = unat (off - start) in
      case read_loop (nbuf + dev_retries d) (backing_read_at (dev_backing d)) start nbuf 0 [] of
        None \<Rightarrow> Inl never_returns
      | Some (Inl e) \<Rightarrow> Inl e
      | Some (Inr got) \<Rightarrow>
          let buf = got @ replicate (nbuf - length got) 0 in
          if length got < skip + len then Inl (ran_past_end (dev_path d))
          else Inr (drop skip (take (skip + len) buf)))"

section \<open>A reader of fixed contents\<close>

text \<open>The contract the file system relies on: reads return the contents of the range.\<close>

locale block_reader =
  fixes srv :: "'d \<Rightarrow> bytes \<Rightarrow> bool"
    and read :: "'d \<Rightarrow> u64 \<Rightarrow> nat \<Rightarrow> io_error + bytes"
  assumes small: "srv d img \<Longrightarrow> length img + 8192 < 2 ^ 64"
    and read_in: "srv d img \<Longrightarrow> 0 < len \<Longrightarrow> unat off + len \<le> length img \<Longrightarrow>
          read d off len = Inr (take len (drop (unat off) img))"
    and read_past: "srv d img \<Longrightarrow> 0 < len \<Longrightarrow> length img < unat off + len \<Longrightarrow>
          unat off + len + 8192 < 2 ^ 64 \<Longrightarrow> \<not> is_ok (read d off len)"
begin

lemma read_length:
  "srv d img \<Longrightarrow> 0 < len \<Longrightarrow> unat off + len \<le> length img \<Longrightarrow> read d off len = Inr b \<Longrightarrow>
     length b = len"
  by (auto simp: read_in)

lemma read_ok_iff:
  "srv d img \<Longrightarrow> 0 < len \<Longrightarrow> unat off + len + 8192 < 2 ^ 64 \<Longrightarrow>
     is_ok (read d off len) \<longleftrightarrow> unat off + len \<le> length img"
  using read_in read_past by (metis is_ok_simps(1) not_le)

text \<open>The contents a device serves are determined by its reads.\<close>

lemma content_unique:
  assumes "srv d img" and "srv d img'" and "length img = length img'"
  shows "img = img'"
proof (cases "img = []")
  case True
  with assms(3) show ?thesis by simp
next
  case False
  then have nonempty: "img' \<noteq> []" using assms(3) by (metis length_0_conv)
  from False have "read d 0 (length img) = Inr img"
    using read_in [OF assms(1), of "length img" 0] by simp
  moreover have "read d 0 (length img) = Inr img'"
    using nonempty read_in [OF assms(2), of "length img'" 0] assms(3) by simp
  ultimately show ?thesis by simp
qed

text \<open>A read may be split anywhere.\<close>

lemma read_split:
  assumes "srv d img" and "0 < m" and "0 < n" and "unat off + m + n \<le> length img"
  shows "rbind (read d off m) (\<lambda>a. rbind (read d (off + word_of_nat m) n) (\<lambda>b. Inr (a @ b)))
     = read d off (m + n)"
proof -
  have "unat (word_of_nat m :: u64) = m"
    using assms small [OF assms(1)] by (intro unat_of_nat_u64) simp
  then have "unat (off + word_of_nat m) = unat off + m"
    using assms small [OF assms(1)] by (subst unat_plus_nowrap) simp_all
  then show ?thesis
    using assms by (simp add: read_in take_add add.commute add.left_commute)
qed

end

text \<open>
  A device that serves fixed contents: each call returns a non-empty prefix of what is wanted
  unless it is at the end, and at most \<open>dev_retries\<close> calls of one read are interrupted.
\<close>

definition serves :: "device \<Rightarrow> bytes \<Rightarrow> bool" where
  "serves d img \<longleftrightarrow>
     length img + 8192 < 2 ^ 64 \<and>
     (\<exists>K. finite K \<and> card K \<le> dev_retries d \<and>
       (\<forall>k off want. 0 < want \<longrightarrow>
          (case backing_read_at (dev_backing d) k off want of
             Inl e \<Rightarrow> k \<in> K \<and> io_kind e = IoInterrupted
           | Inr xs \<Rightarrow> length xs \<le> want \<and> xs = take (length xs) (drop (unat off) img) \<and>
               (xs = [] \<longrightarrow> length img \<le> unat off))))"

lemma prefix_extend:
  assumes "got = take (length got) xs" and "ys = take (length ys) (drop (length got) xs)"
  shows "got @ ys = take (length (got @ ys)) xs"
  using assms by (metis length_append take_add)

lemma read_loop_serves:
  fixes start :: u64
  assumes rd: "\<And>k off want. 0 < want \<Longrightarrow>
      (case rd k off want of
         Inl e \<Rightarrow> k \<in> K \<and> io_kind e = IoInterrupted
       | Inr xs \<Rightarrow> length xs \<le> want \<and> xs = take (length xs) (drop (unat off) img) \<and>
           (xs = [] \<longrightarrow> length img \<le> unat off))"
    and K: "finite K"
    and mem: "unat start + nbuf < 2 ^ 64"
    and got: "got = take (length got) (drop (unat start) img)" "length got \<le> nbuf"
    and fuel: "nbuf - length got + card {j \<in> K. k \<le> j} \<le> fuel"
  shows "read_loop fuel rd start nbuf k got = Some (Inr (take nbuf (drop (unat start) img)))"
  using got fuel
proof (induction fuel arbitrary: k got)
  case 0
  then have "length got = nbuf" by simp
  with 0 show ?case by (simp add: read_loop.simps)
next
  case (Suc fuel)
  show ?case
  proof (cases "length got < nbuf")
    case False
    with Suc.prems show ?thesis by (simp add: read_loop.simps)
  next
    case True
    let ?off = "start + word_of_nat (length got)"
    let ?want = "min (nbuf - length got) MAX_IO"
    have "unat (word_of_nat (length got) :: u64) = length got"
      using True mem by (intro unat_of_nat_u64) simp
    with True mem have off: "unat ?off = unat start + length got"
      by (subst unat_plus_nowrap) simp_all
    have want: "0 < ?want" using True by simp
    note call = rd [OF want, of k ?off]
    show ?thesis
    proof (cases "rd k ?off ?want")
      case (Inl e)
      with call have e: "k \<in> K" "io_kind e = IoInterrupted" by auto
      have "{j \<in> K. k \<le> j} = insert k {j \<in> K. Suc k \<le> j}" using e(1) by auto
      then have "card {j \<in> K. k \<le> j} = Suc (card {j \<in> K. Suc k \<le> j})" using K by simp
      then have "read_loop fuel rd start nbuf (Suc k) got
          = Some (Inr (take nbuf (drop (unat start) img)))"
        using Suc.prems by (intro Suc.IH) simp_all
      with True Inl e show ?thesis by (simp add: read_loop.simps [of "Suc fuel"] Let_def)
    next
      case (Inr xs)
      with call off have xs: "length xs \<le> ?want"
          "xs = take (length xs) (drop (length got) (drop (unat start) img))"
          "xs = [] \<Longrightarrow> length img \<le> unat start + length got"
        by (auto simp: add.commute)
      show ?thesis
      proof (cases xs)
        case Nil
        with xs(3) have "length (drop (unat start) img) \<le> length got" by simp
        with Suc.prems(1) have "got = drop (unat start) img" by simp
        with Nil Inr True Suc.prems show ?thesis
          by (simp add: read_loop.simps [of "Suc fuel"] Let_def)
      next
        case (Cons y ys)
        have "card {j \<in> K. Suc k \<le> j} \<le> card {j \<in> K. k \<le> j}"
          using K by (intro card_mono) auto
        moreover have "0 < length xs" using Cons by simp
        moreover have lens: "length (got @ xs) \<le> nbuf" "length (got @ xs) = length got + length xs"
          using xs(1) Suc.prems(2) by auto
        ultimately have "nbuf - length (got @ xs) + card {j \<in> K. Suc k \<le> j} \<le> fuel"
          using Suc.prems(3) True by linarith
        then have "read_loop fuel rd start nbuf (Suc k) (got @ xs)
            = Some (Inr (take nbuf (drop (unat start) img)))"
          by (rule Suc.IH [OF prefix_extend [OF Suc.prems(1) xs(2)] lens(1)])
        with Cons Inr True show ?thesis
          by (simp add: read_loop.simps [of "Suc fuel"] Let_def)
      qed
    qed
  qed
qed

text \<open>The window a read is widened to: aligned, and around the bytes asked for.\<close>

lemma window:
  fixes off :: u64
  assumes fit: "unat off + len + 8192 < 2 ^ 64"
  defines "start \<equiv> off - off mod ALIGN"
  defines "nbuf \<equiv> unat (div_ceil (off + word_of_nat len) ALIGN * ALIGN - start)"
  shows "unat start \<le> unat off" and "unat (off - start) = unat off - unat start"
    and "unat off + len \<le> unat start + nbuf" and "unat start + nbuf < 2 ^ 64"
    and "unat start mod 4096 = 0"
proof -
  have m: "unat (off mod ALIGN) = unat off mod 4096" by (simp add: unat_mod)
  have le: "off mod ALIGN \<le> off" unfolding word_le_nat_alt m by simp
  then have s: "unat start = unat off - unat off mod 4096"
    by (simp only: start_def unat_minus_le [OF le] m)
  then show "unat start \<le> unat off" by simp
  then have "start \<le> off" by (simp add: word_le_nat_alt)
  then show "unat (off - start) = unat off - unat start" by (rule unat_minus_le)
  show "unat start mod 4096 = 0" by (simp add: s minus_mod_eq_mult_div)
  let ?e = "unat off + len"
  have sum: "unat (off + word_of_nat len) = ?e"
    using fit by (simp add: unat_plus_nowrap unat_of_nat_u64)
  define c where "c = (if ?e mod 4096 = 0 then ?e div 4096 else ?e div 4096 + 1)"
  define q where "q = ?e div 4096"
  define r where "r = ?e mod 4096"
  have qr: "?e = q * 4096 + r" "r < 4096" by (simp_all add: q_def r_def)
  have "c = (if r = 0 then q else q + 1)" by (simp add: c_def q_def r_def)
  with qr have c: "?e \<le> c * 4096" "c * 4096 < ?e + 4096"
    by (simp_all split: if_splits)
  have d: "unat (div_ceil (off + word_of_nat len) ALIGN) = c"
  proof (cases "?e mod 4096 = 0")
    case True
    then have "(off + word_of_nat len) mod ALIGN = 0"
      by (simp add: word_unat_eq_iff unat_mod sum)
    with True show ?thesis by (simp add: div_ceil_def c_def unat_div sum)
  next
    case False
    then have "(off + word_of_nat len) mod ALIGN \<noteq> 0"
      by (simp add: word_unat_eq_iff unat_mod sum)
    moreover have "unat ((off + word_of_nat len) div 4096) + 1 < 2 ^ 64"
      using fit by (simp add: unat_div sum)
    ultimately show ?thesis using False
      by (simp add: div_ceil_def c_def unat_plus_nowrap unat_div sum)
  qed
  have e': "unat (div_ceil (off + word_of_nat len) ALIGN * ALIGN) = c * 4096"
    using c fit d by (subst unat_mult_lem [THEN iffD1]) simp_all
  have "start \<le> div_ceil (off + word_of_nat len) ALIGN * ALIGN"
    using c s e' by (simp add: word_le_nat_alt)
  then have t: "nbuf = c * 4096 - unat start"
    unfolding nbuf_def by (simp add: unat_minus_le e' del: ALIGN_def)
  show "unat off + len \<le> unat start + nbuf" "unat start + nbuf < 2 ^ 64"
    using t c s fit by simp_all
qed

lemma device_read_serves:
  assumes serves: "serves d img" and fit: "unat off + len + 8192 < 2 ^ 64" and len: "0 < len"
  shows "device_read d off len =
     (if unat off + len \<le> length img then Inr (take len (drop (unat off) img))
      else Inl (ran_past_end (dev_path d)))"
proof -
  define start where "start = off - off mod ALIGN"
  define nbuf where "nbuf = unat (div_ceil (off + word_of_nat len) ALIGN * ALIGN - start)"
  note w = window [OF fit, folded start_def, folded nbuf_def]
  from serves obtain K where K: "finite K" "card K \<le> dev_retries d"
    and rd: "\<And>k off want. 0 < want \<Longrightarrow>
      (case backing_read_at (dev_backing d) k off want of
         Inl e \<Rightarrow> k \<in> K \<and> io_kind e = IoInterrupted
       | Inr xs \<Rightarrow> length xs \<le> want \<and> xs = take (length xs) (drop (unat off) img) \<and>
           (xs = [] \<longrightarrow> length img \<le> unat off))"
    unfolding serves_def by blast
  have loop: "read_loop (nbuf + dev_retries d) (backing_read_at (dev_backing d)) start nbuf 0 []
      = Some (Inr (take nbuf (drop (unat start) img)))"
    by (rule read_loop_serves [OF rd K(1) w(4)]) (use K(2) in simp_all)
  let ?got = "take nbuf (drop (unat start) img)"
  let ?skip = "unat off - unat start"
  have skip: "?skip + len \<le> nbuf" using w by linarith
  have short: "length ?got < ?skip + len \<longleftrightarrow> length img < unat off + len"
    using w(1) skip len by auto
  have whole: "drop ?skip (take (?skip + len) (?got @ replicate (nbuf - length ?got) 0))
      = take len (drop (unat off) img)" if "unat off + len \<le> length img"
  proof -
    have "take (?skip + len) (?got @ replicate (nbuf - length ?got) 0)
        = take (?skip + len) (drop (unat start) img)"
      using that w(1) skip by (simp add: min_absorb1)
    then show ?thesis using w(1) by (simp add: drop_take)
  qed
  have "device_read d off len =
     (if length ?got < ?skip + len then Inl (ran_past_end (dev_path d))
      else Inr (drop ?skip (take (?skip + len) (?got @ replicate (nbuf - length ?got) 0))))"
    by (simp only: device_read_def Let_def start_def [symmetric] nbuf_def [symmetric]
        w(2) loop option.case sum.case)
  also have "\<dots> = (if unat off + len \<le> length img then Inr (take len (drop (unat off) img))
      else Inl (ran_past_end (dev_path d)))"
    using whole short by (cases "unat off + len \<le> length img") (simp_all only: if_True if_False not_le, simp_all)
  finally show ?thesis .
qed

interpretation dev: block_reader serves device_read
proof unfold_locales
  fix d img assume "serves d img"
  then show "length img + 8192 < 2 ^ 64" by (simp add: serves_def)
next
  fix d img len and off :: u64
  assume a: "serves d img" "0 < len" "unat off + len \<le> length img"
  then have "length img + 8192 < 2 ^ 64" by (simp add: serves_def)
  with a show "device_read d off len = Inr (take len (drop (unat off) img))"
    by (subst device_read_serves [OF a(1) _ a(2)]) simp_all
next
  fix d img len and off :: u64
  assume a: "serves d img" "0 < len" "length img < unat off + len"
    "unat off + len + 8192 < 2 ^ 64"
  then show "\<not> is_ok (device_read d off len)"
    by (simp add: device_read_serves)
qed

text \<open>
  C14: Device::read.  Whatever the short reads and interruptions of the underlying calls, a
  read of a device that serves fixed contents returns exactly the bytes of the range, and
  fails with UnexpectedEof exactly when the range runs past the end.
\<close>

theorem device_read_exact:
  assumes "serves d img" and "0 < len" and "unat off + len + 8192 < 2 ^ 64"
  shows "device_read d off len =
     (if unat off + len \<le> length img then Inr (take len (drop (unat off) img))
      else Inl (IoError IoUnexpectedEof (dev_path d)))"
  using device_read_serves [OF assms(1,3,2)] by (simp add: ran_past_end_def)

text \<open>A device of ten bytes that reads at most three at a time and interrupts the second call.\<close>

definition sample_image :: bytes where
  "sample_image = [10, 11, 12, 13, 14, 15, 16, 17, 18, 19]"

definition sample_device :: device where
  "sample_device =
     \<lparr>dev_backing = File (\<lambda>k off want.
        if k = 1 then Inl (IoError IoInterrupted [])
        else Inr (take (min want 3) (drop (unat off) sample_image))),
      dev_path = ''img'', dev_retries = 1\<rparr>"

lemma take_own_length: "take n xs = take (length (take n xs)) xs"
  by (simp add: min_def)

lemma sample_device_serves: "serves sample_device sample_image"
  unfolding serves_def
proof (intro conjI exI [of _ "{1}"] allI impI)
  fix k :: nat and off :: u64 and want :: nat
  assume "0 < want"
  then show "case backing_read_at (dev_backing sample_device) k off want of
      Inl e \<Rightarrow> k \<in> {1} \<and> io_kind e = IoInterrupted
    | Inr xs \<Rightarrow> length xs \<le> want \<and> xs = take (length xs) (drop (unat off) sample_image) \<and>
        (xs = [] \<longrightarrow> length sample_image \<le> unat off)"
    using take_own_length [of "min want 3" "drop (unat off) sample_image"]
    by (cases "k = 1") (auto simp: sample_device_def)
qed (simp_all add: sample_device_def sample_image_def)

text \<open>A device that reads an image whole, the one the later witnesses read from.\<close>

definition image_device :: "bytes \<Rightarrow> device" where
  "image_device img =
     \<lparr>dev_backing = File (\<lambda>k off want. Inr (take want (drop (unat off) img))),
      dev_path = ''img'', dev_retries = 0\<rparr>"

lemma image_device_serves: "length img + 8192 < 2 ^ 64 \<Longrightarrow> serves (image_device img) img"
  unfolding serves_def
  by (intro conjI exI [of _ "{}"] allI impI)
    (auto simp: image_device_def min_def)

theorem device_read_exact_witness:
  "device_read sample_device 4 5 = Inr [14, 15, 16, 17, 18]
   \<and> device_read sample_device 4 7 = Inl (IoError IoUnexpectedEof ''img'')"
  using device_read_exact [OF sample_device_serves, of 5 4]
    device_read_exact [OF sample_device_serves, of 7 4]
  by (simp add: sample_device_def sample_image_def)

end
