(* ===== verification/Decompress.thy ===== *)
theory Decompress
  imports Effects
begin

text \<open>
  The three compression formats (src/decompress.rs).  The decoders themselves are crates
  (flate2, ruzstd, lzokay-native) and so are a parameter: \<open>codecs\<close> gives, for a compressed
  input, what the decoder delivers.  A streaming decoder delivers bytes and then ends or
  fails; the LZO decoder takes one segment and returns its plaintext, an error, or panics.
  Everything around them is modelled: how much is read from a stream, what a declared size
  may be, the frame btrfs puts around LZO segments, and how a decoded extent is settled up
  with its declared size.
\<close>

datatype lzo_result = LzoPanic | LzoErr string | LzoOk bytes

text \<open>What a streaming decoder delivers: its bytes, then the error it fails with, if any.\<close>

type_synonym decoded = "bytes \<times> io_error option"

record codecs =
  zlib :: "bytes \<Rightarrow> decoded"
  zstd :: "bytes \<Rightarrow> io_error + decoded"
  lzo1x :: "bytes \<Rightarrow> nat \<Rightarrow> lzo_result"

definition MAX_RAM_BYTES :: nat where [simp]: "MAX_RAM_BYTES = 1073741824"

record dsize =
  ram_bytes :: nat
  most :: nat
  sectorsize :: nat

text \<open>\<open>reader.take(n).read_to_end(..)\<close>: an error past the \<open>n\<close> bytes is never reached.\<close>

definition take_read_to_end :: "nat \<Rightarrow> decoded \<Rightarrow> io_error + bytes" where
  "take_read_to_end n d =
     (if n \<le> length (fst d) then Inr (take n (fst d))
      else (case snd d of None \<Rightarrow> Inr (fst d) | Some e \<Rightarrow> Inl e))"

definition finish :: "bytes \<Rightarrow> dsize \<Rightarrow> string \<Rightarrow> err + bytes" where
  "finish out sz what =
     (if most sz < length out then
        Inl (Codec (DecodesTooMuch what (ram_bytes sz) (ram_bytes sz < most sz)
                     (sectorsize sz)))
      else
        (let out = take (ram_bytes sz) out;
             short_by = ram_bytes sz - length out in
         if sectorsize sz \<le> short_by then
           Inl (Codec (DecodesShort what (length out) (ram_bytes sz) short_by
                        (sectorsize sz)))
         else Inr (resize out (ram_bytes sz))))"

definition stream :: "decoded \<Rightarrow> bytes \<Rightarrow> dsize \<Rightarrow> string \<Rightarrow> err + bytes" where
  "stream reader src sz what =
     (case take_read_to_end (most sz + 1) reader of
        Inl e \<Rightarrow> Inl (Codec (StreamError what (length src) e))
      | Inr out \<Rightarrow> finish out sz what)"

section \<open>The LZO frame\<close>

definition le32 :: "bytes \<Rightarrow> nat \<Rightarrow> err + nat" where
  "le32 src off =
     (case get_range src off (off + 4) of
        Some b \<Rightarrow> Inr (unat (from_le_bytes b :: u32))
      | None \<Rightarrow> Inl (Codec (LzoTruncatedHeader off)))"

text \<open>A segment header never straddles a sector boundary.\<close>

definition lzo_align :: "nat \<Rightarrow> nat \<Rightarrow> nat" where
  "lzo_align sector pos =
     (let left_in_sector = sector - pos mod sector in
      if left_in_sector < 4 then pos + left_in_sector else pos)"

function lzo_loop ::
  "codecs \<Rightarrow> bytes \<Rightarrow> nat \<Rightarrow> dsize \<Rightarrow> nat \<Rightarrow> bytes \<Rightarrow> err + bytes" where
  "lzo_loop c src frame sz pos out =
     (if pos < frame \<and> length out < ram_bytes sz then
        (let hd = lzo_align (sectorsize sz) pos in
         if frame \<le> hd then Inr out else
         rbind (le32 src hd) (\<lambda>seg_len.
         let at = hd + 4 in
         if seg_len = 0 \<or> frame < at + seg_len then Inl (Codec (LzoSegmentOverrun seg_len at))
         else
           (case lzo1x c (take seg_len (drop at src)) (sectorsize sz) of
              LzoPanic \<Rightarrow> Inl (Codec (LzoMalformed at))
            | LzoErr e \<Rightarrow> Inl (Codec (LzoError at e))
            | LzoOk plain \<Rightarrow>
                if sectorsize sz < length plain then
                  Inl (Codec (LzoPastSector at (length plain) (sectorsize sz)))
                else lzo_loop c src frame sz (at + seg_len) (out @ plain))))
      else Inr out)"
  by pat_completeness auto
termination
  by (relation "measure (\<lambda>(c, src, frame, sz, pos, out). frame - pos)")
    (auto simp: lzo_align_def Let_def split: if_splits)

declare lzo_loop.simps [simp del]

definition lzo :: "codecs \<Rightarrow> bytes \<Rightarrow> dsize \<Rightarrow> err + bytes" where
  "lzo c src sz =
     rbind (le32 src 0) (\<lambda>frame.
     if frame < 4 \<or> length src < frame then Inl (Codec (LzoFrameLength frame (length src)))
     else rbind (lzo_loop c src frame sz 4 []) (\<lambda>out. finish out sz ''lzo''))"

section \<open>Decoding an extent\<close>

definition decode :: "codecs \<Rightarrow> u8 \<Rightarrow> bytes \<Rightarrow> nat \<Rightarrow> nat \<Rightarrow> bool \<Rightarrow> err + bytes" where
  "decode c algo src ram sector inline =
     (if MAX_RAM_BYTES < ram then Inl (Codec (RamBytesTooBig ram))
      else if sector = 0 then Inl (Codec SectorsizeZero)
      else
        (let sz = \<lparr>ram_bytes = ram,
                     most = (if inline then next_multiple_of ram sector else ram),
                     sectorsize = sector\<rparr> in
         if algo = 1 then stream (zlib c src) src sz ''zlib''
         else if algo = 2 then lzo c src sz
         else if algo = 3 then
           (case zstd c src of
              Inl e \<Rightarrow> Inl (Codec (ZstdHeader e))
            | Inr dec \<Rightarrow> stream dec src sz ''zstd'')
         else Inl (Codec (UnknownCompression algo))))"

definition decompress :: "codecs \<Rightarrow> u8 \<Rightarrow> bytes \<Rightarrow> nat \<Rightarrow> nat \<Rightarrow> err + bytes" where
  "decompress c algo src ram sector = decode c algo src ram sector False"

definition decompress_inline :: "codecs \<Rightarrow> u8 \<Rightarrow> bytes \<Rightarrow> nat \<Rightarrow> nat \<Rightarrow> err + bytes" where
  "decompress_inline c algo src ram sector = decode c algo src ram sector True"

section \<open>Lemmas\<close>

lemma finish_Inr_iff:
  "finish out sz what = Inr r \<longleftrightarrow>
     length out \<le> most sz \<and>
     ram_bytes sz - min (length out) (ram_bytes sz) < sectorsize sz \<and>
     r = resize (take (ram_bytes sz) out) (ram_bytes sz)"
  by (auto simp: finish_def Let_def)

lemma finish_length: "finish out sz what = Inr r \<Longrightarrow> length r = ram_bytes sz"
  by (simp add: finish_Inr_iff)

lemma stream_length: "stream rd src sz what = Inr r \<Longrightarrow> length r = ram_bytes sz"
  by (auto simp: stream_def finish_length split: sum.splits)

lemma lzo_length: "lzo c src sz = Inr r \<Longrightarrow> length r = ram_bytes sz"
  by (auto simp: lzo_def rbind_Inr_iff finish_length split: if_splits)

lemma decode_length:
  "decode c algo src ram sector inline = Inr r \<Longrightarrow> length r = ram \<and> ram \<le> MAX_RAM_BYTES"
  by (auto simp: decode_def Let_def split: if_splits sum.splits
      dest!: stream_length lzo_length)

text \<open>Every segment handed to the decoder, and every slice taken, is inside the frame.\<close>

lemma lzo_align_ge: "pos \<le> lzo_align sector pos"
  by (simp add: lzo_align_def Let_def)

lemma le32_mid:
  assumes "length pre = off" and "n < 2 ^ 32"
  shows "le32 (pre @ to_le 4 n @ post) off = Inr n"
proof -
  have "unat (word_of_nat n :: u32) = n"
    using assms(2) by (simp add: unat_of_nat take_bit_nat_eq_self)
  then have "to_le 4 n = to_le_bytes (word_of_nat n :: u32)" by (simp add: to_le_bytes_def)
  moreover have "unat (word_of_nat n :: u32) = n" by fact
  ultimately show ?thesis
    using assms(1) by (simp add: le32_def get_range_def le32.dec_enc)
qed

text \<open>
  The frame btrfs writes: each segment's length and data, after padding to the next sector
  where fewer than four bytes are left in the current one.
\<close>

fun lzo_segments :: "nat \<Rightarrow> nat \<Rightarrow> bytes list \<Rightarrow> bytes" where
  "lzo_segments sector pos [] = []"
| "lzo_segments sector pos (d # ds) =
     (let hd = lzo_align sector pos in
      replicate (hd - pos) 0 @ to_le 4 (length d) @ d
      @ lzo_segments sector (hd + 4 + length d) ds)"

definition lzo_frame :: "nat \<Rightarrow> bytes list \<Rightarrow> bytes" where
  "lzo_frame sector ds =
     to_le 4 (4 + length (lzo_segments sector 4 ds)) @ lzo_segments sector 4 ds"

text \<open>Segments that decode, in order, to the given plaintexts of at most a sector each.\<close>

definition segments_ok :: "codecs \<Rightarrow> nat \<Rightarrow> bytes list \<Rightarrow> bytes list \<Rightarrow> bool" where
  "segments_ok c sector ds ps \<longleftrightarrow>
     list_all2 (\<lambda>d p. d \<noteq> [] \<and> length d < 2 ^ 32 \<and> lzo1x c d sector = LzoOk p \<and>
       length p \<le> sector) ds ps"

lemma lzo_loop_step:
  assumes "pos < frame" and "length out < ram_bytes sz"
    and "lzo_align (sectorsize sz) pos = h" and "h + 4 + n \<le> frame"
    and "le32 src h = Inr n" and "0 < n"
    and "lzo1x c (take n (drop (h + 4) src)) (sectorsize sz) = LzoOk p"
    and "length p \<le> sectorsize sz"
  shows "lzo_loop c src frame sz pos out = lzo_loop c src frame sz (h + 4 + n) (out @ p)"
  using assms by (subst lzo_loop.simps) (simp add: Let_def)

lemma lzo_loop_segments:
  assumes "segments_ok c (sectorsize sz) ds ps"
    and "ps \<noteq> [] \<Longrightarrow> length out + length (concat (butlast ps)) < ram_bytes sz"
  shows "lzo_loop c (pre @ lzo_segments (sectorsize sz) (length pre) ds @ post)
       (length pre + length (lzo_segments (sectorsize sz) (length pre) ds))
       sz (length pre) out = Inr (out @ concat ps)"
  using assms
proof (induction ds arbitrary: pre out ps)
  case Nil
  then have "ps = []" by (simp add: segments_ok_def)
  then show ?case by (simp add: lzo_loop.simps)
next
  case (Cons d ds)
  then obtain p ps' where ps: "ps = p # ps'" and d: "d \<noteq> []" "length d < 2 ^ 32"
      and p: "lzo1x c d (sectorsize sz) = LzoOk p" "length p \<le> sectorsize sz"
      and rest: "segments_ok c (sectorsize sz) ds ps'"
    by (auto simp: segments_ok_def list_all2_Cons1)
  let ?s = "sectorsize sz"
  let ?hd = "lzo_align ?s (length pre)"
  let ?pre = "pre @ replicate (?hd - length pre) 0"
  let ?pre' = "?pre @ to_le 4 (length d) @ d"
  let ?src = "pre @ lzo_segments ?s (length pre) (d # ds) @ post"
  let ?frame = "length pre + length (lzo_segments ?s (length pre) (d # ds))"
  have hd: "length ?pre = ?hd" "length ?pre' = ?hd + 4 + length d"
    using lzo_align_ge [of "length pre" ?s] by simp_all
  have src: "?src = ?pre' @ lzo_segments ?s (length ?pre') ds @ post"
    unfolding hd(2) by (simp add: Let_def)
  have frame: "?frame = length ?pre' + length (lzo_segments ?s (length ?pre') ds)"
    unfolding hd(2) using hd(1) by (simp add: Let_def)
  have room: "length out < ram_bytes sz"
    using Cons.prems(2) by (simp add: ps split: if_splits)
  have "lzo_loop c ?src ?frame sz (length pre) out
      = lzo_loop c ?src ?frame sz (?hd + 4 + length d) (out @ p)"
  proof (rule lzo_loop_step)
    show "le32 ?src ?hd = Inr (length d)"
      using le32_mid [OF hd(1) d(2), of "d @ lzo_segments ?s (length ?pre') ds @ post"]
      unfolding src by simp
    have "take (length d) (drop (?hd + 4) ?src) = d"
      using hd(1) unfolding src by simp
    with p(1) show "lzo1x c (take (length d) (drop (?hd + 4) ?src)) ?s = LzoOk p" by simp
    show "?hd + 4 + length d \<le> ?frame" "length pre < ?frame"
      using frame hd(2) lzo_align_ge [of "length pre" ?s] by linarith+
  qed (use room p d in simp_all)
  also have "\<dots> = lzo_loop c ?src ?frame sz (length ?pre') (out @ p)"
    by (simp only: hd(2))
  also have "\<dots> = Inr ((out @ p) @ concat ps')"
    unfolding src frame
    by (rule Cons.IH [OF rest]) (use Cons.prems(2) in \<open>simp add: ps add.assoc\<close>)
  finally show ?case by (simp add: ps)
qed

lemma stream_Inr_iff:
  "stream rd src sz what = Inr r \<longleftrightarrow>
     snd rd = None \<and> length (fst rd) \<le> most sz \<and>
     ram_bytes sz - min (length (fst rd)) (ram_bytes sz) < sectorsize sz \<and>
     r = resize (take (ram_bytes sz) (fst rd)) (ram_bytes sz)"
  by (auto simp: stream_def take_read_to_end_def finish_Inr_iff split: sum.splits option.splits)

lemma resize_take: "resize (take n b) n = take n b @ replicate (n - length b) 0"
  by (simp add: resize_def min_def)

section \<open>Properties\<close>

text \<open>
  A decoded extent always has exactly the size it declares, which is at most 1 GiB: no
  caller ever sees a short or an oversized buffer, whatever the decoders deliver.
\<close>

theorem decompress_exact_length:
  assumes "decompress c algo src ram sector = Inr r
    \<or> decompress_inline c algo src ram sector = Inr r"
  shows "length r = ram \<and> ram \<le> 1073741824"
  using assms by (auto simp: decompress_def decompress_inline_def dest!: decode_length)

text \<open>
  C8: A zlib or zstd extent is accepted exactly when its stream ends without an error, holds
  at most what it may (its declared size, or for an inline extent the end of that sector) and
  is short by less than one sector; it then yields the stream's bytes, cut to the declared
  size and padded with zeros up to it.  A failing stream, an overlong one and a larger
  shortfall are errors, never zeros.
\<close>

theorem decode_stream_iff:
  assumes "ram \<le> 1073741824" and "0 < sector"
    and "algo = 1 \<and> reader = zlib c src \<or> algo = 3 \<and> zstd c src = Inr reader"
  shows "decode c algo src ram sector inline = Inr r \<longleftrightarrow>
    snd reader = None
    \<and> length (fst reader) \<le> (if inline then next_multiple_of ram sector else ram)
    \<and> ram < length (fst reader) + sector
    \<and> r = take ram (fst reader) @ replicate (ram - length (fst reader)) 0"
proof -
  have "decode c algo src ram sector inline = Inr r \<longleftrightarrow>
      stream reader src \<lparr>ram_bytes = ram,
        most = (if inline then next_multiple_of ram sector else ram), sectorsize = sector\<rparr>
        (if algo = 1 then ''zlib'' else ''zstd'') = Inr r"
    using assms by (auto simp: decode_def Let_def)
  also have "\<dots> \<longleftrightarrow> snd reader = None
    \<and> length (fst reader) \<le> (if inline then next_multiple_of ram sector else ram)
    \<and> ram < length (fst reader) + sector
    \<and> r = take ram (fst reader) @ replicate (ram - length (fst reader)) 0"
    using assms(2) by (auto simp: stream_Inr_iff resize_def min_def split: if_splits)
  finally show ?thesis .
qed

text \<open>Decoders that copy their input, for the witnesses.\<close>

definition copy_codecs :: codecs where
  "copy_codecs =
     \<lparr>zlib = (\<lambda>b. (b, None)), zstd = (\<lambda>b. Inr (b, None)), lzo1x = (\<lambda>b n. LzoOk b)\<rparr>"

lemma copy_codecs_simps:
  "decode copy_codecs 1 src 5 512 inline = stream (src, None) src
     \<lparr>ram_bytes = 5, most = (if inline then 512 else 5), sectorsize = 512\<rparr> ''zlib''"
  "zstd copy_codecs src = Inr (src, None)" "lzo1x copy_codecs src n = LzoOk src"
  by (simp_all add: decode_def next_multiple_of_def) (simp_all add: copy_codecs_def)

theorem decompress_exact_length_witness:
  "decompress copy_codecs 1 [1, 2, 3] 5 512 = Inr [1, 2, 3, 0, 0]
   \<and> length [1, 2, 3, 0, 0 :: u8] = 5"
proof -
  have "decompress copy_codecs 1 [1, 2, 3] 5 512 = Inr [1, 2, 3, 0, 0]"
    unfolding decompress_def copy_codecs_simps
    by (simp add: stream_def take_read_to_end_def finish_def resize_def replicate_numeral)
  then show ?thesis
    using decompress_exact_length [of copy_codecs 1 "[1, 2, 3]" 5 512 "[1, 2, 3, 0, 0]"] by simp
qed

theorem decode_stream_iff_witness:
  "decode copy_codecs 3 [9, 9, 9, 9] 3 4 True = Inr [9, 9, 9]
   \<and> \<not> (\<exists>r. decode copy_codecs 3 [9, 9, 9, 9] 3 4 False = Inr r)"
proof (intro conjI notI; (elim exE)?)
  show "decode copy_codecs 3 [9, 9, 9, 9] 3 4 True = Inr [9, 9, 9]"
    using decode_stream_iff [of 3 4 3 "([9, 9, 9, 9], None)" copy_codecs "[9, 9, 9, 9]" True
        "[9, 9, 9]"]
    by (simp add: copy_codecs_simps next_multiple_of_def)
next
  fix r assume "decode copy_codecs 3 [9, 9, 9, 9] 3 4 False = Inr r"
  then show False
    using decode_stream_iff [of 3 4 3 "([9, 9, 9, 9], None)" copy_codecs "[9, 9, 9, 9]" False r]
    by (simp add: copy_codecs_simps)
qed



end
