(* ===== verification/Fs_Core.thy ===== *)
theory Fs_Core
  imports Disk Containers Device Decompress "HOL-Library.Char_ord" "HOL-Library.Product_Lexorder"
begin

text \<open>
  The state of an open file system and its lowest layer (src/fs.rs): tree nodes, the mapping
  from logical addresses to the mirrors that hold them, reads of file data from the first
  readable mirror, and verified reads of tree blocks through the node cache.

  \<open>ext\<close> holds the crates the file system calls: the CRC32C of a buffer, the CRC32C continued
  from a seed, and the decoders.  \<open>HashMap\<close>s are association lists, \<open>BTreeMap\<close>s sorted ones.
\<close>

record ext =
  crc32c :: "bytes \<Rightarrow> u32"
  crc32c_append :: "u32 \<Rightarrow> bytes \<Rightarrow> u32"
  ext_codecs :: codecs
  ext_windows :: bool                 \<comment> \<open>\<open>cfg!(windows)\<close>\<close>
  ext_lowercase :: "string \<Rightarrow> string"  \<comment> \<open>\<open>str::to_lowercase\<close>\<close>

datatype (plugins only: code size) loc = Loc (loc_tree: u64) (loc_ino: u64)

record entry =
  e_name :: bytes
  e_loc :: loc
  e_ftype :: u8
  e_subvol :: bool

definition name_lossy :: "entry \<Rightarrow> string" where
  "name_lossy e = from_utf8_lossy (e_name e)"

record subvol =
  sv_id :: u64
  sv_parent :: u64
  sv_path :: string
  sv_readonly :: bool
  sv_snapshot :: bool
  sv_generation :: u64

section \<open>Nodes\<close>

text \<open>A node is a tree block of \<open>nodesize\<close> bytes, so these bytes exist (\<open>node_ok_length\<close>).\<close>

definition node_level :: "bytes \<Rightarrow> u8" where
  "node_level n = n ! 100"

definition node_nritems :: "bytes \<Rightarrow> nat" where
  "node_nritems n = unat (from_le_bytes (take 4 (drop 96 n)) :: u32)"

definition node_item :: "bytes \<Rightarrow> nat \<Rightarrow> err + (key \<times> bytes)" where
  "node_item n i =
     (let o' = HEADER_SIZE + i * 25 in
      rbind (key_parse n o') (\<lambda>key.
      rbind (u32_at n (o' + 17)) (\<lambda>off.
      rbind (u32_at n (o' + 21)) (\<lambda>sz.
      rbind (bytes n (HEADER_SIZE + unat off) (unat sz)) (\<lambda>d. Inr (key, d))))))"

definition node_ptr :: "bytes \<Rightarrow> nat \<Rightarrow> err + (key \<times> u64)" where
  "node_ptr n i =
     (let o' = HEADER_SIZE + i * 33 in
      rbind (key_parse n o') (\<lambda>key.
      rbind (u64_at n (o' + KEY_SIZE)) (\<lambda>child. Inr (key, child))))"

section \<open>The file system's state\<close>

record tree_root =
  tr_bytenr :: u64
  tr_root_dirid :: u64

record fs =
  fs_devs :: "(u64 \<times> device) list"
  fs_sb :: superblock
  fs_chunks :: "(u64 \<times> chunk) list"
  fs_nodes :: "(u64 \<times> bytes) list"
  fs_roots :: "(u64 \<times> tree_root) list"
  fs_last_extent :: "(u64 \<times> bytes) option"

definition chunks :: "fs \<Rightarrow> chunk list" where
  "chunks s = map snd (fs_chunks s)"

definition device_paths :: "fs \<Rightarrow> string list" where
  "device_paths s = map snd (sort (map (\<lambda>(devid, d). (devid, dev_path d)) (fs_devs s)))"

section \<open>Logical addresses\<close>

definition striped :: u64 where
  "striped = BLOCK_GROUP_RAID0 OR BLOCK_GROUP_RAID10 OR BLOCK_GROUP_RAID5 OR BLOCK_GROUP_RAID6"

text \<open>The devices that hold a chunk's stripes, with the physical address of \<open>logical\<close>.\<close>

definition stripe_mirrors :: "fs \<Rightarrow> chunk \<Rightarrow> u64 \<Rightarrow> (device \<times> u64) list" where
  "stripe_mirrors s c logical =
     List.map_filter
       (\<lambda>(devid, phys).
          map_option (\<lambda>d. (d, phys + (logical - ch_start c))) (map_of (fs_devs s) devid))
       (ch_stripes c)"

definition mirrors :: "fs \<Rightarrow> u64 \<Rightarrow> u64 \<Rightarrow> err + (device \<times> u64) list" where
  "mirrors s logical len =
     (case bt_floor (fs_chunks s) logical of
        None \<Rightarrow> Inl (Fs (NotMapped logical len))
      | Some (_, c) \<Rightarrow>
          if \<not> logical + len \<le> ch_start c + ch_length c then Inl (Fs (NotMapped logical len))
          else if ch_ty c AND striped \<noteq> 0 \<and> 1 < length (ch_stripes c) then
            Inl (Fs (StripedChunks (profile c)))
          else
            (let out = stripe_mirrors s c logical in
             if out = [] then Inl (Fs (DeviceNotGiven logical (sb_num_devices (fs_sb s))))
             else Inr out))"

text \<open>File data: each mirror in turn, and the last one's error if none can be read.\<close>

fun first_readable :: "nat \<Rightarrow> (device \<times> u64) list \<Rightarrow> err \<Rightarrow> err + bytes" where
  "first_readable len [] last_err = Inl last_err"
| "first_readable len ((dev, phys) # ms) last_err =
     (case device_read dev phys len of
        Inr b \<Rightarrow> Inr b
      | Inl e \<Rightarrow> first_readable len ms (Io e))"

definition read_logical :: "fs \<Rightarrow> u64 \<Rightarrow> nat \<Rightarrow> err + bytes" where
  "read_logical s logical len =
     rbind (mirrors s logical (word_of_nat len)) (\<lambda>ms.
       first_readable len ms (Fs (NoReadableMirror logical)))"

section \<open>Tree blocks\<close>

fun node_from :: "ext \<Rightarrow> superblock \<Rightarrow> u64 \<Rightarrow> (device \<times> u64) list \<Rightarrow> err \<Rightarrow> err + bytes" where
  "node_from x sb logical [] last_err = Inl last_err"
| "node_from x sb logical ((dev, phys) # ms) last_err =
     (let sz = unat (sb_nodesize sb) in
      case device_read dev phys sz of
        Inl e \<Rightarrow> node_from x sb logical ms (Io e)
      | Inr buf \<Rightarrow>
          rbind (u64_at buf 48) (\<lambda>addr.
          if addr \<noteq> logical then node_from x sb logical ms (Fs (WrongHeaderAddress logical))
          else
            rbind
              (if sb_csum_type sb = 0
               then rbind (u32_at buf 0) (\<lambda>want. Inr (want \<noteq> crc32c x (drop 32 buf)))
               else Inr False)
              (\<lambda>failed.
               if failed then node_from x sb logical ms (Fs (NodeChecksum logical))
               else if (sz - HEADER_SIZE) div 25 < node_nritems buf then
                 Inl (Fs (TooManyItems logical (node_nritems buf)))
               else Inr buf)))"

text \<open>What \<open>read_node\<close> reads when the block is not cached.\<close>

definition node_at :: "ext \<Rightarrow> fs \<Rightarrow> u64 \<Rightarrow> err + bytes" where
  "node_at x s logical =
     rbind (mirrors s logical (word_of_nat (unat (sb_nodesize (fs_sb s))))) (\<lambda>ms.
       node_from x (fs_sb s) logical ms (Fs Unreadable))"

definition cache_node :: "u64 \<Rightarrow> bytes \<Rightarrow> fs \<Rightarrow> fs" where
  "cache_node logical n s =
     s\<lparr>fs_nodes := hm_insert logical n (if 8192 \<le> length (fs_nodes s) then [] else fs_nodes s)\<rparr>"

definition read_node :: "ext \<Rightarrow> u64 \<Rightarrow> (fs, bytes) eff" where
  "read_node x logical s =
     (case map_of (fs_nodes s) logical of
        Some n \<Rightarrow> (Inr n, s)
      | None \<Rightarrow>
          (case node_at x s logical of
             Inl e \<Rightarrow> (Inl e, s)
           | Inr n \<Rightarrow> (Inr n, cache_node logical n s)))"
section \<open>Lemmas\<close>

lemma device_read_length: "device_read d off len = Inr b \<Longrightarrow> length b = len"
  by (auto simp: device_read_def Let_def split: option.splits sum.splits if_splits)

lemma mirrors_cases:
  assumes "mirrors s logical len = Inr ms"
  obtains start c where "bt_floor (fs_chunks s) logical = Some (start, c)"
    and "logical + len \<le> ch_start c + ch_length c"
    and "ch_ty c AND striped = 0 \<or> length (ch_stripes c) \<le> 1"
    and "ms = stripe_mirrors s c logical" and "ms \<noteq> []"
  using assms by (auto simp: mirrors_def Let_def not_less split: option.splits if_splits)

lemma set_stripe_mirrors:
  "set (stripe_mirrors s c logical) =
     {(d, phys + (logical - ch_start c)) |devid phys d.
        (devid, phys) \<in> set (ch_stripes c) \<and> map_of (fs_devs s) devid = Some d}"
  unfolding stripe_mirrors_def
  by (force simp: map_filter_def split: option.splits)

lemma first_readable_Inr_iff:
  "first_readable len ms e = Inr b \<longleftrightarrow>
     (\<exists>as m bs. ms = as @ m # bs \<and> device_read (fst m) (snd m) len = Inr b
        \<and> (\<forall>a \<in> set as. \<not> is_ok (device_read (fst a) (snd a) len)))"
proof (induction len ms e rule: first_readable.induct)
  case (1 len e)
  then show ?case by simp
next
  case (2 len dev phys ms e)
  show ?case
    unfolding first_split_Cons using 2
    by (cases "device_read dev phys len") auto
qed

lemma first_readable_length: "first_readable len ms e = Inr b \<Longrightarrow> length b = len"
  by (auto simp: first_readable_Inr_iff dest: device_read_length)

lemma read_logical_length: "read_logical s logical len = Inr b \<Longrightarrow> length b = len"
  by (auto simp: read_logical_def rbind_Inr_iff dest: first_readable_length)

text \<open>What a tree block must show to be used, and when the next mirror is tried instead.\<close>

definition block_ok :: "ext \<Rightarrow> superblock \<Rightarrow> u64 \<Rightarrow> bytes \<Rightarrow> bool" where
  "block_ok x sb logical b \<longleftrightarrow>
     u64_at b 48 = Inr logical \<and>
     (sb_csum_type sb = 0 \<longrightarrow> u32_at b 0 = Inr (crc32c x (drop 32 b)))"

definition items_fit :: "superblock \<Rightarrow> bytes \<Rightarrow> bool" where
  "items_fit sb b \<longleftrightarrow> node_nritems b \<le> (unat (sb_nodesize sb) - 101) div 25"

definition read_copy :: "superblock \<Rightarrow> device \<times> u64 \<Rightarrow> io_error + bytes" where
  "read_copy sb m = device_read (fst m) (snd m) (unat (sb_nodesize sb))"

lemma node_from_Cons:
  assumes "4096 \<le> unat (sb_nodesize sb)"
  shows "node_from x sb logical (m # ms) e =
     (case read_copy sb m of
        Inl e' \<Rightarrow> node_from x sb logical ms (Io e')
      | Inr b \<Rightarrow>
          if \<not> block_ok x sb logical b then
            node_from x sb logical ms
              (Fs (if u64_at b 48 = Inr logical then NodeChecksum logical
                   else WrongHeaderAddress logical))
          else if items_fit sb b then Inr b
          else Inl (Fs (TooManyItems logical (node_nritems b))))"
proof (cases m, cases "read_copy sb m")
  case (Pair dev phys)
  case (Inl e')
  with Pair show ?thesis by (simp add: read_copy_def)
next
  case (Pair dev phys)
  case (Inr b)
  then have "length b = unat (sb_nodesize sb)"
    by (auto simp: read_copy_def dest: device_read_length)
  with assms have "u64_at b 48 = Inr (from_le_bytes (take 8 (drop 48 b)))"
      "u32_at b 0 = Inr (from_le_bytes (take 4 b))"
    by (simp_all add: u64_at_Inr_iff u32_at_Inr_iff)
  with Pair Inr show ?thesis
    by (simp add: read_copy_def block_ok_def items_fit_def Let_def not_le)
qed

lemma node_from_Inr_iff:
  assumes "4096 \<le> unat (sb_nodesize sb)"
  shows "node_from x sb logical ms e = Inr b \<longleftrightarrow>
     (\<exists>as m bs. ms = as @ m # bs
        \<and> (read_copy sb m = Inr b \<and> block_ok x sb logical b \<and> items_fit sb b
        \<and> (\<forall>a \<in> set as. \<forall>b'. read_copy sb a = Inr b' \<longrightarrow> \<not> block_ok x sb logical b')))"
proof (induction ms arbitrary: e)
  case Nil
  then show ?case by simp
next
  case (Cons m ms)
  show ?case
    unfolding first_split_Cons node_from_Cons [OF assms]
    by (cases "read_copy sb m") (auto simp add: Cons.IH simp del: split_paired_Ex split_paired_All)
qed

text \<open>The verified contents of a node, whichever mirror it came from.\<close>

definition node_ok :: "ext \<Rightarrow> fs \<Rightarrow> u64 \<Rightarrow> bytes \<Rightarrow> bool" where
  "node_ok x s logical n \<longleftrightarrow>
     length n = unat (sb_nodesize (fs_sb s)) \<and> block_ok x (fs_sb s) logical n
     \<and> items_fit (fs_sb s) n"

lemma node_at_ok:
  assumes "4096 \<le> unat (sb_nodesize (fs_sb s))" and "node_at x s logical = Inr n"
  shows "node_ok x s logical n"
  using assms(2)
  by (auto simp: node_at_def node_ok_def rbind_Inr_iff node_from_Inr_iff [OF assms(1)]
      read_copy_def dest: device_read_length)

text \<open>
  The cache holds what reading the block again would give; \<open>core\<close> is the part of the state
  that reading depends on.
\<close>

definition core :: "fs \<Rightarrow> fs" where
  "core s = s\<lparr>fs_nodes := [], fs_roots := [], fs_last_extent := None\<rparr>"

definition nodes_ok :: "ext \<Rightarrow> fs \<Rightarrow> bool" where
  "nodes_ok x s \<longleftrightarrow> (\<forall>l n. map_of (fs_nodes s) l = Some n \<longrightarrow> node_at x s l = Inr n)"

lemma core_simps [simp]:
  "fs_devs (core s) = fs_devs s" "fs_sb (core s) = fs_sb s" "fs_chunks (core s) = fs_chunks s"
  "fs_nodes (core s) = []" "fs_roots (core s) = []" "fs_last_extent (core s) = None"
  "core (core s) = core s"
  by (simp_all add: core_def)

lemma mirrors_core: "mirrors (core s) = mirrors s"
  by (intro ext) (simp add: mirrors_def stripe_mirrors_def Let_def split: option.splits)

lemma node_at_core: "node_at x (core s) = node_at x s"
  by (simp add: node_at_def [abs_def] mirrors_core)

lemma node_at_cong: "core s = core t \<Longrightarrow> node_at x s = node_at x t"
  by (metis node_at_core)

lemma cache_node_simps [simp]:
  "core (cache_node l n s) = core s" "fs_roots (cache_node l n s) = fs_roots s"
  "fs_last_extent (cache_node l n s) = fs_last_extent s"
  by (simp_all add: core_def cache_node_def)

lemma nodes_ok_cache:
  assumes "nodes_ok x s" and "node_at x s l = Inr n"
  shows "nodes_ok x (cache_node l n s)"
  unfolding nodes_ok_def
proof (intro allI impI)
  fix j w assume j: "map_of (fs_nodes (cache_node l n s)) j = Some w"
  have "node_at x s j = Inr w"
    by (rule hm.insert_keeps [where P = "\<lambda>j w. node_at x s j = Inr w" and k = l and v = n
          and m = "if 8192 \<le> length (fs_nodes s) then [] else fs_nodes s"])
      (use assms j in \<open>auto simp: nodes_ok_def cache_node_def split: if_splits\<close>)
  then show "node_at x (cache_node l n s) j = Inr w"
    by (simp add: node_at_cong [of "cache_node l n s" s])
qed

text \<open>
  The states with a sound node cache over the same file system; \<open>R\<close> is what is known of the
  two caches that reading nodes leaves alone.
\<close>

definition view ::
  "ext \<Rightarrow> fs \<Rightarrow> ((u64 \<times> tree_root) list \<Rightarrow> (u64 \<times> bytes) option \<Rightarrow> bool) \<Rightarrow> fs \<Rightarrow> bool" where
  "view x c R s \<longleftrightarrow> nodes_ok x s \<and> core s = c \<and> R (fs_roots s) (fs_last_extent s)"

definition any_caches :: "(u64 \<times> tree_root) list \<Rightarrow> (u64 \<times> bytes) option \<Rightarrow> bool" where
  "any_caches roots le = True"

lemma view_any: "view x c R s \<Longrightarrow> view x c any_caches s"
  by (simp add: view_def any_caches_def)

lemma view_core: "view x (core s) any_caches (core s)"
  by (simp add: view_def nodes_ok_def any_caches_def)

lemma read_node_computes: "computes (view x c R) (read_node x l) (node_at x c l)"
  unfolding computes_def
proof (intro allI impI)
  fix s assume v: "view x c R s"
  then have at: "node_at x s = node_at x c" and ok: "nodes_ok x s"
    using node_at_core [of x s] by (simp_all add: view_def)
  show "fst (read_node x l s) = node_at x c l \<and> view x c R (snd (read_node x l s))"
  proof (cases "map_of (fs_nodes s) l")
    case None
    show ?thesis
      using v nodes_ok_cache [OF ok]
      by (cases "node_at x s l") (auto simp: read_node_def None view_def at)
  next
    case (Some n)
    with ok v show ?thesis by (auto simp: read_node_def nodes_ok_def at)
  qed
qed

end
