(* ===== verification/Fs_Walk.thy ===== *)
theory Fs_Walk
  imports Fs_Core
begin

text \<open>
  Tree walks (src/fs.rs): \<open>walk\<close> visits the items of a tree whose keys lie between two keys,
  skipping the subtrees that cannot hold any, and \<open>get\<close> takes one item.  A visitor is a
  function of the key, the data and what the closure has captured, which it returns updated
  with whether to go on; an error ends the walk.

  \<open>tree_items\<close> reads a whole tree, without pruning and without caches, and checks that it is
  a search tree; \<open>visit_items\<close> is the walk over a list of items.  The walk of a search tree
  is the walk over the list of its items.
\<close>

type_synonym 'v visitor = "key \<Rightarrow> bytes \<Rightarrow> 'v \<Rightarrow> err + bool \<times> 'v"

fun leaf_loop ::
  "bytes \<Rightarrow> key \<Rightarrow> key \<Rightarrow> 'v visitor \<Rightarrow> nat list \<Rightarrow> 'v \<Rightarrow> err + bool \<times> 'v" where
  "leaf_loop node mn mx visit [] v = Inr (True, v)"
| "leaf_loop node mn mx visit (i # is) v =
     rbind (node_item node i) (\<lambda>(k, d).
     if k < mn then leaf_loop node mn mx visit is v
     else if mx < k then Inr (False, v)
     else rbind (visit k d v) (\<lambda>(go, v').
       if go then leaf_loop node mn mx visit is v' else Inr (False, v')))"

text \<open>
  The loop over a node's children; \<open>down\<close> is the recursive call on a child.  A child whose
  right sibling starts at or below the minimum is skipped.
\<close>

fun ptr_loop ::
  "bytes \<Rightarrow> key \<Rightarrow> key \<Rightarrow> (u64 \<Rightarrow> 'v \<Rightarrow> ('s, bool \<times> 'v) eff) \<Rightarrow> nat list \<Rightarrow> nat \<Rightarrow> 'v
     \<Rightarrow> ('s, bool \<times> 'v) eff" where
  "ptr_loop node mn mx down [] n v = sret (True, v)"
| "ptr_loop node mn mx down (i # is) n v =
     sbind (slift (node_ptr node i)) (\<lambda>(k, child).
     if mx < k then sret (False, v)
     else
       sbind
         (if i + 1 < n then slift (rbind (node_ptr node (i + 1)) (\<lambda>(next, _). Inr (next \<le> mn)))
          else sret False)
         (\<lambda>skip.
          if skip then ptr_loop node mn mx down is n v
          else sbind (down child v) (\<lambda>(go, v').
            if go then ptr_loop node mn mx down is n v' else sret (False, v'))))"

definition wrong_level :: "bytes \<Rightarrow> u8 option \<Rightarrow> bool" where
  "wrong_level node expect_level =
     (case expect_level of None \<Rightarrow> False | Some expected \<Rightarrow> node_level node \<noteq> expected)"

function walk_node ::
  "ext \<Rightarrow> u64 \<Rightarrow> key \<Rightarrow> key \<Rightarrow> 'v visitor \<Rightarrow> nat \<Rightarrow> u8 option \<Rightarrow> 'v \<Rightarrow> (fs, bool \<times> 'v) eff"
where
  "walk_node x logical mn mx visit depth expect_level v =
     (if 8 < depth then sthrow (Fs TreeTooDeep)
      else
        sbind (read_node x logical) (\<lambda>node.
        let n = node_nritems node in
        if wrong_level node expect_level then
          sthrow (Fs (WrongLevel logical (node_level node) (the expect_level)))
        else if node_level node = 0 then slift (leaf_loop node mn mx visit [0..<n] v)
        else
          ptr_loop node mn mx
            (\<lambda>child. walk_node x child mn mx visit (depth + 1) (Some (node_level node - 1)))
            [0..<n] n v))"
  by pat_completeness auto
termination
  by (relation "measure (\<lambda>(x, logical, mn, mx, visit, depth, expect_level, v). 9 - depth)") auto

declare walk_node.simps [simp del]

definition walk :: "ext \<Rightarrow> u64 \<Rightarrow> key \<Rightarrow> key \<Rightarrow> 'v visitor \<Rightarrow> 'v \<Rightarrow> (fs, bool \<times> 'v) eff" where
  "walk x root mn mx visit v = walk_node x root mn mx visit 0 None v"

definition get :: "ext \<Rightarrow> u64 \<Rightarrow> key \<Rightarrow> (fs, bytes option) eff" where
  "get x root k =
     sbind (walk x root k k (\<lambda>_ d _. Inr (False, Some d)) None) (\<lambda>(_, out). sret out)"

section \<open>The specification\<close>

text \<open>Visiting a list of items in order.\<close>

fun visit_items ::
  "key \<Rightarrow> key \<Rightarrow> 'v visitor \<Rightarrow> (key \<times> bytes) list \<Rightarrow> 'v \<Rightarrow> err + bool \<times> 'v" where
  "visit_items mn mx visit [] v = Inr (True, v)"
| "visit_items mn mx visit ((k, d) # its) v =
     (if k < mn then visit_items mn mx visit its v
      else if mx < k then Inr (False, v)
      else rbind (visit k d v) (\<lambda>(go, v').
        if go then visit_items mn mx visit its v' else Inr (False, v')))"

text \<open>
  The items of the children of a node, when they form a search tree: no child is empty, its
  keys start at its own key and end below its right sibling's.
\<close>

fun join_kids :: "(key \<times> (key \<times> bytes) list option) list \<Rightarrow> (key \<times> bytes) list option" where
  "join_kids [] = Some []"
| "join_kids [(k, Some its)] =
     (if its \<noteq> [] \<and> list_all (\<lambda>e. k \<le> fst e) its then Some its else None)"
| "join_kids ((k, Some its) # (k', r) # kids) =
     (if its \<noteq> [] \<and> list_all (\<lambda>e. k \<le> fst e \<and> fst e < k') its
      then map_option (\<lambda>rest. its @ rest) (join_kids ((k', r) # kids))
      else None)"
| "join_kids ((k, None) # kids) = None"

fun tree_items :: "ext \<Rightarrow> fs \<Rightarrow> nat \<Rightarrow> u64 \<Rightarrow> u8 option \<Rightarrow> (key \<times> bytes) list option" where
  "tree_items x c 0 logical expect_level = None"
| "tree_items x c (Suc d) logical expect_level =
     (case node_at x c logical of
        Inl _ \<Rightarrow> None
      | Inr node \<Rightarrow>
          if wrong_level node expect_level then None
          else if node_level node = 0 then
            (case rcollect (node_item node) [0..<node_nritems node] of
               Inl _ \<Rightarrow> None
             | Inr its \<Rightarrow> if sorted_wrt (<) (map fst its) then Some its else None)
          else
            (case rcollect (node_ptr node) [0..<node_nritems node] of
               Inl _ \<Rightarrow> None
             | Inr ptrs \<Rightarrow>
                 join_kids (map (\<lambda>(k, child).
                   (k, tree_items x c d child (Some (node_level node - 1)))) ptrs)))"

text \<open>The items of the tree at \<open>root\<close>: at most nine levels, as \<open>walk\<close> allows.\<close>

definition items :: "ext \<Rightarrow> fs \<Rightarrow> u64 \<Rightarrow> (key \<times> bytes) list option" where
  "items x c root = tree_items x c 9 root None"

section \<open>Walking a list\<close>

lemma visit_items_append:
  "visit_items mn mx visit (as @ bs) v =
     rbind (visit_items mn mx visit as v) (\<lambda>(go, v').
       if go then visit_items mn mx visit bs v' else Inr (False, v'))"
proof (induction mn mx visit as v rule: visit_items.induct)
  case (2 mn mx visit k d its v)
  show ?case
  proof (cases "k < mn \<or> mx < k")
    case True
    with 2(1) show ?thesis by auto
  next
    case False
    with 2(2) show ?thesis by (cases "visit k d v") auto
  qed
qed simp

lemma visit_items_below:
  "list_all (\<lambda>e. fst e < mn) its \<Longrightarrow> visit_items mn mx visit its v = Inr (True, v)"
  by (induction its) auto

lemma visit_items_above:
  "its \<noteq> [] \<Longrightarrow> mn \<le> mx \<Longrightarrow> mx < fst (hd its) \<Longrightarrow> visit_items mn mx visit its v = Inr (False, v)"
  by (cases its) auto

text \<open>On sorted items, the visit sees exactly those in range, in order, until it stops.\<close>

fun visit_all :: "'v visitor \<Rightarrow> (key \<times> bytes) list \<Rightarrow> 'v \<Rightarrow> err + 'v" where
  "visit_all visit [] v = Inr v"
| "visit_all visit ((k, d) # its) v =
     rbind (visit k d v) (\<lambda>(go, v'). if go then visit_all visit its v' else Inr v')"

definition in_range :: "key \<Rightarrow> key \<Rightarrow> (key \<times> bytes) list \<Rightarrow> (key \<times> bytes) list" where
  "in_range mn mx its = filter (\<lambda>e. mn \<le> fst e \<and> fst e \<le> mx) its"

lemma visit_items_in_range:
  assumes "sorted_wrt (<) (map fst its)"
  shows "rbind (visit_items mn mx visit its v) (\<lambda>(_, v'). Inr v')
     = visit_all visit (in_range mn mx its) v"
  using assms
proof (induction mn mx visit its v rule: visit_items.induct)
  case (2 mn mx visit k d its v)
  note IH = "2.IH" and sorted = "2.prems"
  consider (below) "k < mn" | (above) "mn \<le> k" "mx < k" | (inside) "mn \<le> k" "k \<le> mx"
    by fastforce
  then show ?case
  proof cases
    case below
    then show ?thesis using IH(1) sorted by (auto simp: in_range_def)
  next
    case above
    have "in_range mn mx ((k, d) # its) = []"
      using above sorted by (force simp: in_range_def filter_empty_conv)
    with above show ?thesis by (auto simp: not_less)
  next
    case inside
    with IH(2) sorted show ?thesis
      by (cases "visit k d v") (auto simp: in_range_def not_less)
  qed
qed (simp add: in_range_def)

section \<open>The walk of a search tree\<close>

lemma leaf_loop_items:
  "rcollect (node_item node) is = Inr its \<Longrightarrow>
     leaf_loop node mn mx visit is v = visit_items mn mx visit its v"
proof (induction "is" arbitrary: its v)
  case Nil
  then show ?case by simp
next
  case (Cons i "is")
  then obtain k d rest where i: "node_item node i = Inr (k, d)"
      and rest: "rcollect (node_item node) is = Inr rest" and its: "its = (k, d) # rest"
    by (auto simp: rbind_Inr_iff)
  show ?case
    unfolding its by (cases "visit k d v") (auto simp: i Cons.IH [OF rest])
qed

lemma join_kids_Cons:
  assumes "join_kids ((k, r) # kids) = Some its"
  obtains as rest where "r = Some as" and "as \<noteq> []" and "its = as @ rest"
    and "join_kids kids = Some rest" and "\<forall>e \<in> set as. k \<le> fst e"
    and "kids \<noteq> [] \<longrightarrow> (\<forall>e \<in> set as. fst e < fst (hd kids))"
  using assms
  by (cases r; cases kids)
    (auto simp: list_all_iff simp del: split_paired_All split_paired_Ex split: if_splits)

lemma ptr_loop_items:
  fixes I :: "'s \<Rightarrow> bool"
  assumes ptrs: "\<And>i. i < n \<Longrightarrow> node_ptr node i = Inr (ps ! i)" and n: "length ps = n"
    and range: "mn \<le> mx"
    and down: "\<And>child as v. T child = Some as \<Longrightarrow>
      computes I (down child v) (visit_items mn mx visit as v)"
    and i: "i \<le> n" and its: "join_kids (map (\<lambda>(k, child). (k, T child)) (drop i ps)) = Some its"
  shows "computes I (ptr_loop node mn mx down [i..<n] n v) (visit_items mn mx visit its v)"
  using i its
proof (induction "n - i" arbitrary: i its v)
  case 0
  then show ?case using n by (auto simp: computes_def)
next
  case (Suc m)
  then have lt: "i < n" by simp
  obtain k child where p: "ps ! i = (k, child)" by (cases "ps ! i")
  have drop: "drop i ps = (k, child) # drop (Suc i) ps"
    using lt n Cons_nth_drop_Suc [of i ps] p by simp
  from Suc.prems(2) obtain as rest where as: "T child = Some as" "as \<noteq> []"
      and its: "its = as @ rest"
      and rest: "join_kids (map (\<lambda>(k, child). (k, T child)) (drop (Suc i) ps)) = Some rest"
      and low: "\<forall>e \<in> set as. k \<le> fst e"
      and high: "drop (Suc i) ps \<noteq> [] \<longrightarrow> (\<forall>e \<in> set as.
        fst e < fst (hd (map (\<lambda>(k, child). (k, T child)) (drop (Suc i) ps))))"
    unfolding drop list.map prod.case by (rule join_kids_Cons) simp
  note IH = Suc.hyps(1) [of "Suc i" rest] 
  have tail: "computes I (ptr_loop node mn mx down [Suc i..<n] n v') (visit_items mn mx visit rest v')"
    for v' using IH rest Suc.hyps(2) lt by simp
  show ?case
  proof (cases "mx < k")
    case True
    have "k \<le> fst (hd its)" using low as(2) its by simp
    with True range have "visit_items mn mx visit its v = Inr (False, v)"
      using as(2) its by (intro visit_items_above) auto
    with True lt p show ?thesis
      by (auto simp: upt_conv_Cons ptrs computes_def)
  next
    case False
    define skip where "skip \<longleftrightarrow> Suc i < n \<and> fst (ps ! Suc i) \<le> mn"
    have decide: "(if i + 1 < n
         then slift (rbind (node_ptr node (i + 1)) (\<lambda>(next, _). Inr (next \<le> mn)))
         else sret False) = (sret skip :: ('s, bool) eff)"
      using ptrs by (auto simp: skip_def slift_def sret_def split_beta)
    have step: "ptr_loop node mn mx down [i..<n] n v =
        (if skip then ptr_loop node mn mx down [Suc i..<n] n v
         else sbind (down child v) (\<lambda>(go, v').
            if go then ptr_loop node mn mx down [Suc i..<n] n v' else sret (False, v')))"
      unfolding upt_conv_Cons [OF lt] ptr_loop.simps(2) ptrs [OF lt] p sbind_lift_Inr
        prod.case decide sbind_ret using False by simp
    show ?thesis
    proof (cases skip)
      case True
      then have "drop (Suc i) ps \<noteq> []" and "hd (drop (Suc i) ps) = ps ! Suc i"
        using n by (auto simp: skip_def hd_drop_conv_nth)
      then have "list_all (\<lambda>e. fst e < mn) as"
        using high True by (fastforce simp: list_all_iff hd_map split_beta skip_def)
      then have "visit_items mn mx visit its v = visit_items mn mx visit rest v"
        by (simp add: its visit_items_append visit_items_below)
      with True tail show ?thesis by (simp add: step)
    next
      case no_skip: False
      have "computes I (sbind (down child v) (\<lambda>(go, v').
            if go then ptr_loop node mn mx down [Suc i..<n] n v' else sret (False, v')))
          (visit_items mn mx visit its v)"
        unfolding its visit_items_append
        by (rule computes_bind [OF down [OF as(1)]]) (auto intro: tail)
      with no_skip show ?thesis by (simp add: step)
    qed
  qed
qed

lemma walk_node_computes:
  assumes "tree_items x c d logical e = Some its" and "d + depth = 9" and range: "mn \<le> mx"
  shows "computes (view x c R) (walk_node x logical mn mx visit depth e v)
     (visit_items mn mx visit its v)"
  using assms(1,2)
proof (induction d arbitrary: logical e its depth v)
  case 0
  then show ?case by simp
next
  case (Suc d)
  from Suc.prems obtain node where node: "node_at x c logical = Inr node"
      and lvl: "\<not> wrong_level node e"
    by (auto split: sum.splits if_splits)
  let ?n = "node_nritems node"
  let ?down = "\<lambda>child. walk_node x child mn mx visit (depth + 1) (Some (node_level node - 1))"
  have body: "computes (view x c R)
      (if node_level node = 0 then slift (leaf_loop node mn mx visit [0..<?n] v)
       else ptr_loop node mn mx ?down [0..<?n] ?n v) (visit_items mn mx visit its v)"
  proof (cases "node_level node = 0")
    case True
    with Suc.prems(1) node lvl have "rcollect (node_item node) [0..<?n] = Inr its"
      by (auto split: sum.splits if_splits)
    from leaf_loop_items [OF this] True show ?thesis by (auto simp: computes_def)
  next
    case False
    with Suc.prems(1) node lvl obtain ps where ps: "rcollect (node_ptr node) [0..<?n] = Inr ps"
        and kids: "join_kids (map (\<lambda>(k, child).
            (k, tree_items x c d child (Some (node_level node - 1)))) ps) = Some its"
      by (auto split: sum.splits if_splits)
    have len: "length ps = ?n" using rcollect_length [OF ps] by simp
    have nth: "node_ptr node i = Inr (ps ! i)" if "i < ?n" for i
      using ps that by (auto simp: rcollect_Inr_iff list_all2_conv_all_nth)
    have "computes (view x c R) (ptr_loop node mn mx ?down [0..<?n] ?n v)
        (visit_items mn mx visit its v)"
      by (rule ptr_loop_items [OF nth len range, where
            T = "\<lambda>child. tree_items x c d child (Some (node_level node - 1))"])
        (use kids Suc.IH Suc.prems(2) in auto)
    with False show ?thesis by simp
  qed
  have "\<not> 8 < depth" using Suc.prems(2) by simp
  then show ?case
    unfolding walk_node.simps [of x logical]
    using lvl body by (simp add: computes_bind_Inr [OF read_node_computes [of x c R logical,
          unfolded node]] Let_def)
qed

lemma walk_computes:
  assumes "items x c root = Some its" and "mn \<le> mx"
  shows "computes (view x c R) (walk x root mn mx visit v) (visit_items mn mx visit its v)"
  using walk_node_computes [of x c 9 root None its 0] assms by (simp add: walk_def items_def)

lemma tree_items_sorted: "tree_items x c d logical e = Some its \<Longrightarrow> sorted_wrt (<) (map fst its)"
proof (induction d arbitrary: logical e its)
  case (Suc d)
  have kids: "sorted_wrt (<) (map fst its) \<and> (\<forall>k. kids \<noteq> [] \<longrightarrow> (\<forall>e \<in> set its. fst (hd kids) \<le> fst e))"
    if "join_kids kids = Some its"
      and "\<forall>(k, r) \<in> set kids. \<forall>as. r = Some as \<longrightarrow> sorted_wrt (<) (map fst as)" for kids its
    using that
  proof (induction kids arbitrary: its)
    case Nil
    then show ?case by simp
  next
    case (Cons p kids)
    obtain k r where p: "p = (k, r)" by (cases p)
    from Cons.prems(1) obtain as rest where r: "r = Some as" and its: "its = as @ rest"
        and rest: "join_kids kids = Some rest" and low: "\<forall>e \<in> set as. k \<le> fst e"
        and high: "kids \<noteq> [] \<longrightarrow> (\<forall>e \<in> set as. fst e < fst (hd kids))" and ne: "as \<noteq> []"
      unfolding p by (rule join_kids_Cons)
    have IH: "sorted_wrt (<) (map fst rest)"
        "kids \<noteq> [] \<Longrightarrow> \<forall>e \<in> set rest. fst (hd kids) \<le> fst e"
      using Cons.IH [OF rest] Cons.prems(2) by auto
    have "sorted_wrt (<) (map fst as)" using Cons.prems(2) p r by simp
    moreover have "\<forall>a \<in> set as. \<forall>b \<in> set rest. fst a < fst b"
    proof (cases "kids = []")
      case True
      with rest show ?thesis by simp
    next
      case False
      with high IH(2) show ?thesis by (meson less_le_trans)
    qed
    moreover have "\<forall>e \<in> set rest. k \<le> fst e"
      using calculation(2) low ne by (meson hd_in_set less_imp_le order_trans)
    ultimately show ?case
      using IH(1) low by (auto simp: its p sorted_wrt_append sorted_wrt_map)
  qed
  from Suc show ?case
    by (auto split: sum.splits if_splits dest!: kids)
qed simp

lemma items_sorted: "items x c root = Some its \<Longrightarrow> sorted_wrt (<) (map fst its)"
  by (simp add: items_def tree_items_sorted)

lemma tree_items_core: "tree_items x (core s) d logical e = tree_items x s d logical e"
  by (induction d arbitrary: logical e) (simp_all add: node_at_core split: sum.split)

lemma items_core: "items x (core s) root = items x s root"
  by (simp add: items_def tree_items_core)

text \<open>\<open>get\<close> is lookup in the items.\<close>

lemma visit_items_get:
  assumes "sorted_wrt (<) (map fst its)"
  shows "rbind (visit_items k k (\<lambda>_ d _. Inr (False, Some d)) its None) (\<lambda>(_, out). Inr out)
     = (Inr (map_of its k) :: err + bytes option)"
  using assms
proof (induction its)
  case (Cons e its)
  obtain j d where e: "e = (j, d)" by (cases e)
  consider (below) "j < k" | (at) "j = k" | (above) "k < j" by fastforce
  then show ?case
  proof cases
    case above
    then have "k \<notin> fst ` set its" using Cons.prems by (force simp: e)
    then have "map_of its k = None" by (simp add: map_of_eq_None_iff)
    with above show ?thesis by (auto simp: e)
  qed (use Cons in \<open>auto simp: e\<close>)
qed simp

lemma get_computes:
  assumes "items x c root = Some its"
  shows "computes (view x c R) (get x root k) (Inr (map_of its k))"
proof -
  have "computes (view x c R) (get x root k)
      (rbind (visit_items k k (\<lambda>_ d _. Inr (False, Some d)) its None) (\<lambda>(_, out). Inr out))"
    unfolding get_def by (rule computes_bind [OF walk_computes [OF assms]]) auto
  then show ?thesis by (simp add: visit_items_get [OF items_sorted [OF assms]])
qed

section \<open>Walks do not see the node cache\<close>

definition same ::
  "ext \<Rightarrow> fs \<Rightarrow> ((u64 \<times> tree_root) list \<Rightarrow> (u64 \<times> bytes) option \<Rightarrow> bool) \<Rightarrow> fs \<Rightarrow> fs \<Rightarrow> bool" where
  "same x c R = (\<lambda>s t. view x c R s \<and> view x c R t)"

interpretation obs: observation "same x c R" for x c R
  by unfold_locales (simp_all add: same_def)

lemma steady_of_computes: "computes (view x c R) m r \<Longrightarrow> steady (same x c R) m"
  unfolding same_def by (rule obs.steady_computes)

lemma read_node_steady: "steady (same x c R) (read_node x l)"
  by (rule steady_of_computes [OF read_node_computes])

lemma ptr_loop_steady:
  assumes "\<And>child v. steady (same x c R) (down child v)"
  shows "steady (same x c R) (ptr_loop node mn mx down is n v)"
proof (induction "is" arbitrary: v)
  case Nil
  show ?case by (simp only: ptr_loop.simps obs.steady_ret)
next
  case (Cons i "is")
  then show ?case
    by (simp only: ptr_loop.simps) (intro obs.steady_rules assms; assumption)
qed

lemma walk_node_steady:
  "steady (same x c R) (walk_node x logical mn mx visit depth expect_level v)"
proof (induction x logical mn mx visit depth expect_level v rule: walk_node.induct)
  case (1 x logical mn mx visit depth expect_level v)
  then show ?case
    unfolding walk_node.simps [of x logical]
    by (intro obs.steady_rules read_node_steady ptr_loop_steady) auto
qed

lemma walk_steady: "steady (same x c R) (walk x root mn mx visit v)"
  by (simp add: walk_def walk_node_steady)

lemma get_steady: "steady (same x c R) (get x root k)"
  unfolding get_def by (intro obs.steady_rules walk_steady)


section \<open>Walks of any tree\<close>

text \<open>
  Whatever the shape of the tree, what a visitor sees are items of verified leaves with keys
  in range; this is the induction principle for properties that hold on damaged trees too.
\<close>

definition leaf_item :: "ext \<Rightarrow> fs \<Rightarrow> key \<Rightarrow> bytes \<Rightarrow> bool" where
  "leaf_item x c k d \<longleftrightarrow>
     (\<exists>l node i. node_at x c l = Inr node \<and> node_level node = 0 \<and> i < node_nritems node
        \<and> node_item node i = Inr (k, d))"

lemma leaf_loop_inv:
  assumes visit: "\<And>k d v go v'. Q v \<Longrightarrow> mn \<le> k \<Longrightarrow> k \<le> mx \<Longrightarrow>
      \<exists>i \<in> set is. node_item node i = Inr (k, d) \<Longrightarrow> visit k d v = Inr (go, v') \<Longrightarrow> Q v'"
    and "Q v" and "leaf_loop node mn mx visit is v = Inr (go, v')"
  shows "Q v'"
  using assms
proof (induction "is" arbitrary: v)
  case Nil
  then show ?case by simp
next
  case (Cons i "is")
  have IH: "leaf_loop node mn mx visit is w = Inr (go, v') \<Longrightarrow> Q w \<Longrightarrow> Q v'" for w
    using Cons.IH Cons.prems(1) by (metis list.set_intros(2))
  obtain k d where i: "node_item node i = Inr (k, d)"
    using Cons.prems(3) by (auto simp: rbind_Inr_iff)
  consider "k < mn" | "mn \<le> k" "mx < k" | "mn \<le> k" "k \<le> mx" by fastforce
  then show ?case
  proof cases
    case 3
    then obtain b w where vis: "visit k d v = Inr (b, w)"
      using Cons.prems(3) i by (auto simp: rbind_Inr_iff not_less [symmetric])
    have "Q w" by (rule Cons.prems(1) [OF Cons.prems(2) 3 _ vis]) (use i in auto)
    with 3 vis i Cons.prems(3) IH show ?thesis by (auto split: if_splits)
  qed (use Cons.prems(2,3) i IH in \<open>auto simp: not_less [symmetric]\<close>)
qed

lemma ptr_loop_ensures:
  assumes down: "\<And>child v. Q v \<Longrightarrow> ensures I (down child v) (\<lambda>(_, v'). Q v')" and "Q v"
  shows "ensures I (ptr_loop node mn mx down is n v) (\<lambda>(_, v'). Q v')"
  using assms(2)
proof (induction "is" arbitrary: v)
  case Nil
  then show ?case by (simp add: ensures_def)
next
  case (Cons i "is")
  have any: "ensures I (slift r) (\<lambda>_. True)" "ensures I (sret b) (\<lambda>_. True)"
    for r :: "err + 'c" and b :: bool
    by (simp_all add: ensures_def)
  have rest: "ensures I (case p of (go, v') \<Rightarrow>
        if go then ptr_loop node mn mx down is n v' else sret (False, v')) (\<lambda>(_, v'). Q v')"
    if "case p of (_, v') \<Rightarrow> Q v'" for p
    using that Cons.IH by (auto intro: ensures_ret)
  show ?case
    unfolding ptr_loop.simps
    by (rule ensures_bind [where P = "\<lambda>_. True"])
      (auto simp: Cons.prems split_beta intro!: ensures_lift ensures_if ensures_ret
        Cons.IH [unfolded split_beta]
        ensures_bind [where P = "\<lambda>_. True"] ensures_bind [OF down]
        rest [unfolded split_beta])
qed

lemma walk_node_ensures:
  assumes "\<And>k d v go v'. Q v \<Longrightarrow> mn \<le> k \<Longrightarrow> k \<le> mx \<Longrightarrow> leaf_item x c k d \<Longrightarrow>
      visit k d v = Inr (go, v') \<Longrightarrow> Q v'"
    and "Q v"
  shows "ensures (view x c R) (walk_node x logical mn mx visit depth e v) (\<lambda>(_, v'). Q v')"
  using assms
proof (induction x logical mn mx visit depth e v rule: walk_node.induct)
  case (1 x logical mn mx visit depth e v)
  show ?case
  proof (cases "8 < depth")
    case True
    then show ?thesis by (simp add: walk_node.simps ensures_def)
  next
    case False
    have body: "ensures (view x c R)
        (let n = node_nritems node in
         if wrong_level node e then sthrow (Fs (WrongLevel logical (node_level node) (the e)))
         else if node_level node = 0 then slift (leaf_loop node mn mx visit [0..<n] v)
         else ptr_loop node mn mx
            (\<lambda>child. walk_node x child mn mx visit (depth + 1) (Some (node_level node - 1)))
            [0..<n] n v) (\<lambda>(_, v'). Q v')"
      if node: "node_at x c logical = Inr node" for node
      unfolding Let_def
    proof (intro ensures_if ensures_throw ensures_lift)
      fix y assume l: "\<not> wrong_level node e" "node_level node = 0"
        and y: "leaf_loop node mn mx visit [0..<node_nritems node] v = Inr y"
      obtain go v' where y': "y = (go, v')" by (cases y)
      have item: "leaf_item x c k d"
        if "\<exists>i \<in> set [0..<node_nritems node]. node_item node i = Inr (k, d)" for k d
        using that l(2) node unfolding leaf_item_def by (metis atLeastLessThan_iff set_upt)
      have "Q v'"
        by (rule leaf_loop_inv [where Q = Q, OF _ "1.prems"(2) y [unfolded y']])
          (rule "1.prems"(1), assumption, assumption, assumption, erule item, assumption)
      then show "case y of (_, v') \<Rightarrow> Q v'" by (simp add: y')
    next
      assume l: "\<not> wrong_level node e" "node_level node \<noteq> 0"
      show "ensures (view x c R) (ptr_loop node mn mx
            (\<lambda>child. walk_node x child mn mx visit (depth + 1) (Some (node_level node - 1)))
            [0..<node_nritems node] (node_nritems node) v) (\<lambda>(_, v'). Q v')"
        by (rule ptr_loop_ensures [where Q = Q, OF _ "1.prems"(2)], rule "1.IH" [OF False refl l])
          (use "1.prems"(1) in blast)+
    qed
    have read: "ensures (view x c R) (read_node x logical) (\<lambda>node. node_at x c logical = Inr node)"
      by (rule ensures_computes [OF read_node_computes])
    from ensures_bind [OF read body] False show ?thesis
      unfolding walk_node.simps [of x logical] by (simp only: if_False)
  qed
qed

lemma walk_ensures:
  assumes "\<And>k d v go v'. Q v \<Longrightarrow> mn \<le> k \<Longrightarrow> k \<le> mx \<Longrightarrow> leaf_item x c k d \<Longrightarrow>
      visit k d v = Inr (go, v') \<Longrightarrow> Q v'"
    and "Q v"
  shows "ensures (view x c R) (walk x root mn mx visit v) (\<lambda>(_, v'). Q v')"
  unfolding walk_def by (rule walk_node_ensures) (use assms in blast)+

lemma get_ensures:
  "ensures (view x c R) (get x root k)
     (\<lambda>r. \<forall>d. r = Some d \<longrightarrow> leaf_item x c k d)"
  unfolding get_def
  by (rule ensures_bind [OF walk_ensures [where
        Q = "\<lambda>out. \<forall>d. out = Some d \<longrightarrow> leaf_item x c k d"]])
    (auto intro!: ensures_ret)

end
