(* ===== verification/Fs_Format.thy ===== *)
theory Fs_Format
  imports Fs_Walk
begin

text \<open>
  The disk format of tree blocks, written from the btrfs documentation of the header, item
  and key pointer layouts, and what the node accessors of src/fs.rs read back from it.  The
  second half builds small images from blocks in this format; the witnesses of the file
  system's properties read from them.
\<close>

section \<open>Tree blocks\<close>

definition node_header :: "u32 \<Rightarrow> bytes \<Rightarrow> u64 \<Rightarrow> nat \<Rightarrow> u8 \<Rightarrow> bytes" where
  "node_header crc fsid logical n level =
     to_le_bytes crc @ replicate 28 0 @ fsid @ to_le_bytes logical @ replicate 40 0
     @ to_le_bytes (word_of_nat n :: u32) @ [level]"

definition item_header :: "key \<times> nat \<times> nat \<Rightarrow> bytes" where
  "item_header e =
     (case e of (k, off, sz) \<Rightarrow>
        key_bytes k @ to_le_bytes (word_of_nat off :: u32) @ to_le_bytes (word_of_nat sz :: u32))"

definition key_ptr :: "key \<times> u64 \<times> u64 \<Rightarrow> bytes" where
  "key_ptr e =
     (case e of (k, child, generation) \<Rightarrow>
        key_bytes k @ to_le_bytes child @ to_le_bytes generation)"

text \<open>
  A leaf: headers of (key, offset, size), then an area holding the data; offsets count from
  the end of the node header, and the data may be placed anywhere in the area.
\<close>

definition leaf_bytes ::
  "u32 \<Rightarrow> bytes \<Rightarrow> u64 \<Rightarrow> (key \<times> nat \<times> nat) list \<Rightarrow> bytes \<Rightarrow> bytes" where
  "leaf_bytes crc fsid logical tbl area =
     node_header crc fsid logical (length tbl) 0 @ concat (map item_header tbl) @ area"

definition places :: "nat \<Rightarrow> bytes \<Rightarrow> key \<times> nat \<times> nat \<Rightarrow> key \<times> bytes \<Rightarrow> bool" where
  "places n area h e =
     (case h of (k, off, sz) \<Rightarrow>
        fst e = k \<and> length (snd e) = sz \<and> 25 * n \<le> off \<and> off + sz \<le> 25 * n + length area \<and>
        take sz (drop (off - 25 * n) area) = snd e)"

definition inner_bytes ::
  "u32 \<Rightarrow> bytes \<Rightarrow> u64 \<Rightarrow> u8 \<Rightarrow> (key \<times> u64 \<times> u64) list \<Rightarrow> bytes \<Rightarrow> bytes" where
  "inner_bytes crc fsid logical level ptrs rest =
     node_header crc fsid logical (length ptrs) level @ concat (map key_ptr ptrs) @ rest"

lemma length_node_header [simp]:
  "length fsid = 16 \<Longrightarrow> length (node_header crc fsid logical n level) = 101"
  by (simp add: node_header_def)

lemma length_item_header [simp]: "length (item_header e) = 25"
  by (simp add: item_header_def split_beta)

lemma length_key_ptr [simp]: "length (key_ptr e) = 33"
  by (simp add: key_ptr_def split_beta)

lemma length_item_headers [simp]: "length (concat (map item_header tbl)) = 25 * length tbl"
  by (induction tbl) auto

lemma length_key_ptrs [simp]: "length (concat (map key_ptr ptrs)) = 33 * length ptrs"
  by (induction ptrs) auto

lemma length_leaf_bytes:
  "length fsid = 16 \<Longrightarrow>
     length (leaf_bytes crc fsid logical tbl area) = 101 + 25 * length tbl + length area"
  by (simp add: leaf_bytes_def)

lemma length_inner_bytes:
  "length fsid = 16 \<Longrightarrow>
     length (inner_bytes crc fsid logical level ptrs rest) = 101 + 33 * length ptrs + length rest"
  by (simp add: inner_bytes_def)

text \<open>The header's fields.\<close>

lemma node_header_fields:
  assumes "length fsid = 16" and "n < 2 ^ 32"
  shows "node_level (node_header crc fsid logical n level @ rest) = level"
    and "node_nritems (node_header crc fsid logical n level @ rest) = n"
    and "u64_at (node_header crc fsid logical n level @ rest) 48 = Inr logical"
    and "u32_at (node_header crc fsid logical n level @ rest) 0 = Inr crc"
  using assms
  by (simp_all add: node_level_def node_nritems_def node_header_def u64_at_Inr_iff u32_at_Inr_iff
      le64.dec_enc le32.dec_enc nth_append unat_of_nat take_bit_nat_eq_self)

lemma map_nth_split:
  assumes "i < length xs"
  shows "concat (map f xs) = concat (map f (take i xs)) @ f (xs ! i) @ concat (map f (drop (Suc i) xs))"
  using concat_split_nth [of i "map f xs"] assms by (simp add: take_map drop_map)

lemma node_item_leaf:
  assumes fsid: "length fsid = 16" and i: "i < length tbl"
    and place: "places (length tbl) area (tbl ! i) e"
    and mem: "101 + 25 * length tbl + length area < 2 ^ 32"
  shows "node_item (leaf_bytes crc fsid logical tbl area) i = Inr e"
proof -
  obtain k off sz where h: "tbl ! i = (k, off, sz)" by (cases "tbl ! i")
  let ?b = "leaf_bytes crc fsid logical tbl area"
  let ?pre = "node_header crc fsid logical (length tbl) 0 @ concat (map item_header (take i tbl))"
  let ?post = "concat (map item_header (drop (Suc i) tbl)) @ area"
  have b: "?b = ?pre @ (key_bytes k @ to_le_bytes (word_of_nat off :: u32)
      @ to_le_bytes (word_of_nat sz :: u32)) @ ?post"
    unfolding leaf_bytes_def by (subst map_nth_split [OF i]) (simp add: h item_header_def)
  have pre: "length ?pre = 101 + i * 25" using fsid i by simp
  have e: "fst e = k" "length (snd e) = sz" "25 * length tbl \<le> off"
      "off + sz \<le> 25 * length tbl + length area"
      "take sz (drop (off - 25 * length tbl) area) = snd e"
    using place by (simp_all add: places_def h)
  have small: "unat (word_of_nat off :: u32) = off" "unat (word_of_nat sz :: u32) = sz"
    using e mem by (simp_all add: unat_of_nat take_bit_nat_eq_self)
  have idx: "101 + i * 25 + 25 < 2 ^ 64" using i mem by simp
  have "key_parse ?b (101 + i * 25) = Inr k"
    unfolding b using key_parse_mid [OF pre] idx by simp
  moreover have "u32_at ?b (101 + i * 25 + 17) = Inr (word_of_nat off)"
    unfolding b using u32_at_mid [of "?pre @ key_bytes k"] pre idx by simp
  moreover have "u32_at ?b (101 + i * 25 + 21) = Inr (word_of_nat sz)"
    unfolding b
    using u32_at_mid [of "?pre @ key_bytes k @ to_le_bytes (word_of_nat off :: u32)"] pre idx by simp
  moreover have "bytes ?b (101 + off) sz = Inr (snd e)"
    using e mem fsid by (simp add: leaf_bytes_def bytes_Inr_iff)
  ultimately show ?thesis
    by (simp add: node_item_def Let_def small e(1) [symmetric])
qed

lemma leaf_items:
  assumes "length fsid = 16" and "101 + 25 * length tbl + length area < 2 ^ 32"
    and "list_all2 (places (length tbl) area) tbl its"
  shows "rcollect (node_item (leaf_bytes crc fsid logical tbl area)) [0..<length tbl] = Inr its"
  unfolding rcollect_Inr_iff list_all2_conv_all_nth
proof (intro conjI allI impI)
  show "length [0..<length tbl] = length its" using assms(3) by (auto dest: list_all2_lengthD)
next
  fix i assume "i < length [0..<length tbl]"
  then have i: "i < length tbl" by simp
  then have "places (length tbl) area (tbl ! i) (its ! i)"
    by (rule list_all2_nthD [OF assms(3)])
  from node_item_leaf [OF assms(1) i this assms(2)] i
  show "node_item (leaf_bytes crc fsid logical tbl area) ([0..<length tbl] ! i) = Inr (its ! i)"
    by simp
qed

lemma node_ptr_inner:
  assumes fsid: "length fsid = 16" and i: "i < length ptrs"
    and mem: "101 + 33 * length ptrs + length rest < 2 ^ 32"
  shows "node_ptr (inner_bytes crc fsid logical level ptrs rest) i
     = Inr (fst (ptrs ! i), fst (snd (ptrs ! i)))"
proof -
  obtain k child g where h: "ptrs ! i = (k, child, g)" by (cases "ptrs ! i")
  let ?b = "inner_bytes crc fsid logical level ptrs rest"
  let ?pre = "node_header crc fsid logical (length ptrs) level @ concat (map key_ptr (take i ptrs))"
  let ?post = "concat (map key_ptr (drop (Suc i) ptrs)) @ rest"
  have b: "?b = ?pre @ (key_bytes k @ to_le_bytes child @ to_le_bytes g) @ ?post"
    unfolding inner_bytes_def by (subst map_nth_split [OF i]) (simp add: h key_ptr_def)
  have pre: "length ?pre = 101 + i * 33" using fsid i by simp
  have idx: "101 + i * 33 + 33 < 2 ^ 64" using i mem by simp
  have "key_parse ?b (101 + i * 33) = Inr k"
    unfolding b using key_parse_mid [OF pre] idx by simp
  moreover have "u64_at ?b (101 + i * 33 + 17) = Inr child"
    unfolding b using u64_at_mid [of "?pre @ key_bytes k"] pre idx by simp
  ultimately show ?thesis by (simp add: node_ptr_def Let_def h)
qed

lemma inner_ptrs:
  assumes "length fsid = 16" and "101 + 33 * length ptrs + length rest < 2 ^ 32"
  shows "rcollect (node_ptr (inner_bytes crc fsid logical level ptrs rest)) [0..<length ptrs]
     = Inr (map (\<lambda>e. (fst e, fst (snd e))) ptrs)"
  unfolding rcollect_Inr_iff list_all2_conv_all_nth
  using node_ptr_inner [OF assms(1) _ assms(2)] by simp


section \<open>Small images\<close>

text \<open>
  A file system of one device and one chunk, which maps the logical addresses from \<open>0x100000\<close>
  to the blocks of the image, with 4096-byte nodes and sectors; its checksum function is a
  constant, as are the decoders.
\<close>

definition sample_ext :: ext where
  "sample_ext = \<lparr>crc32c = (\<lambda>_. 7), crc32c_append = (\<lambda>seed b. seed + from_le_bytes b),
     ext_codecs = copy_codecs, ext_windows = False, ext_lowercase = (\<lambda>s. s)\<rparr>"

lemma sample_ext_windows [simp]: "\<not> ext_windows sample_ext"
  by (simp add: sample_ext_def)

definition sample_map :: chunk where
  "sample_map =
     \<lparr>ch_start = 0x100000, ch_length = 0x100000, ch_ty = 1, ch_stripes = [(1, 0)]\<rparr>"

definition sample_sb :: "u64 \<Rightarrow> u64 \<Rightarrow> superblock" where
  "sample_sb root chunk_root =
     sample_superblock\<lparr>sb_root := root, sb_chunk_root := chunk_root,
       sb_sys_chunk_array := key_bytes (Key 256 228 0x100000) @ chunk_bytes sample_map\<rparr>"

definition sample_fs :: "u64 \<Rightarrow> u64 \<Rightarrow> bytes list \<Rightarrow> fs" where
  "sample_fs root chunk_root blocks =
     \<lparr>fs_devs = [(1, image_device (concat blocks))],
      fs_sb = sample_sb root chunk_root, fs_chunks = [(0x100000, sample_map)],
      fs_nodes = [], fs_roots = [], fs_last_extent = None\<rparr>"

definition block_addr :: "nat \<Rightarrow> u64" where
  "block_addr i = 0x100000 + word_of_nat (i * 4096)"

definition sample_leaf :: "u64 \<Rightarrow> (key \<times> bytes) list \<Rightarrow> bytes" where
  "sample_leaf logical its =
     (let n = length its; area = concat (map snd its) in
      leaf_bytes 7 (replicate 16 0xAB) logical
        (map (\<lambda>i. (fst (its ! i), 25 * n + length (concat (map snd (take i its))),
                   length (snd (its ! i)))) [0..<n])
        (area @ replicate (3995 - 25 * n - length area) 0))"

definition sample_inner :: "u64 \<Rightarrow> u8 \<Rightarrow> (key \<times> u64) list \<Rightarrow> bytes" where
  "sample_inner logical level ptrs =
     inner_bytes 7 (replicate 16 0xAB) logical level (map (\<lambda>(k, child). (k, child, 1)) ptrs)
       (replicate (3995 - 33 * length ptrs) 0)"

text \<open>A block with contents good enough to be read as the node at its address.\<close>

definition sample_block :: "u64 \<Rightarrow> bytes \<Rightarrow> bool" where
  "sample_block logical b \<longleftrightarrow>
     length b = 4096 \<and> u64_at b 48 = Inr logical \<and> u32_at b 0 = Inr 7 \<and> node_nritems b \<le> 159"

lemma unat_block_addr: "i < 256 \<Longrightarrow> unat (block_addr i) = 0x100000 + i * 4096"
proof -
  assume "i < 256"
  then have "unat (word_of_nat (i * 4096) :: u64) = i * 4096"
    by (intro unat_of_nat_u64) simp
  with \<open>i < 256\<close> show ?thesis
    by (simp add: block_addr_def unat_word_ariths)
qed

lemma block_addr_zero: "block_addr 0 = 0x100000"
  by (simp add: block_addr_def)

lemma sample_mirrors:
  assumes "i * 4096 + n < 0x100000" and "i < 256"
  shows "mirrors (sample_fs root chunk_root blocks) (block_addr i) (word_of_nat n)
     = Inr [(image_device (concat blocks), word_of_nat (i * 4096))]"
proof -
  have n: "unat (word_of_nat n :: u64) = n" using assms by (intro unat_of_nat_u64) simp
  have "unat (block_addr i + word_of_nat n) = 0x100000 + i * 4096 + n"
    using assms by (simp add: unat_plus_nowrap n unat_block_addr)
  then have "block_addr i + word_of_nat n \<le> 0x200000"
    using assms by (simp add: word_le_nat_alt)
  moreover have "0x100000 \<le> block_addr i"
    using assms by (simp add: word_le_nat_alt unat_block_addr)
  moreover have "block_addr i - 0x100000 = word_of_nat (i * 4096)"
    by (simp add: block_addr_def)
  ultimately show ?thesis
    by (simp add: mirrors_def sample_fs_def sample_map_def bt_floor_def stripe_mirrors_def
        map_filter_def striped_def)
qed

lemma sample_node_at:
  assumes i: "i < length blocks" and n: "length blocks < 256"
    and len: "\<And>b. b \<in> set blocks \<Longrightarrow> length b = 4096"
    and ok: "sample_block (block_addr i) (blocks ! i)"
  shows "node_at sample_ext (sample_fs root chunk_root blocks) (block_addr i) = Inr (blocks ! i)"
proof -
  let ?s = "sample_fs root chunk_root blocks"
  let ?img = "concat blocks"
  have sz: "unat (sb_nodesize (fs_sb ?s)) = 4096"
    by (simp add: sample_fs_def sample_sb_def sample_superblock_def)
  have img: "length ?img = 4096 * length blocks" by (rule length_concat_fixed [OF len])
  define p :: u64 where "p = word_of_nat (i * 4096)"
  have phys: "unat p = i * 4096"
    unfolding p_def using i n by (intro unat_of_nat_u64) simp
  have "device_read (image_device ?img) p 4096 = Inr (take 4096 (drop (i * 4096) ?img))"
    using device_read_serves [OF image_device_serves, of ?img p 4096] i n img
    by (simp add: phys)
  also have "take 4096 (drop (i * 4096) ?img) = blocks ! i"
    using concat_fixed_nth [of blocks 4096 i "[]"] len i by simp
  finally have copy: "read_copy (fs_sb ?s) (image_device ?img, p) = Inr (blocks ! i)"
    by (simp add: read_copy_def sz)
  have good: "block_ok sample_ext (fs_sb ?s) (block_addr i) (blocks ! i)"
      "items_fit (fs_sb ?s) (blocks ! i)"
    using ok by (simp_all add: sample_block_def block_ok_def items_fit_def sz sample_ext_def)
  have "mirrors ?s (block_addr i) (word_of_nat 4096)
      = Inr [(image_device ?img, p)]"
    unfolding p_def by (rule sample_mirrors) (use i n in simp_all)
  then show ?thesis
    using copy good by (simp add: node_at_def sz node_from_Cons del: node_from.simps)
qed

lemma sample_leaf_reads:
  assumes fit: "25 * length its + length (concat (map snd its)) \<le> 3995"
  shows "sample_block logical (sample_leaf logical its)" and "node_level (sample_leaf logical its) = 0"
    and "rcollect (node_item (sample_leaf logical its)) [0..<node_nritems (sample_leaf logical its)]
      = Inr its"
proof -
  let ?n = "length its"
  let ?area = "concat (map snd its) @ replicate (3995 - 25 * ?n - length (concat (map snd its))) 0"
  let ?tbl = "map (\<lambda>i. (fst (its ! i), 25 * ?n + length (concat (map snd (take i its))),
                   length (snd (its ! i)))) [0..<?n]"
  have leaf: "sample_leaf logical its = leaf_bytes 7 (replicate 16 0xAB) logical ?tbl ?area"
    by (simp add: sample_leaf_def Let_def)
  have n: "?n < 2 ^ 32" using fit by simp
  note fields = node_header_fields [of "replicate 16 0xAB" ?n, OF _ n]
  have nritems: "node_nritems (sample_leaf logical its) = ?n"
    unfolding leaf leaf_bytes_def by (simp add: fields)
  have "length (sample_leaf logical its) = 4096"
    unfolding leaf using fit by (simp add: length_leaf_bytes)
  moreover have "u64_at (sample_leaf logical its) 48 = Inr logical"
    "u32_at (sample_leaf logical its) 0 = Inr 7"
    unfolding leaf leaf_bytes_def by (simp_all add: fields)
  ultimately show "sample_block logical (sample_leaf logical its)"
    using fit by (simp add: sample_block_def nritems)
  show "node_level (sample_leaf logical its) = 0"
    unfolding leaf leaf_bytes_def by (simp add: fields)
  have "list_all2 (places (length ?tbl) ?area) ?tbl its"
    unfolding list_all2_conv_all_nth
  proof (intro conjI allI impI)
    fix i assume "i < length ?tbl"
    then have i: "i < ?n" by simp
    have split: "concat (map snd its) = concat (map snd (take i its)) @ snd (its ! i)
        @ concat (map snd (drop (Suc i) its))"
      by (rule map_nth_split [OF i])
    have "length (concat (map snd (take i its))) + length (snd (its ! i)) \<le> length ?area"
      by (subst split) simp
    moreover have "take (length (snd (its ! i)))
        (drop (length (concat (map snd (take i its)))) ?area) = snd (its ! i)"
      by (subst split) simp
    ultimately show "places (length ?tbl) ?area (?tbl ! i) (its ! i)"
      using i by (simp add: places_def)
  qed simp
  from leaf_items [OF _ _ this, of "replicate 16 0xAB" 7 logical] fit
  show "rcollect (node_item (sample_leaf logical its)) [0..<node_nritems (sample_leaf logical its)]
      = Inr its"
    unfolding nritems unfolding leaf by simp
qed

lemma sample_inner_reads:
  assumes fit: "length ptrs \<le> 121"
  shows "sample_block logical (sample_inner logical level ptrs)"
    and "node_level (sample_inner logical level ptrs) = level"
    and "rcollect (node_ptr (sample_inner logical level ptrs))
      [0..<node_nritems (sample_inner logical level ptrs)] = Inr ptrs"
proof -
  let ?n = "length ptrs"
  have n: "?n < 2 ^ 32" using fit by simp
  note fields = node_header_fields [of "replicate 16 0xAB" ?n, OF _ n]
  note inner = sample_inner_def inner_bytes_def
  have nritems: "node_nritems (sample_inner logical level ptrs) = ?n"
    unfolding inner by (simp add: fields)
  have "length (sample_inner logical level ptrs) = 4096"
    unfolding sample_inner_def using fit by (simp add: length_inner_bytes)
  moreover have "u64_at (sample_inner logical level ptrs) 48 = Inr logical"
    "u32_at (sample_inner logical level ptrs) 0 = Inr 7"
    unfolding inner by (simp_all add: fields)
  ultimately show "sample_block logical (sample_inner logical level ptrs)"
    using fit by (simp add: sample_block_def nritems)
  show "node_level (sample_inner logical level ptrs) = level"
    unfolding inner by (simp add: fields)
  show "rcollect (node_ptr (sample_inner logical level ptrs))
      [0..<node_nritems (sample_inner logical level ptrs)] = Inr ptrs"
    unfolding nritems unfolding sample_inner_def
    using inner_ptrs [of "replicate 16 0xAB" "map (\<lambda>(k, child). (k, child, 1)) ptrs"
        "replicate (3995 - 33 * length ptrs) 0" 7 logical level] fit
    by (simp add: comp_def split_beta)
qed


text \<open>The trees in such an image.\<close>

definition image_ok :: "bytes list \<Rightarrow> bool" where
  "image_ok blocks \<longleftrightarrow> length blocks < 256 \<and> list_all (\<lambda>b. length b = 4096) blocks"

lemma sample_leaf_node:
  assumes "image_ok blocks" and i: "i < length blocks"
    and b: "blocks ! i = sample_leaf (block_addr i) its"
    and fit: "25 * length its + length (concat (map snd its)) \<le> 3995"
  shows "node_at sample_ext (sample_fs root chunk_root blocks) (block_addr i)
     = Inr (sample_leaf (block_addr i) its)"
  using sample_node_at [OF i, of root chunk_root] sample_leaf_reads(1) [OF fit] assms(1) b
  by (simp add: image_ok_def list_all_iff)

lemma sample_inner_node:
  assumes "image_ok blocks" and i: "i < length blocks"
    and b: "blocks ! i = sample_inner (block_addr i) level ptrs" and fit: "length ptrs \<le> 121"
  shows "node_at sample_ext (sample_fs root chunk_root blocks) (block_addr i)
     = Inr (sample_inner (block_addr i) level ptrs)"
  using sample_node_at [OF i, of root chunk_root] sample_inner_reads(1) [OF fit] assms(1) b
  by (simp add: image_ok_def list_all_iff)

lemma sample_tree_leaf:
  assumes "image_ok blocks" and "i < length blocks"
    and "blocks ! i = sample_leaf (block_addr i) its"
    and fit: "25 * length its + length (concat (map snd its)) \<le> 3995"
    and "sorted_wrt (<) (map fst its)" and "e = None \<or> e = Some 0"
  shows "tree_items sample_ext (sample_fs root chunk_root blocks) (Suc d) (block_addr i) e = Some its"
  using sample_leaf_node [OF assms(1-4), of root chunk_root] sample_leaf_reads(2,3) [OF fit] assms(5,6)
  by (auto simp: wrong_level_def)

lemma sample_tree_inner:
  assumes "image_ok blocks" and "i < length blocks"
    and "blocks ! i = sample_inner (block_addr i) level ptrs"
    and fit: "length ptrs \<le> 121" and "e = None \<or> e = Some level" and "level \<noteq> 0"
  shows "tree_items sample_ext (sample_fs root chunk_root blocks) (Suc d) (block_addr i) e
     = join_kids (map (\<lambda>(k, child). (k, tree_items sample_ext
         (sample_fs root chunk_root blocks) d child (Some (level - 1)))) ptrs)"
  using sample_inner_node [OF assms(1-4), of root chunk_root] sample_inner_reads(2,3) [OF fit]
    assms(5,6)
  by (auto simp: wrong_level_def)

lemma sample_items_leaf:
  assumes "image_ok blocks" and "i < length blocks"
    and "blocks ! i = sample_leaf (block_addr i) its"
    and "25 * length its + length (concat (map snd its)) \<le> 3995"
    and "sorted_wrt (<) (map fst its)"
  shows "items sample_ext (sample_fs root chunk_root blocks) (block_addr i) = Some its"
  using sample_tree_leaf [OF assms, of None root chunk_root 8]
  by (simp add: items_def eval_nat_numeral del: tree_items.simps)

lemma sample_fs_fresh: "nodes_ok x (sample_fs root chunk_root blocks)"
  by (simp add: nodes_ok_def sample_fs_def)

text \<open>A tree of two levels.\<close>

definition two_level_a :: "(key \<times> bytes) list" where
  "two_level_a = [(Key 256 1 0, [1]), (Key 256 12 256, [2, 2])]"

definition two_level_b :: "(key \<times> bytes) list" where
  "two_level_b = [(Key 257 1 0, []), (Key 258 1 0, [4])]"

definition two_level_blocks :: "bytes list" where
  "two_level_blocks =
     [sample_inner (block_addr 0) 1 [(Key 256 1 0, block_addr 1), (Key 257 1 0, block_addr 2)],
      sample_leaf (block_addr 1) two_level_a, sample_leaf (block_addr 2) two_level_b]"

definition two_level_fs :: fs where
  "two_level_fs = sample_fs (block_addr 0) (block_addr 0) two_level_blocks"

lemma two_level_ok: "image_ok two_level_blocks"
proof -
  have "length (sample_leaf (block_addr 1) two_level_a) = 4096"
    "length (sample_leaf (block_addr 2) two_level_b) = 4096"
    using sample_leaf_reads(1) [of two_level_a "block_addr 1"]
      sample_leaf_reads(1) [of two_level_b "block_addr 2"]
    by (simp_all add: sample_block_def two_level_a_def two_level_b_def)
  moreover have "length (sample_inner (block_addr 0) 1 [(Key 256 1 0, block_addr 1), (Key 257 1 0, block_addr 2)])
      = 4096"
    using sample_inner_reads(1) [of "[(Key 256 1 0, block_addr 1), (Key 257 1 0, block_addr 2)]"
        "block_addr 0" 1]
    by (simp add: sample_block_def)
  ultimately show ?thesis by (simp add: image_ok_def two_level_blocks_def)
qed

lemma two_level_items:
  "items sample_ext two_level_fs (block_addr 0) = Some (two_level_a @ two_level_b)"
proof -
  note leaf = sample_tree_leaf [OF two_level_ok, of _ _ "Some 0" "block_addr 0" "block_addr 0" 7]
  have nine: "(9 :: nat) = Suc (Suc 7)" by simp
  have "tree_items sample_ext two_level_fs (Suc 7) (block_addr 1) (Some 0) = Some two_level_a"
    unfolding two_level_fs_def
    by (rule leaf) (simp_all add: two_level_blocks_def two_level_a_def less_key_def)
  moreover have "tree_items sample_ext two_level_fs (Suc 7) (block_addr 2) (Some 0) = Some two_level_b"
    unfolding two_level_fs_def
    by (rule leaf) (simp_all add: two_level_blocks_def two_level_b_def less_key_def)
  moreover have "list_all (\<lambda>e. Key 256 1 0 \<le> fst e \<and> fst e < Key 257 1 0) two_level_a"
    "list_all (\<lambda>e. Key 257 1 0 \<le> fst e) two_level_b" "two_level_a \<noteq> []" "two_level_b \<noteq> []"
    by (simp_all add: two_level_a_def two_level_b_def less_key_def less_eq_key_def)
  ultimately show ?thesis
    unfolding items_def nine two_level_fs_def
    by (subst sample_tree_inner [OF two_level_ok, where level = 1 and
            ptrs = "[(Key 256 1 0, block_addr 1), (Key 257 1 0, block_addr 2)]"])
      (simp_all add: two_level_blocks_def del: tree_items.simps)
qed

end
