(* ===== verification/Fs_Walk_Facts.thy ===== *)
theory Fs_Walk_Facts
  imports Fs_Format
begin

text \<open>
  What the lowest layer of the file system promises: where a logical address is read, which
  copies of a block are used, and what a walk visits.
\<close>

section \<open>Addresses\<close>



text \<open>
  Without that proviso the bound is not kept: the check adds in 64 bits, so in a release
  build a range that wraps around passes it.
\<close>

lemma mirrors_wrap:
  "mirrors (sample_fs 0 0 []) (- 1000) 4096 = Inr [(image_device [], - 1000 - 0x100000)]"
  by (simp add: mirrors_def sample_fs_def sample_map_def bt_floor_def stripe_mirrors_def map_filter_def striped_def)

text \<open>
  File data is read from the first mirror that can be read, in stripe order: an
  unreadable sector in one copy is never an error while another copy can be read.
\<close>

theorem read_logical_first_mirror:
  "read_logical s logical len = Inr b \<longleftrightarrow>
     (\<exists>as dev phys bs. mirrors s logical (word_of_nat len) = Inr (as @ (dev, phys) # bs)
        \<and> device_read dev phys len = Inr b
        \<and> (\<forall>(d, p) \<in> set as. \<not> is_ok (device_read d p len)))"
  by (auto simp: read_logical_def rbind_Inr_iff first_readable_Inr_iff split_beta) blast

text \<open>A chunk with two copies, the first of them on a device that cannot be read.\<close>

definition mirrored_fs :: fs where
  "mirrored_fs = (sample_fs 0 0 [])
     \<lparr>fs_devs := [(1, image_device []), (2, image_device [5, 6, 7])],
      fs_chunks := [(0x100000, sample_map\<lparr>ch_stripes := [(1, 0), (2, 0)]\<rparr>)]\<rparr>"

theorem read_logical_first_mirror_witness:
  "read_logical mirrored_fs 0x100000 3 = Inr [5, 6, 7]"
proof -
  have "mirrors mirrored_fs 0x100000 3 = Inr [(image_device [], 0), (image_device [5, 6, 7], 0)]"
    by (simp add: mirrored_fs_def mirrors_def sample_fs_def sample_map_def bt_floor_def
        stripe_mirrors_def map_filter_def striped_def)
  moreover have "\<not> is_ok (device_read (image_device []) 0 3)"
    "device_read (image_device [5, 6, 7]) 0 3 = Inr [5, 6, 7]"
    using dev.read_past [OF image_device_serves, of "[]" 3 0]
      device_read_serves [OF image_device_serves, of "[5, 6, 7]" 0 3] by simp_all
  ultimately show ?thesis
    by (subst read_logical_first_mirror, intro exI [of _ "[(image_device [], 0)]"] exI conjI)
      simp_all
qed

text \<open>
  C5: A tree block is taken from the first mirror whose copy can be read, carries its own
  address and (with CRC32C) its own checksum; copies before it that fail these are passed
  over.  Whether it comes from the cache or from a disk makes no difference, and every
  block the cache holds stays one that a fresh read would give.
\<close>

theorem read_node_first_good_copy:
  assumes "nodes_ok x s" and "4096 \<le> unat (sb_nodesize (fs_sb s))"
  shows "(fst (read_node x l s) = Inr n \<longleftrightarrow>
      (\<exists>as m bs. mirrors s l (word_of_nat (unat (sb_nodesize (fs_sb s)))) = Inr (as @ m # bs)
        \<and> read_copy (fs_sb s) m = Inr n \<and> block_ok x (fs_sb s) l n \<and> items_fit (fs_sb s) n
        \<and> (\<forall>a \<in> set as. \<forall>b. read_copy (fs_sb s) a = Inr b \<longrightarrow> \<not> block_ok x (fs_sb s) l b)))
    \<and> nodes_ok x (snd (read_node x l s)) \<and> core (snd (read_node x l s)) = core s"
proof -
  have v: "view x (core s) any_caches s" using assms(1) by (simp add: view_def any_caches_def)
  have "fst (read_node x l s) = node_at x s l \<and> view x (core s) any_caches (snd (read_node x l s))"
    using computesD [OF read_node_computes v, of l] by (simp add: node_at_core)
  moreover have "node_at x s l = Inr n \<longleftrightarrow>
      (\<exists>as m bs. mirrors s l (word_of_nat (unat (sb_nodesize (fs_sb s)))) = Inr (as @ m # bs)
        \<and> read_copy (fs_sb s) m = Inr n \<and> block_ok x (fs_sb s) l n \<and> items_fit (fs_sb s) n
        \<and> (\<forall>a \<in> set as. \<forall>b. read_copy (fs_sb s) a = Inr b \<longrightarrow> \<not> block_ok x (fs_sb s) l b))"
    unfolding node_at_def rbind_Inr_iff node_from_Inr_iff [OF assms(2)]
    by (auto simp del: split_paired_Ex split_paired_All)
  ultimately show ?thesis by (simp add: view_def)
qed

theorem read_node_first_good_copy_witness:
  "fst (read_node sample_ext (block_addr 2) two_level_fs)
     = Inr (sample_leaf (block_addr 2) two_level_b)
   \<and> nodes_ok sample_ext (snd (read_node sample_ext (block_addr 2) two_level_fs))"
proof -
  have fresh: "nodes_ok sample_ext two_level_fs"
    by (simp add: two_level_fs_def sample_fs_fresh)
  have "4096 \<le> unat (sb_nodesize (fs_sb two_level_fs))"
    by (simp add: two_level_fs_def sample_fs_def sample_sb_def sample_superblock_def)
  note good = read_node_first_good_copy [OF fresh this, of "block_addr 2"]
  have "node_at sample_ext two_level_fs (block_addr 2) = Inr (sample_leaf (block_addr 2) two_level_b)"
    unfolding two_level_fs_def
    by (rule sample_leaf_node [OF two_level_ok]) (simp_all add: two_level_blocks_def two_level_b_def)
  moreover have "map_of (fs_nodes two_level_fs) (block_addr 2) = None"
    by (simp add: two_level_fs_def sample_fs_def)
  ultimately have "fst (read_node sample_ext (block_addr 2) two_level_fs)
      = Inr (sample_leaf (block_addr 2) two_level_b)"
    by (simp add: read_node_def)
  with good show ?thesis by blast
qed

section \<open>Walks\<close>

text \<open>
  C2: The walk of a search tree of up to nine levels visits exactly the items whose keys lie
  between the bounds, each once, in key order, until the visitor stops it; the subtrees it
  skips hold none of them.  An error of the visitor is the walk's.
\<close>

theorem walk_visits_range:
  assumes "nodes_ok x s" and "items x s root = Some its" and "mn \<le> mx"
  shows "rbind (fst (walk x root mn mx visit v s)) (\<lambda>(_, v'). Inr v')
     = visit_all visit (filter (\<lambda>e. mn \<le> fst e \<and> fst e \<le> mx) its) v"
proof -
  have v: "view x (core s) any_caches s" using assms(1) by (simp add: view_def any_caches_def)
  have its: "items x (core s) root = Some its" using assms(2) by (simp add: items_core)
  show ?thesis
    using computesD [OF walk_computes [OF its assms(3)] v, of visit v]
      visit_items_in_range [OF items_sorted [OF its], of mn mx visit v]
    by (simp add: in_range_def)
qed

text \<open>The visitor that collects keys, for the witness.\<close>

definition collect_keys :: "key list visitor" where
  "collect_keys k d v = Inr (True, v @ [k])"

theorem walk_visits_range_witness:
  "rbind (fst (walk sample_ext (block_addr 0) (Key 256 2 0) (Key 257 255 0) collect_keys []
       two_level_fs)) (\<lambda>(_, ks). Inr ks)
     = Inr [Key 256 12 256, Key 257 1 0]"
proof -
  have "nodes_ok sample_ext two_level_fs"
    by (simp add: two_level_fs_def sample_fs_fresh)
  from walk_visits_range [OF this two_level_items, of "Key 256 2 0" "Key 257 255 0"
      collect_keys "[]"]
  show ?thesis by (simp add: two_level_a_def two_level_b_def collect_keys_def)
qed

text \<open>
  Looking up one key gives the data of the item with exactly that key, and nothing when
  the tree has none; neighbouring keys never answer for it.
\<close>

theorem get_is_lookup:
  assumes "nodes_ok x s" and "items x s root = Some its"
  shows "fst (get x root k s) = Inr (map_of its k)"
proof -
  have "view x (core s) any_caches s" using assms(1) by (simp add: view_def any_caches_def)
  from computesD [OF get_computes this, of root its k] assms(2) show ?thesis
    by (simp add: items_core)
qed

theorem get_is_lookup_witness:
  "fst (get sample_ext (block_addr 0) (Key 258 1 0) two_level_fs) = Inr (Some [4])
   \<and> fst (get sample_ext (block_addr 0) (Key 257 1 1) two_level_fs) = Inr None"
proof -
  have "nodes_ok sample_ext two_level_fs"
    by (simp add: two_level_fs_def sample_fs_fresh)
  from get_is_lookup [OF this two_level_items] show ?thesis
    by (simp add: two_level_a_def two_level_b_def)
qed

text \<open>
  On any device contents, damaged or hostile trees included, a lookup that returns data
  returns the data of an item with the key asked for, out of a leaf that was verified: a
  node of the right size, at its own address, with its checksum.
\<close>

theorem get_returns_verified_data:
  assumes "nodes_ok x s" and "4096 \<le> unat (sb_nodesize (fs_sb s))"
    and "fst (get x root k s) = Inr (Some d)"
  shows "\<exists>l node i. node_ok x s l node \<and> node_level node = 0 \<and> i < node_nritems node
     \<and> node_item node i = Inr (k, d)"
proof -
  have v: "view x (core s) any_caches s" using assms(1) by (simp add: view_def any_caches_def)
  obtain t where "get x root k s = (Inr (Some d), t)"
    using assms(3) by (cases "get x root k s") auto
  from ensuresD [OF get_ensures v this] have "leaf_item x (core s) k d" by simp
  then obtain l node i where n: "node_at x s l = Inr node" "node_level node = 0"
      "i < node_nritems node" "node_item node i = Inr (k, d)"
    by (auto simp: leaf_item_def node_at_core)
  from node_at_ok [OF assms(2) n(1)] n(2-4) show ?thesis by blast
qed

theorem get_returns_verified_data_witness:
  "\<exists>l node i. node_ok sample_ext two_level_fs l node \<and> node_item node i = Inr (Key 258 1 0, [4])"
proof -
  have fresh: "nodes_ok sample_ext two_level_fs"
    by (simp add: two_level_fs_def sample_fs_fresh)
  then have v: "view sample_ext (core two_level_fs) any_caches two_level_fs"
    by (simp add: view_def any_caches_def)
  have "items sample_ext (core two_level_fs) (block_addr 0) = Some (two_level_a @ two_level_b)"
    by (simp add: items_core two_level_items)
  from computesD [OF get_computes [OF this] v, of "Key 258 1 0"]
  have "fst (get sample_ext (block_addr 0) (Key 258 1 0) two_level_fs) = Inr (Some [4])"
    by (simp add: two_level_a_def two_level_b_def)
  moreover have "4096 \<le> unat (sb_nodesize (fs_sb two_level_fs))"
    by (simp add: two_level_fs_def sample_fs_def sample_sb_def sample_superblock_def)
  ultimately show ?thesis
    using get_returns_verified_data [OF fresh] by blast
qed

end
