(* ===== verification/Fs_Trees.thy ===== *)
theory Fs_Trees
  imports Fs_Walk
begin

text \<open>
  The trees of a file system (src/fs.rs): the root of a subvolume tree, found in the root
  tree and cached, inodes, the extents of a file, and whether a subvolume is a snapshot.
\<close>

section \<open>Tree roots\<close>

text \<open>
  \<open>Fs::tree\<close>: the newest ROOT_ITEM of the subvolume.  \<open>tree_load\<close> is its body past the cache.
\<close>

definition tree_load :: "ext \<Rightarrow> u64 \<Rightarrow> (fs, tree_root) eff" where
  "tree_load x tid =
     sbind (sget (\<lambda>s. sb_root (fs_sb s))) (\<lambda>root.
     sbind
       (walk x root (Key tid ROOT_ITEM_KEY 0) (Key tid ROOT_ITEM_KEY (- 1))
          (\<lambda>_ d _. Inr (True, Some d)) None)
       (\<lambda>(_, item).
     case item of
       None \<Rightarrow> sthrow (Fs (NoSuchTree tid))
     | Some it \<Rightarrow>
         slift
           (rbind (u64_at it 176) (\<lambda>bytenr.
            rbind (u64_at it 168) (\<lambda>dirid.
            Inr \<lparr>tr_bytenr = bytenr, tr_root_dirid = dirid\<rparr>)))))"

definition tree :: "ext \<Rightarrow> u64 \<Rightarrow> (fs, tree_root) eff" where
  "tree x tid =
     sbind (sget (\<lambda>s. map_of (fs_roots s) tid)) (\<lambda>cached.
     case cached of
       Some r \<Rightarrow> sret r
     | None \<Rightarrow>
         sbind (tree_load x tid) (\<lambda>r.
         sbind (smodify (\<lambda>s. s\<lparr>fs_roots := hm_insert tid r (fs_roots s)\<rparr>)) (\<lambda>_. sret r)))"

definition root :: "ext \<Rightarrow> (fs, loc) eff" where
  "root x = sbind (tree x FS_TREE_OBJECTID) (\<lambda>r. sret (Loc FS_TREE_OBJECTID (tr_root_dirid r)))"

section \<open>Inodes, extents, snapshots\<close>

text \<open>The stand-in for a nested subvolume inside a snapshot.\<close>

definition is_placeholder :: "loc \<Rightarrow> bool" where
  "is_placeholder l = (loc_tree l = 0)"

definition placeholder_inode :: inode where
  "placeholder_inode =
     \<lparr>i_size = 0, i_nlink = 1, i_uid = 0, i_gid = 0, i_mode = 0x41ED, i_mtime_sec = 0,
      i_mtime_nsec = 0\<rparr>"

definition inode :: "ext \<Rightarrow> loc \<Rightarrow> (fs, inode) eff" where
  "inode x l =
     (if is_placeholder l then sret placeholder_inode
      else
        sbind (tree x (loc_tree l)) (\<lambda>r.
        sbind (get x (tr_bytenr r) (Key (loc_ino l) INODE_ITEM_KEY 0)) (\<lambda>item.
        case item of
          None \<Rightarrow> sthrow (Fs (NoSuchInode (loc_ino l) (loc_tree l)))
        | Some it \<Rightarrow> slift (inode_parse it))))"

definition extents :: "ext \<Rightarrow> loc \<Rightarrow> (fs, extent list) eff" where
  "extents x l =
     sbind (tree x (loc_tree l)) (\<lambda>r.
     sbind
       (walk x (tr_bytenr r) (Key (loc_ino l) EXTENT_DATA_KEY 0)
          (Key (loc_ino l) EXTENT_DATA_KEY (- 1))
          (\<lambda>k d out. rbind (extent_parse (koffset k) d) (\<lambda>e. Inr (True, out @ [e]))) [])
       (\<lambda>(_, out). sret out))"

text \<open>A root item carries its parent's uuid at 263; all zeros in a subvolume that is no snapshot.\<close>

definition snapshot_flag :: "bytes \<Rightarrow> err + bool" where
  "snapshot_flag d =
     (if length d < 279 then Inr False
      else rbind (bytes d 263 16) (\<lambda>u. Inr (list_ex (\<lambda>b. b \<noteq> 0) u)))"

definition is_snapshot :: "ext \<Rightarrow> u64 \<Rightarrow> (fs, bool) eff" where
  "is_snapshot x tid =
     sbind (sget (\<lambda>s. sb_root (fs_sb s))) (\<lambda>root.
     sbind
       (walk x root (Key tid ROOT_ITEM_KEY 0) (Key tid ROOT_ITEM_KEY (- 1))
          (\<lambda>_ d _. rbind (snapshot_flag d) (\<lambda>snap. Inr (True, snap))) False)
       (\<lambda>(_, snap). sret snap))"

section \<open>The root cache is not observable\<close>

definition roots_ok :: "ext \<Rightarrow> fs \<Rightarrow> (u64 \<times> tree_root) list \<Rightarrow> bool" where
  "roots_ok x c roots \<longleftrightarrow>
     (\<forall>tid r. map_of roots tid = Some r \<longrightarrow> fst (tree_load x tid c) = Inr r)"

definition sound_roots ::
  "ext \<Rightarrow> fs \<Rightarrow> ((u64 \<times> bytes) option \<Rightarrow> bool) \<Rightarrow> (u64 \<times> tree_root) list
     \<Rightarrow> (u64 \<times> bytes) option \<Rightarrow> bool" where
  "sound_roots x c Q roots le \<longleftrightarrow> roots_ok x c roots \<and> Q le"

text \<open>The invariant of an open file system.\<close>

definition caches_ok :: "ext \<Rightarrow> fs \<Rightarrow> bool" where
  "caches_ok x s \<longleftrightarrow> nodes_ok x s \<and> roots_ok x (core s) (fs_roots s)"

lemma caches_ok_core: "caches_ok x (core s)"
  by (simp add: caches_ok_def nodes_ok_def roots_ok_def)

lemma view_sound: "caches_ok x s \<Longrightarrow> core s = c \<Longrightarrow> view x c (sound_roots x c (\<lambda>_. True)) s"
  by (auto simp: caches_ok_def view_def sound_roots_def)

lemma view_caches_ok: "view x c (sound_roots x c Q) s \<Longrightarrow> caches_ok x s \<and> core s = c"
  by (auto simp: caches_ok_def view_def sound_roots_def)

lemma get_sb_steady: "(\<And>s. f s = g (core s)) \<Longrightarrow> steady (same x c R) (sget f)"
  by (rule obs.steady_get) (simp add: same_def view_def)

lemma get_root_steady: "steady (same x c R) (sget (\<lambda>s. sb_root (fs_sb s)))"
  by (rule get_sb_steady [where g = "\<lambda>s. sb_root (fs_sb s)"]) simp

lemma tree_load_steady: "steady (same x c R) (tree_load x tid)"
  unfolding tree_load_def by (intro obs.steady_rules walk_steady get_root_steady)

lemma keep_view: "steady (same x c R) m \<Longrightarrow> view x c R s \<Longrightarrow> view x c R (snd (m s))"
  by (auto simp: steady_def same_def)

lemma tree_load_fst:
  assumes "view x c R s"
  shows "fst (tree_load x tid s) = fst (tree_load x tid c)"
proof -
  have "core s = c" using assms by (simp add: view_def)
  with view_core [of x s] have "view x c any_caches c" by simp
  with view_any [OF assms] have "same x c any_caches s c" by (simp add: same_def)
  then show ?thesis by (rule obs.steady_result [OF tree_load_steady])
qed

lemma tree_computes:
  "computes (view x c (sound_roots x c Q)) (tree x tid) (fst (tree_load x tid c))"
  unfolding computes_def
proof (intro allI impI)
  fix s assume v: "view x c (sound_roots x c Q) s"
  show "fst (tree x tid s) = fst (tree_load x tid c)
      \<and> view x c (sound_roots x c Q) (snd (tree x tid s))"
  proof (cases "map_of (fs_roots s) tid")
    case (Some r)
    with v show ?thesis by (auto simp: tree_def view_def sound_roots_def roots_ok_def)
  next
    case None
    define m where "m = tree_load x tid s"
    have m: "fst m = fst (tree_load x tid c)" unfolding m_def by (rule tree_load_fst [OF v])
    have keep: "view x c (sound_roots x c Q) (snd m)"
      unfolding m_def by (rule keep_view [OF tree_load_steady v])
    show ?thesis
    proof (cases "fst m")
      case (Inl e)
      then have "tree_load x tid s = (Inl e, snd m)" by (metis m_def prod.collapse)
      then have "tree x tid s = (Inl e, snd m)" by (simp add: tree_def None sbind_Inl)
      with Inl m keep show ?thesis by simp
    next
      case (Inr r)
      then have "tree_load x tid s = (Inr r, snd m)" by (metis m_def prod.collapse)
      then have t: "tree x tid s =
          (Inr r, (snd m)\<lparr>fs_roots := hm_insert tid r (fs_roots (snd m))\<rparr>)"
        by (simp add: tree_def None sbind_Inr)
      have "roots_ok x c (hm_insert tid r (fs_roots (snd m)))"
        unfolding roots_ok_def
      proof (intro allI impI)
        fix j w assume j: "map_of (hm_insert tid r (fs_roots (snd m))) j = Some w"
        show "fst (tree_load x j c) = Inr w"
          by (rule hm.insert_keeps [OF _ _ j])
            (use keep Inr m in \<open>auto simp: view_def sound_roots_def roots_ok_def\<close>)
      qed
      moreover have "nodes_ok x ((snd m)\<lparr>fs_roots := z\<rparr>)" "core ((snd m)\<lparr>fs_roots := z\<rparr>) = c" for z
      proof -
        show c: "core ((snd m)\<lparr>fs_roots := z\<rparr>) = c" using keep by (simp add: view_def core_def)
        then have "node_at x ((snd m)\<lparr>fs_roots := z\<rparr>) = node_at x (snd m)"
          using keep by (intro node_at_cong) (simp add: view_def)
        then show "nodes_ok x ((snd m)\<lparr>fs_roots := z\<rparr>)"
          using keep by (simp add: view_def nodes_ok_def)
      qed
      ultimately show ?thesis
        using keep Inr m t by (simp add: view_def sound_roots_def)
    qed
  qed
qed

lemma tree_steady: "steady (same x c (sound_roots x c Q)) (tree x tid)"
  by (rule steady_of_computes [OF tree_computes])

lemma root_steady: "steady (same x c (sound_roots x c Q)) (root x)"
  unfolding root_def by (intro obs.steady_rules tree_steady)

lemma inode_steady: "steady (same x c (sound_roots x c Q)) (inode x l)"
  unfolding inode_def by (intro obs.steady_rules tree_steady get_steady)

lemma extents_steady: "steady (same x c (sound_roots x c Q)) (extents x l)"
  unfolding extents_def by (intro obs.steady_rules tree_steady walk_steady)

lemma is_snapshot_steady: "steady (same x c R) (is_snapshot x tid)"
  unfolding is_snapshot_def by (intro obs.steady_rules walk_steady get_root_steady)


section \<open>What the operations return\<close>

text \<open>All items of one type of an object, in key order.\<close>

definition items_of :: "u64 \<Rightarrow> u8 \<Rightarrow> (key \<times> bytes) list \<Rightarrow> (key \<times> bytes) list" where
  "items_of oid t its = filter (\<lambda>e. objectid (fst e) = oid \<and> kty (fst e) = t) its"

lemma key_range: "Key oid t 0 \<le> k \<and> k \<le> Key oid t (- 1) \<longleftrightarrow> objectid k = oid \<and> kty k = t"
  by (cases k) auto

lemma in_range_items_of: "in_range (Key oid t 0) (Key oid t (- 1)) its = items_of oid t its"
  by (simp add: in_range_def items_of_def key_range)

text \<open>A walk over all items of one type of an object.\<close>

lemma walk_type_computes:
  assumes "items x c r = Some its"
  shows "computes (view x c R)
     (sbind (walk x r (Key oid t 0) (Key oid t (- 1)) visit v) (\<lambda>(_, v'). sret v'))
     (visit_all visit (items_of oid t its) v)"
proof -
  have "computes (view x c R)
     (sbind (walk x r (Key oid t 0) (Key oid t (- 1)) visit v) (\<lambda>(_, v'). sret v'))
     (rbind (visit_items (Key oid t 0) (Key oid t (- 1)) visit its v) (\<lambda>(_, v'). Inr v'))"
    by (rule computes_bind [OF walk_computes [OF assms]]) auto
  then show ?thesis
    by (simp add: visit_items_in_range [OF items_sorted [OF assms]] in_range_items_of)
qed

lemma visit_all_last:
  "visit_all (\<lambda>_ d _. Inr (True, Some d)) its v
     = (Inr (if its = [] then v else Some (snd (last its))) :: err + bytes option)"
  by (induction its arbitrary: v) auto

lemma visit_all_collect:
  "visit_all (\<lambda>k d out. rbind (f k d) (\<lambda>e. Inr (True, out @ [e]))) its out
     = rbind (rcollect (\<lambda>(k, d). f k d) its) (\<lambda>es. Inr (out @ es))"
proof (induction its arbitrary: out)
  case (Cons e its)
  obtain k d where e: "e = (k, d)" by (cases e)
  show ?case by (cases "f k d") (simp_all add: e Cons.IH rbind_assoc)
qed simp

text \<open>The root that a root tree holding \<open>its\<close> gives for a subvolume.\<close>

definition root_of :: "u64 \<Rightarrow> (key \<times> bytes) list \<Rightarrow> err + tree_root" where
  "root_of tid its =
     (let r = items_of tid 132 its in
      if r = [] then Inl (Fs (NoSuchTree tid))
      else
        rbind (u64_at (snd (last r)) 176) (\<lambda>bytenr.
        rbind (u64_at (snd (last r)) 168) (\<lambda>dirid.
        Inr \<lparr>tr_bytenr = bytenr, tr_root_dirid = dirid\<rparr>)))"

lemma tree_load_root_of:
  assumes "items x c (sb_root (fs_sb c)) = Some its" and c: "core c = c"
  shows "fst (tree_load x tid c) = root_of tid its"
proof -
  let ?r = "sb_root (fs_sb c)"
  let ?w = "walk x ?r (Key tid 132 0) (Key tid 132 (- 1)) (\<lambda>_ d _. Inr (True, Some d)) None"
  have "view x c any_caches c" using view_core [of x c] c by simp
  from computesD [OF walk_type_computes [OF assms(1)] this, of tid 132
      "\<lambda>_ d _. Inr (True, Some d)" None]
  have w: "fst (sbind ?w (\<lambda>(_, v'). sret v') c)
      = Inr (if items_of tid 132 its = [] then None else Some (snd (last (items_of tid 132 its))))"
    by (simp add: visit_all_last)
  then obtain b t where "?w c = (Inr (b,
      if items_of tid 132 its = [] then None else Some (snd (last (items_of tid 132 its)))), t)"
    by (auto simp: sbind_def split: prod.splits sum.splits)
  then show ?thesis
    by (auto simp: tree_load_def root_of_def sbind_def Let_def)
qed

lemma tree_is_root_of:
  assumes "items x c (sb_root (fs_sb c)) = Some its" and "core c = c"
  shows "computes (view x c (sound_roots x c Q)) (tree x tid) (root_of tid its)"
  using tree_computes [of x c Q tid] by (simp add: tree_load_root_of [OF assms])

lemma extents_computes:
  assumes r: "items x c (sb_root (fs_sb c)) = Some rits" and c: "core c = c"
    and t: "root_of (loc_tree l) rits = Inr tr" and its: "items x c (tr_bytenr tr) = Some its"
  shows "computes (view x c (sound_roots x c Q)) (extents x l)
     (rcollect (\<lambda>(k, d). extent_parse (koffset k) d) (items_of (loc_ino l) 108 its))"
  unfolding extents_def EXTENT_DATA_KEY_def
  by (rule computes_bind_Inr [OF tree_is_root_of [OF r c, of Q "loc_tree l", unfolded t]])
    (use walk_type_computes [OF its, of _ "loc_ino l" 108
        "\<lambda>k d out. rbind (extent_parse (koffset k) d) (\<lambda>e. Inr (True, out @ [e]))" "[]"]
      in \<open>simp add: visit_all_collect\<close>)

lemma inode_computes:
  assumes r: "items x c (sb_root (fs_sb c)) = Some rits" and c: "core c = c"
    and t: "root_of (loc_tree l) rits = Inr tr" and its: "items x c (tr_bytenr tr) = Some its"
    and l: "loc_tree l \<noteq> 0"
  shows "computes (view x c (sound_roots x c Q)) (inode x l)
     (case map_of its (Key (loc_ino l) 1 0) of
        None \<Rightarrow> Inl (Fs (NoSuchInode (loc_ino l) (loc_tree l))) | Some d \<Rightarrow> inode_parse d)"
proof -
  have "computes (view x c (sound_roots x c Q))
      (sbind (get x (tr_bytenr tr) (Key (loc_ino l) 1 0)) (\<lambda>item.
        case item of
          None \<Rightarrow> sthrow (Fs (NoSuchInode (loc_ino l) (loc_tree l)))
        | Some it \<Rightarrow> slift (inode_parse it)))
      (case map_of its (Key (loc_ino l) 1 0) of
        None \<Rightarrow> Inl (Fs (NoSuchInode (loc_ino l) (loc_tree l))) | Some d \<Rightarrow> inode_parse d)"
    by (rule computes_bind_Inr [OF get_computes [OF its]])
      (auto simp: computes_def split: option.splits)
  with l show ?thesis
    unfolding inode_def is_placeholder_def INODE_ITEM_KEY_def
    by (simp only: if_False)
      (rule computes_bind_Inr [OF tree_is_root_of [OF r c, of Q "loc_tree l", unfolded t]])
qed


lemma sorted_offsets:
  "sorted_wrt (<) (map fst xs) \<Longrightarrow> \<forall>e \<in> set xs. objectid (fst e) = oid \<and> kty (fst e) = t \<Longrightarrow>
     sorted (map (\<lambda>e. koffset (fst e)) xs)"
  by (induction xs) (auto simp: less_key_def)

lemma extents_sorted:
  assumes "rcollect (\<lambda>(k, d). extent_parse (koffset k) d) (items_of oid t its) = Inr es"
    and "sorted_wrt (<) (map fst its)"
  shows "sorted (map ex_file_off es)"
proof -
  have "sorted_wrt (<) (map fst (items_of oid t its))"
    using assms(2) by (simp add: items_of_def sorted_wrt_map sorted_wrt_filter)
  moreover have "\<forall>e \<in> set (items_of oid t its). objectid (fst e) = oid \<and> kty (fst e) = t"
    by (simp add: items_of_def)
  ultimately have "sorted (map (\<lambda>e. koffset (fst e)) (items_of oid t its))"
    by (rule sorted_offsets)
  moreover have "map ex_file_off es = map (\<lambda>e. koffset (fst e)) (items_of oid t its)"
    using assms(1) unfolding rcollect_Inr_iff
    by (induction rule: list_all2_induct) (auto dest: extent_parse_file_off)
  ultimately show ?thesis by simp
qed

end
