(* ===== verification/Fs_Read.thy ===== *)
theory Fs_Read
  imports Fs_Trees
begin

text \<open>
  Reading files (src/fs.rs): a file is streamed as pieces, data or runs of zeros, to a sink.
  The sink belongs to the caller (a buffer, standard output, a file on the host), so the
  operations here act on a pair: the file system and what the sink writes to.
\<close>

datatype (plugins only: code size) piece = Data bytes | Zeros u64

type_synonym 'o sink = "piece \<Rightarrow> ('o, unit) eff"

text \<open>
  \<open>compressed_extent\<close>: the extent's address is the whole key of the one-entry cache, so an
  extent item that gives another algorithm or size for the same address gets the bytes
  decoded for the first.
\<close>

definition decode_extent :: "ext \<Rightarrow> fs \<Rightarrow> u64 \<Rightarrow> u64 \<Rightarrow> u8 \<Rightarrow> u64 \<Rightarrow> err + bytes" where
  "decode_extent x s disk_bytenr disk_num_bytes algo ram =
     (if 0x40000000 < ram \<or> 0x40000000 < disk_num_bytes then
        Inl (Fs (ImplausibleExtent disk_num_bytes ram))
      else
        rbind (read_logical s disk_bytenr (unat disk_num_bytes)) (\<lambda>raw.
        decompress (ext_codecs x) algo raw (unat ram) (unat (sb_sectorsize (fs_sb s)))))"

definition compressed_extent ::
  "ext \<Rightarrow> u64 \<Rightarrow> u64 \<Rightarrow> u8 \<Rightarrow> u64 \<Rightarrow> (fs, bytes) eff" where
  "compressed_extent x disk_bytenr disk_num_bytes algo ram s =
     (case fs_last_extent s of
        Some (addr, d) \<Rightarrow>
          if addr = disk_bytenr then (Inr d, s)
          else
            (case decode_extent x s disk_bytenr disk_num_bytes algo ram of
               Inl e \<Rightarrow> (Inl e, s)
             | Inr plain \<Rightarrow> (Inr plain, s\<lparr>fs_last_extent := Some (disk_bytenr, plain)\<rparr>))
      | None \<Rightarrow>
          (case decode_extent x s disk_bytenr disk_num_bytes algo ram of
             Inl e \<Rightarrow> (Inl e, s)
           | Inr plain \<Rightarrow> (Inr plain, s\<lparr>fs_last_extent := Some (disk_bytenr, plain)\<rparr>)))"

section \<open>Emitting pieces\<close>

text \<open>Where the data of an extent comes from: nothing but the file system's devices.\<close>

type_synonym source = "fs \<Rightarrow> u64 \<Rightarrow> u64 \<Rightarrow> err + bytes"

definition from_source :: "source \<Rightarrow> u64 \<Rightarrow> u64 \<Rightarrow> (fs \<times> 'o, bytes) eff" where
  "from_source read at n = on_fst (\<lambda>s. (read s at n, s))"

function data_loop :: "'o sink \<Rightarrow> source \<Rightarrow> u64 \<Rightarrow> u64 \<Rightarrow> (fs \<times> 'o, unit) eff" where
  "data_loop sink read at to =
     (if at < to then
        (let n = min (to - at) 0x100000 in
         sbind (from_source read at n) (\<lambda>d.
         sbind (on_snd (sink (Data d))) (\<lambda>_. data_loop sink read (at + n) to)))
      else sret ())"
  by pat_completeness auto

lemma min_step:
  fixes at to :: u64
  assumes "at < to"
  defines "n \<equiv> min (to - at) 0x100000"
  shows "unat (at + n) = unat at + unat n" and "0 < unat n" and "unat at + unat n \<le> unat to"
proof -
  have d: "unat (to - at) = unat to - unat at" using assms(1) by (simp add: unat_minus_le)
  have lt: "unat at < unat to" using assms(1) by (simp add: word_less_nat_alt)
  have n: "unat n \<le> unat to - unat at" unfolding n_def d [symmetric]
    by (simp add: min_def word_le_nat_alt)
  then show le: "unat at + unat n \<le> unat to" using lt by linarith
  show "0 < unat n" unfolding n_def
    using d lt by (auto simp: min_def unat_gt_0)
  have "unat at + unat n < 2 ^ 64" by (rule le_less_trans [OF le]) simp
  then show "unat (at + n) = unat at + unat n" by (rule unat_plus_nowrap)
qed

termination data_loop
proof (relation "measure (\<lambda>(sink, read, at, to). unat to - unat at)")
  fix sink :: "'o sink" and read :: source and at to n :: u64 and d :: bytes and u :: unit
  assume a: "at < to" and n: "n = min (to - at) 0x100000"
  from min_step [OF a] show "((sink, read, at + n, to), sink, read, at, to)
      \<in> measure (\<lambda>(sink, read, at, to). unat to - unat at)"
    by (simp add: n)
qed simp

declare data_loop.simps [simp del]

text \<open>
  The closure \<open>emit\<close>: the part of \<open>[from, to)\<close> that is still wanted, after zeros for the gap
  before it; it returns the new position.
\<close>

definition emit ::
  "'o sink \<Rightarrow> u64 \<Rightarrow> u64 \<Rightarrow> u64 \<Rightarrow> u64 \<Rightarrow> source option \<Rightarrow> (fs \<times> 'o, u64) eff" where
  "emit sink end' frm to pos dat =
     (let f = max frm pos; t = min to end' in
      if t \<le> f then sret pos
      else
        sbind (if pos < f then on_snd (sink (Zeros (f - pos))) else sret ()) (\<lambda>_.
        sbind
          (case dat of
             None \<Rightarrow> on_snd (sink (Zeros (t - f)))
           | Some read \<Rightarrow> data_loop sink read f t)
          (\<lambda>_. sret t)))"

text \<open>The three ways to read an extent's data, \<open>at\<close> being a position in the file.\<close>

definition inline_source :: "bytes \<Rightarrow> u64 \<Rightarrow> source" where
  "inline_source plain frm s at n = Inr (take (unat n) (drop (unat (at - frm)) plain))"

definition disk_source :: "u64 \<Rightarrow> u64 \<Rightarrow> source" where
  "disk_source base frm s at n =
     (case checked_add base (at - frm) of
        None \<Rightarrow> Inl (Fs ExtentReadOverflow)
      | Some addr \<Rightarrow> read_logical s addr (unat n))"

definition plain_source :: "bytes \<Rightarrow> u64 \<Rightarrow> u64 \<Rightarrow> source" where
  "plain_source plain offset frm s at n =
     (let i = unat (offset + (at - frm)) in
      case get_range plain i ((i + unat n) mod 2 ^ 64) of
        None \<Rightarrow> Inl (Fs OutsideDecompressed)
      | Some b \<Rightarrow> Inr b)"

definition inline_plain :: "ext \<Rightarrow> fs \<Rightarrow> extent \<Rightarrow> bytes \<Rightarrow> err + bytes" where
  "inline_plain x s e raw =
     (if ucast (sb_nodesize (fs_sb s)) < ex_ram_bytes e then
        Inl (Fs (InlineTooBig (ex_ram_bytes e) (sb_nodesize (fs_sb s))))
      else if ex_compression e = 0 then Inr raw
      else decompress_inline (ext_codecs x) (ex_compression e) raw (unat (ex_ram_bytes e))
             (unat (sb_sectorsize (fs_sb s))))"

definition emit_extent ::
  "ext \<Rightarrow> 'o sink \<Rightarrow> u64 \<Rightarrow> extent \<Rightarrow> u64 \<Rightarrow> (fs \<times> 'o, u64) eff" where
  "emit_extent x sink end' e pos =
     (let frm = ex_file_off e; to = saturating_add (ex_file_off e) (ex_len e) in
      case ex_kind e of
        Prealloc \<Rightarrow> emit sink end' frm to pos None
      | Inline raw \<Rightarrow>
          sbind (on_fst (\<lambda>s. (inline_plain x s e raw, s))) (\<lambda>plain.
          emit sink end' frm (frm + word_of_nat (length plain)) pos
            (Some (inline_source plain frm)))
      | Regular disk_bytenr disk_num_bytes offset \<Rightarrow>
          if disk_bytenr = 0 then emit sink end' frm to pos None
          else if ex_compression e = 0 then
            (case checked_add disk_bytenr offset of
               None \<Rightarrow> sthrow (Fs (ExtentAddressOverflow disk_bytenr offset))
             | Some base \<Rightarrow> emit sink end' frm to pos (Some (disk_source base frm)))
          else
            sbind
              (on_fst (compressed_extent x disk_bytenr disk_num_bytes (ex_compression e)
                 (ex_ram_bytes e)))
              (\<lambda>plain. emit sink end' frm to pos (Some (plain_source plain offset frm))))"

fun range_loop :: "ext \<Rightarrow> 'o sink \<Rightarrow> u64 \<Rightarrow> extent list \<Rightarrow> u64 \<Rightarrow> (fs \<times> 'o, u64) eff" where
  "range_loop x sink end' [] pos = sret pos"
| "range_loop x sink end' (e # es) pos =
     (if end' \<le> pos \<or> end' \<le> ex_file_off e then sret pos
      else if saturating_add (ex_file_off e) (ex_len e) \<le> pos then range_loop x sink end' es pos
      else sbind (emit_extent x sink end' e pos) (\<lambda>pos'. range_loop x sink end' es pos'))"

definition read_range ::
  "ext \<Rightarrow> loc \<Rightarrow> u64 \<Rightarrow> u64 \<Rightarrow> 'o sink \<Rightarrow> (fs \<times> 'o, unit) eff" where
  "read_range x l start end' sink =
     sbind (on_fst (inode x l)) (\<lambda>i.
     let end'' = min end' (i_size i) in
     sbind (on_fst (extents x l)) (\<lambda>es.
     sbind (range_loop x sink end'' es start) (\<lambda>pos.
     sbind (emit sink end'' pos end'' pos None) (\<lambda>_. sret ()))))"

section \<open>Into memory\<close>

definition piece_bytes :: "piece \<Rightarrow> bytes" where
  "piece_bytes p = (case p of Data d \<Rightarrow> d | Zeros n \<Rightarrow> replicate (unat n) 0)"

definition vec_sink :: "bytes sink" where
  "vec_sink p out = (Inr (), out @ piece_bytes p)"

definition read_to_vec :: "ext \<Rightarrow> loc \<Rightarrow> u64 \<Rightarrow> (fs, bytes) eff" where
  "read_to_vec x l cap s =
     (case read_range x l 0 cap vec_sink (s, []) of
        (Inl e, st) \<Rightarrow> (Inl e, fst st)
      | (Inr _, st) \<Rightarrow> (Inr (snd st), fst st))"

definition read_symlink_target :: "ext \<Rightarrow> loc \<Rightarrow> (fs, bytes) eff" where
  "read_symlink_target x l =
     sbind (inode x l) (\<lambda>i.
     if 4096 < i_size i then sthrow (Fs (SymlinkTooLong (i_size i) 4096))
     else read_to_vec x l (i_size i))"


section \<open>What a file holds\<close>

text \<open>
  The contents of a file, from its extents in file order: each byte is that of the first
  extent that covers it, and zero where none does.  \<open>disk\<close> is the contents of the logical
  address space.
\<close>

definition covers :: "extent \<Rightarrow> nat \<Rightarrow> bool" where
  "covers e p \<longleftrightarrow>
     unat (ex_file_off e) \<le> p \<and> p < unat (saturating_add (ex_file_off e) (ex_len e))"

definition value_or :: "'a \<Rightarrow> 'e + 'a \<Rightarrow> 'a" where
  "value_or d r = (case r of Inl _ \<Rightarrow> d | Inr v \<Rightarrow> v)"

definition extent_byte :: "ext \<Rightarrow> fs \<Rightarrow> (nat \<Rightarrow> u8) \<Rightarrow> extent \<Rightarrow> nat \<Rightarrow> u8" where
  "extent_byte x c disk e p =
     (let i = p - unat (ex_file_off e) in
      case ex_kind e of
        Prealloc \<Rightarrow> 0
      | Inline raw \<Rightarrow> value_or [] (inline_plain x c e raw) ! i
      | Regular disk_bytenr disk_num_bytes offset \<Rightarrow>
          if disk_bytenr = 0 then 0
          else if ex_compression e = 0 then disk (unat disk_bytenr + unat offset + i)
          else
            value_or [] (decode_extent x c disk_bytenr disk_num_bytes (ex_compression e)
              (ex_ram_bytes e)) ! (unat offset + i))"

definition file_byte :: "ext \<Rightarrow> fs \<Rightarrow> (nat \<Rightarrow> u8) \<Rightarrow> extent list \<Rightarrow> nat \<Rightarrow> u8" where
  "file_byte x c disk es p =
     (case find (\<lambda>e. covers e p) es of None \<Rightarrow> 0 | Some e \<Rightarrow> extent_byte x c disk e p)"

text \<open>
  An extent that can be read: its range does not pass the end of the file-offset space, its
  data is there, and what it refers to is inside that data.
\<close>

definition readable :: "ext \<Rightarrow> fs \<Rightarrow> (nat \<Rightarrow> u8) \<Rightarrow> extent \<Rightarrow> bool" where
  "readable x c disk e \<longleftrightarrow>
     unat (ex_file_off e) + unat (ex_len e) < 2 ^ 64 \<and>
     (case ex_kind e of
        Prealloc \<Rightarrow> True
      | Inline raw \<Rightarrow> \<exists>plain. inline_plain x c e raw = Inr plain \<and> length plain = unat (ex_len e)
      | Regular disk_bytenr disk_num_bytes offset \<Rightarrow>
          disk_bytenr = 0 \<or>
          (if ex_compression e = 0 then
             unat disk_bytenr + unat offset + unat (ex_len e) < 2 ^ 64 \<and>
             (\<forall>i n. 0 < n \<and> n \<le> 0x100000 \<and> i + n \<le> unat (ex_len e) \<longrightarrow>
                read_logical c (disk_bytenr + offset + word_of_nat i) n
                = Inr (map disk [unat disk_bytenr + unat offset + i ..<
                                 unat disk_bytenr + unat offset + i + n]))
           else
             \<exists>plain. decode_extent x c disk_bytenr disk_num_bytes (ex_compression e)
                 (ex_ram_bytes e) = Inr plain \<and> unat offset + unat (ex_len e) \<le> length plain
                 \<and> length plain < 2 ^ 64))"

text \<open>
  Two compressed extents at one address are one extent on disk, so they declare the same
  sizes and algorithm; and the extent decoded last, if it is one of these, is what decoding
  it gives.
\<close>

definition coherent :: "extent list \<Rightarrow> bool" where
  "coherent es \<longleftrightarrow>
     (\<forall>e \<in> set es. \<forall>e' \<in> set es. \<forall>addr n off n' off'.
        ex_kind e = Regular addr n off \<and> ex_kind e' = Regular addr n' off'
        \<and> ex_compression e \<noteq> 0 \<and> ex_compression e' \<noteq> 0
        \<longrightarrow> n = n' \<and> ex_compression e = ex_compression e' \<and> ex_ram_bytes e = ex_ram_bytes e')"

definition last_ok :: "ext \<Rightarrow> fs \<Rightarrow> extent list \<Rightarrow> (u64 \<times> bytes) option \<Rightarrow> bool" where
  "last_ok x c es le \<longleftrightarrow>
     (\<forall>addr d e n off. le = Some (addr, d) \<and> e \<in> set es \<and> ex_kind e = Regular addr n off
        \<and> ex_compression e \<noteq> 0
        \<longrightarrow> decode_extent x c addr n (ex_compression e) (ex_ram_bytes e) = Inr d)"

definition reads :: "ext \<Rightarrow> fs \<Rightarrow> extent list \<Rightarrow> fs \<Rightarrow> bool" where
  "reads x c es s \<longleftrightarrow> core s = c \<and> last_ok x c es (fs_last_extent s)"

lemma read_logical_core: "read_logical (core s) = read_logical s"
  by (simp add: read_logical_def [abs_def] mirrors_core)

lemma decode_extent_core: "decode_extent x (core s) = decode_extent x s"
  by (intro ext) (simp add: decode_extent_def read_logical_core)

lemma inline_plain_core: "inline_plain x (core s) = inline_plain x s"
  by (intro ext) (simp add: inline_plain_def)

lemma compressed_extent_achieves:
  assumes co: "coherent es" and e: "e \<in> set es" "ex_kind e = Regular addr n off"
    and comp: "ex_compression e \<noteq> 0"
    and plain: "decode_extent x c addr n (ex_compression e) (ex_ram_bytes e) = Inr plain"
  shows "achieves (reads x c es)
     (compressed_extent x addr n (ex_compression e) (ex_ram_bytes e)) plain (reads x c es)"
  unfolding achieves_def
proof (intro allI impI)
  fix s assume r: "reads x c es s"
  then have dec: "decode_extent x s = decode_extent x c"
    using decode_extent_core [of x s] by (simp add: reads_def)
  show "\<exists>t. compressed_extent x addr n (ex_compression e) (ex_ram_bytes e) s = (Inr plain, t)
      \<and> reads x c es t"
  proof (cases "\<exists>d. fs_last_extent s = Some (addr, d)")
    case True
    then obtain d where d: "fs_last_extent s = Some (addr, d)" ..
    with r e comp plain have "d = plain" unfolding reads_def last_ok_def by force
    with d r show ?thesis by (simp add: compressed_extent_def)
  next
    case False
    let ?t = "s\<lparr>fs_last_extent := Some (addr, plain)\<rparr>"
    have "compressed_extent x addr n (ex_compression e) (ex_ram_bytes e) s = (Inr plain, ?t)"
      using False plain by (auto simp: compressed_extent_def dec split: option.splits)
    moreover have "last_ok x c es (Some (addr, plain))"
      unfolding last_ok_def
    proof (intro allI impI, elim conjE)
      fix a d e' n' off'
      assume "Some (addr, plain) = Some (a, d)" and e': "e' \<in> set es"
        "ex_kind e' = Regular a n' off'" "ex_compression e' \<noteq> 0"
      then have a: "a = addr" "d = plain" by simp_all
      have "n = n' \<and> ex_compression e = ex_compression e' \<and> ex_ram_bytes e = ex_ram_bytes e'"
        using co e e' comp unfolding coherent_def a by blast
      with plain show "decode_extent x c a n' (ex_compression e') (ex_ram_bytes e') = Inr d"
        by (simp add: a)
    qed
    moreover have "core ?t = c" using r by (simp add: reads_def core_def)
    ultimately show ?thesis by (simp add: reads_def)
  qed
qed

section \<open>Reading is exact\<close>

lemma map_upt_append: "i \<le> j \<Longrightarrow> j \<le> k \<Longrightarrow> map f [i..<j] @ map f [j..<k] = map f [i..<k]"
  by (metis le_add_diff_inverse map_append upt_add_eq_append)

lemma sink_achieves:
  "achieves (\<lambda>st. I (fst st) \<and> snd st = out) (on_snd (vec_sink p)) ()
     (\<lambda>st. I (fst st) \<and> snd st = out @ piece_bytes p)"
  by (rule achieves_on_snd) (simp add: achieves_def vec_sink_def)

lemma data_loop_achieves:
  assumes read: "\<And>s at n. I s \<Longrightarrow> lo \<le> unat at \<Longrightarrow> 0 < unat n \<Longrightarrow> unat n \<le> 0x100000 \<Longrightarrow>
      unat at + unat n \<le> unat to \<Longrightarrow> read s at n = Inr (map f [unat at ..< unat at + unat n])"
    and "lo \<le> unat at" and "at \<le> to"
  shows "achieves (\<lambda>st. I (fst st) \<and> snd st = out) (data_loop vec_sink read at to) ()
     (\<lambda>st. I (fst st) \<and> snd st = out @ map f [unat at ..< unat to])"
  using assms(2,3)
proof (induction "unat to - unat at" arbitrary: at out rule: less_induct)
  case less
  show ?case
  proof (cases "at < to")
    case False
    with less.prems have "at = to" by simp
    then show ?thesis by (simp add: data_loop.simps achieves_def)
  next
    case True
    define n where "n = min (to - at) 0x100000"
    note step = min_step [OF True, folded n_def]
    have small: "unat n \<le> 0x100000"
      unfolding n_def by (simp add: min_def word_le_nat_alt)
    have source: "achieves (\<lambda>st. I (fst st) \<and> snd st = out) (from_source read at n)
        (map f [unat at ..< unat at + unat n]) (\<lambda>st. I (fst st) \<and> snd st = out)"
      unfolding from_source_def
      by (rule achieves_on_fst)
        (use read less.prems(1) step small in \<open>simp add: achieves_def\<close>)
    have rest: "achieves
        (\<lambda>st. I (fst st) \<and> snd st = out @ map f [unat at ..< unat (at + n)])
        (data_loop vec_sink read (at + n) to) ()
        (\<lambda>st. I (fst st) \<and> snd st = (out @ map f [unat at ..< unat (at + n)])
           @ map f [unat (at + n) ..< unat to])"
      by (rule less.hyps) (use less.prems step in \<open>auto simp: word_le_nat_alt\<close>)
    have "(out @ map f [unat at ..< unat (at + n)]) @ map f [unat (at + n) ..< unat to]
        = out @ map f [unat at ..< unat to]"
      using step map_upt_append [of "unat at" "unat (at + n)" "unat to" f] by simp
    note rest = rest [unfolded this]
    have sink: "achieves (\<lambda>st. I (fst st) \<and> snd st = out)
        (on_snd (vec_sink (Data (map f [unat at ..< unat at + unat n])))) ()
        (\<lambda>st. I (fst st) \<and> snd st = out @ map f [unat at ..< unat (at + n)])"
      using sink_achieves [of I out "Data (map f [unat at ..< unat at + unat n])"] step(1)
      by (simp add: piece_bytes_def)
    show ?thesis
      unfolding data_loop.simps [of vec_sink read at to] n_def [symmetric] Let_def
      by (simp only: True if_True)
        (rule achieves_bind, rule source, rule achieves_bind, rule sink, rule rest)
  qed
qed


lemma unat_max_min:
  "unat (max a b :: u64) = max (unat a) (unat b)" "unat (min a b :: u64) = min (unat a) (unat b)"
  by (simp_all add: max_def min_def word_le_nat_alt)

lemma zeros_map:
  fixes a b :: u64
  assumes "a \<le> b" and "\<And>p. unat a \<le> p \<Longrightarrow> p < unat b \<Longrightarrow> C p = 0"
  shows "piece_bytes (Zeros (b - a)) = map C [unat a ..< unat b]"
proof -
  have "map C [unat a ..< unat b] = map (\<lambda>_. 0) [unat a ..< unat b]"
    using assms(2) by (intro map_cong) auto
  with assms(1) show ?thesis by (simp add: piece_bytes_def unat_minus_le map_replicate_const)
qed

definition emit_pos :: "u64 \<Rightarrow> u64 \<Rightarrow> u64 \<Rightarrow> u64 \<Rightarrow> u64" where
  "emit_pos end' frm to pos = (if min to end' \<le> max frm pos then pos else min to end')"

lemma emit_achieves:
  assumes gap: "\<And>p. unat pos \<le> p \<Longrightarrow> p < unat frm \<Longrightarrow> p < unat end' \<Longrightarrow> C p = 0"
    and none: "\<And>p. dat = None \<Longrightarrow> unat frm \<le> p \<Longrightarrow> unat pos \<le> p \<Longrightarrow> p < unat to \<Longrightarrow> p < unat end'
      \<Longrightarrow> C p = 0"
    and some: "\<And>read s at n. dat = Some read \<Longrightarrow> I s \<Longrightarrow> unat frm \<le> unat at \<Longrightarrow>
      unat pos \<le> unat at \<Longrightarrow> 0 < unat n \<Longrightarrow> unat n \<le> 0x100000 \<Longrightarrow>
      unat at + unat n \<le> unat to \<Longrightarrow> unat at + unat n \<le> unat end' \<Longrightarrow>
      read s at n = Inr (map C [unat at ..< unat at + unat n])"
    and start: "start \<le> unat pos"
  shows "achieves (\<lambda>st. I (fst st) \<and> snd st = map C [start ..< unat pos])
     (emit vec_sink end' frm to pos dat) (emit_pos end' frm to pos)
     (\<lambda>st. I (fst st) \<and> snd st = map C [start ..< unat (emit_pos end' frm to pos)])"
proof -
  define f t where "f = max frm pos" and "t = min to end'"
  note ft = f_def t_def unat_max_min
  let ?A = "\<lambda>p st. I (fst st) \<and> snd st = map C [start ..< p]"
  show ?thesis
  proof (cases "t \<le> f")
    case True
    then show ?thesis
      unfolding emit_def emit_pos_def Let_def f_def [symmetric] t_def [symmetric]
      by (simp add: achieves_def)
  next
    case False
    have ft_le: "f \<le> t" using False by simp
    have pf: "pos \<le> f" by (simp add: f_def)
    have order: "start \<le> unat pos" "unat pos \<le> unat f" "unat f \<le> unat t"
      using start pf False by (simp_all add: word_le_nat_alt)
    have fill: "achieves (?A (unat pos))
        (if pos < f then on_snd (vec_sink (Zeros (f - pos))) else sret ()) () (?A (unat f))"
    proof (cases "pos < f")
      case True
      then have "f = frm" by (auto simp: f_def max_def split: if_splits)
      have "unat f < min (unat to) (unat end')"
        using False by (simp add: t_def unat_max_min word_le_nat_alt not_le)
      then have "unat f < unat end'" by simp
      have "piece_bytes (Zeros (f - pos)) = map C [unat pos ..< unat f]"
        by (rule zeros_map [OF pf], rule gap) (use \<open>f = frm\<close> \<open>unat f < unat end'\<close> in auto)
      with True show ?thesis
        using sink_achieves [of I "map C [start ..< unat pos]" "Zeros (f - pos)"]
          map_upt_append [OF order(1,2), of C] by simp
    next
      case False
      with pf have "f = pos" by simp
      then show ?thesis by (simp add: achieves_def)
    qed
    have body: "achieves (?A (unat f))
        (case dat of None \<Rightarrow> on_snd (vec_sink (Zeros (t - f)))
         | Some read \<Rightarrow> data_loop vec_sink read f t) () (?A (unat t))"
    proof (cases dat)
      case None
      have "piece_bytes (Zeros (t - f)) = map C [unat f ..< unat t]"
        by (rule zeros_map) (use ft_le none [OF None] in \<open>auto simp: ft\<close>)
      with None show ?thesis
        using sink_achieves [of I "map C [start ..< unat f]" "Zeros (t - f)"]
          map_upt_append [of start "unat f" "unat t" C] order by simp
    next
      case (Some read)
      have "achieves (?A (unat f)) (data_loop vec_sink read f t) ()
          (\<lambda>st. I (fst st) \<and> snd st = map C [start ..< unat f] @ map C [unat f ..< unat t])"
        by (rule data_loop_achieves [where lo = "unat f"], rule some [OF Some])
          (use ft_le in \<open>auto simp: ft\<close>)
      with Some show ?thesis
        using map_upt_append [of start "unat f" "unat t" C] order by simp
    qed
    have "emit_pos end' frm to pos = t"
      using False by (simp add: emit_pos_def f_def t_def)
    moreover have "achieves (?A (unat t)) (sret t) t (?A (unat t))"
      by (simp add: achieves_def)
    ultimately show ?thesis
      unfolding emit_def Let_def f_def [symmetric] t_def [symmetric]
      by (simp only: False if_False)
        (rule achieves_bind, rule fill, rule achieves_bind, rule body, assumption)
  qed
qed

lemma saturating_add_nowrap:
  assumes "unat a + unat b < 2 ^ 64"
  shows "saturating_add a b = a + b" "unat (saturating_add a b) = unat a + unat b"
  using assms unat_plus_nowrap [OF assms] by (simp_all add: saturating_add_def)

text \<open>The sources give the extent's bytes.\<close>

lemma minus_frm:
  fixes at frm :: u64
  assumes "unat frm \<le> unat at"
  shows "unat (at - frm) = unat at - unat frm" and "at - frm = word_of_nat (unat at - unat frm)"
proof -
  show *: "unat (at - frm) = unat at - unat frm"
    using assms by (intro unat_minus_le) (simp add: word_le_nat_alt)
  show "at - frm = word_of_nat (unat at - unat frm)"
    unfolding * [symmetric] by simp
qed

lemma inline_source_reads:
  assumes "ex_kind e = Inline raw" and "inline_plain x c e raw = Inr plain"
    and "unat (ex_file_off e) \<le> unat at"
    and "unat at + unat n \<le> unat (ex_file_off e) + length plain"
  shows "inline_source plain (ex_file_off e) s at n
     = Inr (map (extent_byte x c disk e) [unat at ..< unat at + unat n])"
proof -
  have "take (unat n) (drop (unat at - unat (ex_file_off e)) plain)
      = map (extent_byte x c disk e) [unat at ..< unat at + unat n]"
    by (rule nth_equalityI) (use assms in \<open>auto simp: extent_byte_def value_or_def\<close>)
  then show ?thesis by (simp add: inline_source_def minus_frm(1) [OF assms(3)])
qed

lemma disk_source_reads:
  assumes kind: "ex_kind e = Regular addr len off" "addr \<noteq> 0" "ex_compression e = 0"
    and ok: "readable x c disk e" and s: "read_logical s = read_logical c"
    and n: "0 < unat n" "unat n \<le> 0x100000" and at: "unat (ex_file_off e) \<le> unat at"
    and fit: "unat at + unat n \<le> unat (ex_file_off e) + unat (ex_len e)"
  shows "disk_source (addr + off) (ex_file_off e) s at n
     = Inr (map (extent_byte x c disk e) [unat at ..< unat at + unat n])"
proof -
  let ?i = "unat at - unat (ex_file_off e)"
  let ?base = "unat addr + unat off"
  have lim: "?base + unat (ex_len e) < 2 ^ 64"
    using ok kind by (simp add: readable_def)
  then have base: "unat (addr + off) = ?base" using unat_plus_nowrap [of addr off] by simp
  have i: "?i + unat n \<le> unat (ex_len e)" using at fit by linarith
  have "unat (addr + off) + unat (at - ex_file_off e) < 2 ^ 64"
    using lim i by (simp add: base minus_frm(1) [OF at])
  then have "checked_add (addr + off) (at - ex_file_off e)
      = Some (addr + off + word_of_nat ?i)"
    by (simp add: checked_add_def minus_frm(2) [OF at, symmetric])
  moreover have "read_logical c (addr + off + word_of_nat ?i) (unat n)
      = Inr (map disk [?base + ?i ..< ?base + ?i + unat n])"
    using ok kind n i by (simp add: readable_def)
  moreover have "map disk [?base + ?i ..< ?base + ?i + unat n]
      = map (extent_byte x c disk e) [unat at ..< unat at + unat n]"
    by (rule nth_equalityI) (use at kind in \<open>auto simp: extent_byte_def add.assoc\<close>)
  ultimately show ?thesis by (simp add: disk_source_def s)
qed

lemma plain_source_reads:
  assumes kind: "ex_kind e = Regular addr len off" "addr \<noteq> 0" "ex_compression e \<noteq> 0"
    and plain: "decode_extent x c addr len (ex_compression e) (ex_ram_bytes e) = Inr plain"
      "unat off + unat (ex_len e) \<le> length plain" "length plain < 2 ^ 64"
    and at: "unat (ex_file_off e) \<le> unat at"
    and fit: "unat at + unat n \<le> unat (ex_file_off e) + unat (ex_len e)"
  shows "plain_source plain off (ex_file_off e) s at n
     = Inr (map (extent_byte x c disk e) [unat at ..< unat at + unat n])"
proof -
  let ?i = "unat at - unat (ex_file_off e)"
  have i: "unat off + ?i + unat n \<le> length plain" using at fit plain(2) by linarith
  have "unat off + unat (at - ex_file_off e) < 2 ^ 64"
    using i plain(3) by (simp add: minus_frm(1) [OF at])
  from unat_plus_nowrap [OF this]
  have pos: "unat (off + (at - ex_file_off e)) = unat off + ?i"
    by (simp add: minus_frm(1) [OF at])
  have "(unat off + ?i + unat n) mod 2 ^ 64 = unat off + ?i + unat n"
    by (rule mod_less) (use i plain(3) in linarith)
  then have "plain_source plain off (ex_file_off e) s at n
      = Inr (take (unat n) (drop (unat off + ?i) plain))"
    using i by (simp add: plain_source_def pos get_range_def Let_def)
  moreover have "take (unat n) (drop (unat off + ?i) plain)
      = map (extent_byte x c disk e) [unat at ..< unat at + unat n]"
    by (rule nth_equalityI)
      (use at i plain kind in \<open>auto simp: extent_byte_def value_or_def Let_def add.assoc\<close>)
  ultimately show ?thesis by simp
qed

text \<open>
  What emitting one extent needs and does: \<open>C\<close> is the contents of the file, which from the
  current position on has zeros before the extent and the extent's bytes in it.
\<close>

definition fills :: "(nat \<Rightarrow> u8) \<Rightarrow> u64 \<Rightarrow> u64 \<Rightarrow> extent \<Rightarrow> (nat \<Rightarrow> u8) \<Rightarrow> bool" where
  "fills C pos end' e b \<longleftrightarrow>
     (\<forall>p. unat pos \<le> p \<and> p < unat end' \<longrightarrow>
        (p < unat (ex_file_off e) \<longrightarrow> C p = 0) \<and> (covers e p \<longrightarrow> C p = b p))"

abbreviation written ::
  "ext \<Rightarrow> fs \<Rightarrow> extent list \<Rightarrow> (nat \<Rightarrow> u8) \<Rightarrow> nat \<Rightarrow> nat \<Rightarrow> fs \<times> bytes \<Rightarrow> bool" where
  "written x c es C start p \<equiv> \<lambda>st. reads x c es (fst st) \<and> snd st = map C [start ..< p]"

lemma emit_source_achieves:
  assumes fit: "unat (ex_file_off e) + unat (ex_len e) < 2 ^ 64"
    and fills: "fills C pos end' e b" and start: "start \<le> unat pos"
    and src: "\<And>s at n. reads x c es s \<Longrightarrow> unat (ex_file_off e) \<le> unat at \<Longrightarrow> 0 < unat n \<Longrightarrow>
      unat n \<le> 0x100000 \<Longrightarrow> unat at + unat n \<le> unat (ex_file_off e) + unat (ex_len e) \<Longrightarrow>
      read s at n = Inr (map b [unat at ..< unat at + unat n])"
  defines "to \<equiv> saturating_add (ex_file_off e) (ex_len e)"
  shows "achieves (written x c es C start (unat pos))
     (emit vec_sink end' (ex_file_off e) to pos (Some read))
     (emit_pos end' (ex_file_off e) to pos)
     (written x c es C start (unat (emit_pos end' (ex_file_off e) to pos)))"
proof (rule emit_achieves [OF _ _ _ start])
  have to: "unat to = unat (ex_file_off e) + unat (ex_len e)"
    using saturating_add_nowrap(2) [OF fit] by (simp add: to_def)
  fix r :: source and s and at n :: u64
  assume r: "Some read = Some r" and s: "reads x c es s"
    and a: "unat (ex_file_off e) \<le> unat at" "unat pos \<le> unat at" "0 < unat n"
      "unat n \<le> 0x100000" "unat at + unat n \<le> unat to" "unat at + unat n \<le> unat end'"
  have "map C [unat at ..< unat at + unat n] = map b [unat at ..< unat at + unat n]"
    using fills a by (intro map_cong refl) (auto simp: fills_def covers_def to_def [symmetric])
  with src [OF s a(1,3,4)] a(5) r show "r s at n = Inr (map C [unat at ..< unat at + unat n])"
    by (simp add: to)
qed (use fills in \<open>auto simp: fills_def\<close>)

lemma emit_hole_achieves:
  assumes fills: "fills C pos end' e (\<lambda>_. 0)" and start: "start \<le> unat pos"
  defines "to \<equiv> saturating_add (ex_file_off e) (ex_len e)"
  shows "achieves (written x c es C start (unat pos))
     (emit vec_sink end' (ex_file_off e) to pos None)
     (emit_pos end' (ex_file_off e) to pos)
     (written x c es C start (unat (emit_pos end' (ex_file_off e) to pos)))"
  by (rule emit_achieves [OF _ _ _ start])
    (use fills in \<open>auto simp: fills_def covers_def to_def\<close>)

lemma emit_extent_achieves:
  assumes e: "e \<in> set es" and co: "coherent es" and ok: "readable x c disk e"
    and fills: "fills C pos end' e (extent_byte x c disk e)" and start: "start \<le> unat pos"
  defines "to \<equiv> saturating_add (ex_file_off e) (ex_len e)"
  shows "achieves (written x c es C start (unat pos)) (emit_extent x vec_sink end' e pos)
     (emit_pos end' (ex_file_off e) to pos)
     (written x c es C start (unat (emit_pos end' (ex_file_off e) to pos)))"
proof -
  have fit: "unat (ex_file_off e) + unat (ex_len e) < 2 ^ 64" using ok by (simp add: readable_def)
  have core_reads: "inline_plain x s = inline_plain x c" "read_logical s = read_logical c"
    if "reads x c es s" for s
    using that inline_plain_core [of x s] read_logical_core [of s] by (simp_all add: reads_def)
  note src = emit_source_achieves [OF fit fills start, of x c es, folded to_def]
  have hole: ?thesis if "emit_extent x vec_sink end' e pos
        = emit vec_sink end' (ex_file_off e) to pos None" "extent_byte x c disk e = (\<lambda>_. 0)"
    unfolding that(1) to_def
    by (rule emit_hole_achieves [OF _ start]) (use fills that(2) in simp)
  show ?thesis
  proof (cases "ex_kind e")
    case Prealloc
    show ?thesis
      by (rule hole) (simp_all add: emit_extent_def Let_def to_def Prealloc extent_byte_def fun_eq_iff)
  next
    case (Inline raw)
    then obtain plain where plain: "inline_plain x c e raw = Inr plain"
        and len: "length plain = unat (ex_len e)"
      using ok by (auto simp: readable_def)
    have load: "achieves (written x c es C start (unat pos))
        (on_fst (\<lambda>s. (inline_plain x s e raw, s))) plain (written x c es C start (unat pos))"
      by (rule achieves_on_fst) (simp add: achieves_def core_reads plain)
    have to: "ex_file_off e + word_of_nat (length plain) = to"
      using saturating_add_nowrap(1) [OF fit] by (simp add: len to_def)
    show ?thesis
      unfolding emit_extent_def Let_def Inline extent_kind.case
      by (rule achieves_bind, rule load, unfold to, rule src,
          rule inline_source_reads [OF Inline plain]) (simp_all add: len)
  next
    case (Regular addr n off)
    consider (zero) "addr = 0" | (raw) "addr \<noteq> 0" "ex_compression e = 0"
      | (comp) "addr \<noteq> 0" "ex_compression e \<noteq> 0" by blast
    then show ?thesis
    proof cases
      case zero
      show ?thesis
        by (rule hole)
          (simp_all add: emit_extent_def Let_def to_def Regular zero extent_byte_def fun_eq_iff)
    next
      case raw
      have "unat addr + unat off < 2 ^ 64" using ok Regular raw by (simp add: readable_def)
      then have "emit_extent x vec_sink end' e pos
          = emit vec_sink end' (ex_file_off e) to pos (Some (disk_source (addr + off) (ex_file_off e)))"
        by (simp add: emit_extent_def Let_def to_def Regular raw checked_add_def)
      then show ?thesis
        by (simp, intro src disk_source_reads [OF Regular raw ok]) (simp_all add: core_reads)
    next
      case comp
      then obtain plain where plain:
          "decode_extent x c addr n (ex_compression e) (ex_ram_bytes e) = Inr plain"
          "unat off + unat (ex_len e) \<le> length plain" "length plain < 2 ^ 64"
        using ok Regular by (auto simp: readable_def)
      have load: "achieves (written x c es C start (unat pos))
          (on_fst (compressed_extent x addr n (ex_compression e) (ex_ram_bytes e))) plain
          (written x c es C start (unat pos))"
        by (rule achieves_on_fst [OF compressed_extent_achieves [OF co e Regular comp(2) plain(1)]])
      have step: "emit_extent x vec_sink end' e pos = sbind
          (on_fst (compressed_extent x addr n (ex_compression e) (ex_ram_bytes e)))
          (\<lambda>plain. emit vec_sink end' (ex_file_off e) to pos
             (Some (plain_source plain off (ex_file_off e))))"
        by (simp add: emit_extent_def Let_def to_def Regular comp)
      show ?thesis
        unfolding step
        by (rule achieves_bind, rule load, rule src, rule plain_source_reads [OF Regular comp plain])
    qed
  qed
qed


lemma emit_pos_ge: "pos \<le> emit_pos end' frm to pos"
  by (auto simp: emit_pos_def not_le)

lemma emit_pos_le: "emit_pos end' frm to pos = pos \<or> emit_pos end' frm to pos \<le> end'"
  by (simp add: emit_pos_def)

lemma emit_pos_past:
  assumes "\<not> (end' \<le> pos \<or> end' \<le> frm)" and "unat (emit_pos end' frm to pos) \<le> p"
    and "p < unat end'" and "unat frm \<le> p"
  shows "unat to \<le> p"
proof (cases "min to end' \<le> max frm pos")
  case True
  with assms(1) have "to \<le> max frm pos" by (auto simp: min_def max_def split: if_splits)
  with assms True show ?thesis
    by (auto simp: emit_pos_def max_def word_le_nat_alt split: if_splits)
next
  case False
  with assms(2,3) show ?thesis
    by (auto simp: emit_pos_def min_def word_le_nat_alt split: if_splits)
qed

lemma file_byte_Cons:
  "file_byte x c disk (e # es) p =
     (if covers e p then extent_byte x c disk e p else file_byte x c disk es p)"
  by (simp add: file_byte_def)

lemma file_byte_before:
  "\<forall>e \<in> set es. p < unat (ex_file_off e) \<Longrightarrow> file_byte x c disk es p = 0"
proof -
  assume "\<forall>e \<in> set es. p < unat (ex_file_off e)"
  then have "find (\<lambda>e. covers e p) es = None" by (auto simp: find_None_iff covers_def)
  then show ?thesis by (simp add: file_byte_def)
qed

lemma range_loop_achieves:
  assumes "coherent es" and "set rest \<subseteq> set es" and "\<forall>e \<in> set rest. readable x c disk e"
    and "sorted (map ex_file_off rest)" and "start \<le> unat pos"
    and "\<And>p. unat pos \<le> p \<Longrightarrow> p < unat end' \<Longrightarrow> C p = file_byte x c disk rest p"
  shows "\<exists>pos'. achieves (written x c es C start (unat pos)) (range_loop x vec_sink end' rest pos)
       pos' (written x c es C start (unat pos'))
     \<and> pos \<le> pos' \<and> (pos' = pos \<or> pos' \<le> end')
     \<and> (\<forall>p. unat pos' \<le> p \<and> p < unat end' \<longrightarrow> C p = 0)"
  using assms(2-)
proof (induction rest arbitrary: pos)
  case Nil
  then show ?case by (intro exI [of _ pos]) (auto simp: achieves_def file_byte_def)
next
  case (Cons e rest)
  let ?frm = "ex_file_off e" and ?to = "saturating_add (ex_file_off e) (ex_len e)"
  have later: "\<forall>e' \<in> set rest. unat ?frm \<le> unat (ex_file_off e')"
    using Cons.prems(3) by (simp add: word_le_nat_alt)
  show ?case
  proof (cases "end' \<le> pos \<or> end' \<le> ?frm")
    case True
    have "C p = 0" if p: "unat pos \<le> p" "p < unat end'" for p
    proof -
      have "unat end' \<le> unat ?frm" using True p by (auto simp: word_le_nat_alt)
      then have "file_byte x c disk (e # rest) p = 0"
        using later p(2) by (intro file_byte_before) auto
      with Cons.prems(5) [OF p] show ?thesis by simp
    qed
    with True show ?thesis by (intro exI [of _ pos]) (auto simp: achieves_def)
  next
    case wanted: False
    show ?thesis
    proof (cases "?to \<le> pos")
      case True
      have "C p = file_byte x c disk rest p" if p: "unat pos \<le> p" "p < unat end'" for p
        using Cons.prems(5) [OF p] True p(1)
        by (simp add: file_byte_Cons covers_def word_le_nat_alt)
      with Cons.IH [of pos] Cons.prems(1-4) wanted True show ?thesis by auto
    next
      case False
      let ?pos = "emit_pos end' ?frm ?to pos"
      have "fills C pos end' e (extent_byte x c disk e)"
        unfolding fills_def
      proof (intro allI impI, elim conjE, intro conjI impI)
        fix p assume p: "unat pos \<le> p" "p < unat end'"
        note C = Cons.prems(5) [OF p]
        { assume "p < unat ?frm"
          with later have "file_byte x c disk (e # rest) p = 0"
            by (intro file_byte_before) auto
          with C show "C p = 0" by simp }
        { assume "covers e p"
          with C show "C p = extent_byte x c disk e p" by (simp add: file_byte_Cons) }
      qed
      then have here: "achieves (written x c es C start (unat pos)) (emit_extent x vec_sink end' e pos)
          ?pos (written x c es C start (unat ?pos))"
        using Cons.prems(1,2,4) assms(1) by (intro emit_extent_achieves) auto
      have ge: "pos \<le> ?pos" by (rule emit_pos_ge)
      have "C p = file_byte x c disk rest p" if p: "unat ?pos \<le> p" "p < unat end'" for p
      proof -
        have "unat pos \<le> p" using ge p(1) by (simp add: word_le_nat_alt)
        moreover have "\<not> covers e p"
          using emit_pos_past [OF wanted p] by (auto simp: covers_def)
        ultimately show ?thesis using Cons.prems(5) p(2) by (simp add: file_byte_Cons)
      qed
      moreover have "start \<le> unat ?pos" using ge Cons.prems(4) by (simp add: word_le_nat_alt)
      ultimately obtain pos' where rest: "achieves (written x c es C start (unat ?pos))
            (range_loop x vec_sink end' rest ?pos) pos' (written x c es C start (unat pos'))"
          and pos': "?pos \<le> pos'" "pos' = ?pos \<or> pos' \<le> end'" "\<forall>p. unat pos' \<le> p \<and> p < unat end' \<longrightarrow> C p = 0"
        using Cons.IH [of ?pos] Cons.prems(1-3) by auto
      have "range_loop x vec_sink end' (e # rest) pos
          = sbind (emit_extent x vec_sink end' e pos) (\<lambda>p. range_loop x vec_sink end' rest p)"
        using wanted False by simp
      with achieves_bind [OF here, of "\<lambda>p. range_loop x vec_sink end' rest p", OF rest] pos' ge
        emit_pos_le [of end' ?frm ?to pos]
      show ?thesis by (intro exI [of _ pos']) (auto intro: order_trans)
    qed
  qed
qed

text \<open>Reading a range of a file whose inode and extents are known.\<close>

lemma read_range_achieves:
  assumes inode: "achieves (\<lambda>s. I s) (inode x l) i I"
    and extents: "achieves (\<lambda>s. I s) (extents x l) es (reads x c es)"
    and es: "coherent es" "\<forall>e \<in> set es. readable x c disk e" "sorted (map ex_file_off es)"
  shows "achieves (\<lambda>st. I (fst st) \<and> snd st = []) (read_range x l start end' vec_sink) ()
     (\<lambda>st. reads x c es (fst st)
        \<and> snd st = map (file_byte x c disk es) [unat start ..< unat (min end' (i_size i))])"
proof -
  let ?fin = "min end' (i_size i)" and ?C = "file_byte x c disk es"
  from range_loop_achieves [OF es(1) subset_refl es(2,3) order_refl, of start ?fin ?C]
  obtain pos where loop: "achieves (written x c es ?C (unat start) (unat start))
        (range_loop x vec_sink ?fin es start) pos (written x c es ?C (unat start) (unat pos))"
      and pos: "start \<le> pos" "pos = start \<or> pos \<le> ?fin" "\<forall>p. unat pos \<le> p \<and> p < unat ?fin \<longrightarrow> ?C p = 0"
    by auto
  have tail: "achieves (written x c es ?C (unat start) (unat pos))
      (emit vec_sink ?fin pos ?fin pos None) (emit_pos ?fin pos ?fin pos)
      (written x c es ?C (unat start) (unat (emit_pos ?fin pos ?fin pos)))"
    by (rule emit_achieves) (use pos in \<open>auto simp: word_le_nat_alt\<close>)
  have reach: "map ?C [unat start ..< unat (emit_pos ?fin pos ?fin pos)]
      = map ?C [unat start ..< unat ?fin]"
  proof (cases "?fin \<le> pos")
    case True
    then have "emit_pos ?fin pos ?fin pos = pos" by (simp add: emit_pos_def)
    with True pos(2) show ?thesis
      by (elim disjE) (simp_all only: word_le_nat_alt, auto)
  next
    case False
    then show ?thesis by (simp add: emit_pos_def)
  qed
  note tail = tail [unfolded reach]
  have inode': "achieves (\<lambda>st. I (fst st) \<and> snd st = []) (on_fst (inode x l)) i
      (\<lambda>st. I (fst st) \<and> snd st = [])"
    by (rule achieves_on_fst [OF inode])
  have extents': "achieves (\<lambda>st. I (fst st) \<and> snd st = []) (on_fst (extents x l)) es
      (written x c es ?C (unat start) (unat start))"
    using achieves_on_fst [OF extents, of "\<lambda>out. out = []"] by simp
  have fin: "achieves (\<lambda>st. reads x c es (fst st) \<and> snd st = map ?C [unat start ..< unat ?fin])
      (sret ()) () (\<lambda>st. reads x c es (fst st) \<and> snd st = map ?C [unat start ..< unat ?fin])"
    by (simp add: achieves_def)
  show ?thesis
    unfolding read_range_def Let_def
    by (rule achieves_bind, rule inode', rule achieves_bind, rule extents', rule achieves_bind,
        rule loop, rule achieves_bind, rule tail, rule fin)
qed


section \<open>The length is exact on any file system\<close>

text \<open>Whatever is on the device, the pieces that reach the sink make up the range asked for.\<close>

abbreviation sent :: "nat \<Rightarrow> u64 \<Rightarrow> fs \<times> bytes \<Rightarrow> bool" where
  "sent start pos \<equiv> \<lambda>st. length (snd st) + start = unat pos"

definition exact_source :: "source \<Rightarrow> u64 \<Rightarrow> u64 \<Rightarrow> bool" where
  "exact_source read frm to \<longleftrightarrow>
     (\<forall>s at n d. frm \<le> at \<longrightarrow> unat at + unat n \<le> unat to \<longrightarrow> read s at n = Inr d \<longrightarrow> length d = unat n)"

lemma sink_sent:
  assumes "length (piece_bytes p) + unat pos = unat pos'"
  shows "yields (sent start pos) (on_snd (vec_sink p)) (\<lambda>_. sent start pos')"
  using assms by (auto simp: yields_def on_snd_Inr_iff vec_sink_def)

lemma data_loop_sent:
  assumes src: "exact_source read frm to" and "frm \<le> at" and "at \<le> to"
  shows "yields (sent start at) (data_loop vec_sink read at to) (\<lambda>_. sent start to)"
  using assms(2,3)
proof (induction "unat to - unat at" arbitrary: at rule: less_induct)
  case less
  show ?case
  proof (cases "at < to")
    case False
    with less.prems have "at = to" by simp
    then show ?thesis by (simp add: data_loop.simps yields_def)
  next
    case True
    define n where "n = min (to - at) 0x100000"
    note step = min_step [OF True, folded n_def]
    have inside: "frm \<le> at + n" "at + n \<le> to"
      using less.prems step by (simp_all add: word_le_nat_alt)
    have data: "yields (sent start at) (from_source read at n)
        (\<lambda>d st. sent start at st \<and> length d = unat n)"
      using src less.prems(1) step(3)
      by (auto simp: yields_def from_source_def on_fst_Inr_iff exact_source_def)
    have sink: "yields (\<lambda>st. sent start at st \<and> length d = unat n) (on_snd (vec_sink (Data d)))
        (\<lambda>_. sent start (at + n))" for d
      using step(1) by (auto simp: yields_def on_snd_Inr_iff vec_sink_def piece_bytes_def)
    have rest: "yields (sent start (at + n)) (data_loop vec_sink read (at + n) to)
        (\<lambda>_. sent start to)"
      by (rule less.hyps) (use inside step less.prems in \<open>auto simp: word_le_nat_alt\<close>)
    show ?thesis
      unfolding data_loop.simps [of vec_sink read at to] n_def [symmetric] Let_def
      by (simp only: True if_True)
        (rule yields_bind, rule data, rule yields_bind, rule sink, rule rest)
  qed
qed

lemma emit_sent:
  assumes "\<And>read. dat = Some read \<Longrightarrow> exact_source read frm to"
  shows "yields (sent start pos) (emit vec_sink end' frm to pos dat)
     (\<lambda>pos' st. sent start pos' st \<and> pos' = emit_pos end' frm to pos)"
proof -
  define f t where "f = max frm pos" and "t = min to end'"
  show ?thesis
  proof (cases "t \<le> f")
    case True
    then show ?thesis
      unfolding emit_def emit_pos_def Let_def f_def [symmetric] t_def [symmetric]
      by (simp add: yields_def)
  next
    case False
    then have ft: "f \<le> t" by simp
    have pf: "pos \<le> f" "frm \<le> f" "t \<le> to" by (simp_all add: f_def t_def)
    have zeros: "length (piece_bytes (Zeros (b - a))) + unat a = unat b" if "a \<le> b" for a b :: u64
      using that by (simp add: piece_bytes_def unat_minus_le word_le_nat_alt)
    have fill: "yields (sent start pos)
        (if pos < f then on_snd (vec_sink (Zeros (f - pos))) else sret ()) (\<lambda>_. sent start f)"
      using pf(1) by (auto intro!: yields_if sink_sent zeros yields_ret)
    have body: "yields (sent start f)
        (case dat of None \<Rightarrow> on_snd (vec_sink (Zeros (t - f)))
         | Some read \<Rightarrow> data_loop vec_sink read f t) (\<lambda>_. sent start t)"
    proof (cases dat)
      case None
      then show ?thesis by (auto intro!: sink_sent zeros ft)
    next
      case (Some read)
      have "exact_source read frm t"
        using assms [OF Some] pf(3) unfolding exact_source_def word_le_nat_alt
        by (meson order_trans)
      then show ?thesis
        using Some pf(2) ft by (simp add: data_loop_sent)
    qed
    have "emit_pos end' frm to pos = t"
      using False by (simp add: emit_pos_def f_def t_def)
    then have "yields (sent start t) (sret t)
        (\<lambda>pos' st. sent start pos' st \<and> pos' = emit_pos end' frm to pos)"
      by (simp add: yields_def)
    then show ?thesis
      unfolding emit_def Let_def f_def [symmetric] t_def [symmetric]
      by (simp only: False if_False)
        (rule yields_bind, rule fill, rule yields_bind, rule body, assumption)
  qed
qed

lemma inline_source_exact:
  "exact_source (inline_source plain frm) frm (frm + word_of_nat (length plain))"
  unfolding exact_source_def
proof (intro allI impI)
  fix s at n d
  assume frm: "frm \<le> at" and fit: "unat at + unat n \<le> unat (frm + word_of_nat (length plain))"
    and d: "inline_source plain frm s at n = Inr d"
  have "unat (frm + word_of_nat (length plain)) \<le> unat frm + length plain"
    by (simp add: unat_word_ariths unat_of_nat)
  with fit frm have "unat (at - frm) + unat n \<le> length plain"
    by (simp add: unat_minus_le word_le_nat_alt)
  with d show "length d = unat n" by (auto simp: inline_source_def)
qed

lemma disk_source_exact: "exact_source (disk_source base frm) frm to"
  by (auto simp: exact_source_def disk_source_def dest: read_logical_length split: option.splits)

lemma plain_source_exact: "exact_source (plain_source plain offset frm) frm to"
  unfolding exact_source_def
proof (intro allI impI)
  fix s at n d
  assume d: "plain_source plain offset frm s at n = Inr d"
  let ?i = "unat (offset + (at - frm))"
  have i: "?i < 2 ^ 64" and n: "unat n < 2 ^ 64" by simp_all
  from d have le: "?i \<le> (?i + unat n) mod 2 ^ 64"
      and len: "(?i + unat n) mod 2 ^ 64 \<le> length plain"
      and eq: "d = take ((?i + unat n) mod 2 ^ 64 - ?i) (drop ?i plain)"
    by (auto simp: plain_source_def Let_def get_range_def split: if_splits)
  have "(?i + unat n) mod 2 ^ 64 = ?i + unat n" by (rule mod_sum_ge [OF i n le])
  with eq len show "length d = unat n" by simp
qed

lemma emit_extent_sent:
  "yields (sent start pos) (emit_extent x vec_sink end' e pos)
     (\<lambda>pos' st. sent start pos' st \<and> pos \<le> pos' \<and> (pos' = pos \<or> pos' \<le> end'))"
proof -
  have any: "yields (sent start pos) (on_fst m) (\<lambda>_. sent start pos)" for m :: "(fs, 'a) eff"
    by (auto simp: yields_def on_fst_Inr_iff)
  have emit: "yields (sent start pos) (emit vec_sink end' frm to pos dat)
     (\<lambda>pos' st. sent start pos' st \<and> pos \<le> pos' \<and> (pos' = pos \<or> pos' \<le> end'))"
    if "\<And>read. dat = Some read \<Longrightarrow> exact_source read frm to" for frm to dat
    by (rule yields_weaken [OF emit_sent [OF that]])
      (use emit_pos_ge emit_pos_le in \<open>auto\<close>)
  show ?thesis
  proof (cases "ex_kind e")
    case (Inline raw)
    then show ?thesis
      by (auto simp: emit_extent_def Let_def inline_source_exact intro!: yields_bind [OF any] emit)
  next
    case (Regular addr n off)
    then show ?thesis
      by (auto simp: emit_extent_def Let_def disk_source_exact plain_source_exact yields_throw
          intro!: yields_bind [OF any] emit split: option.splits)
  next
    case Prealloc
    then show ?thesis by (auto simp: emit_extent_def Let_def intro!: emit)
  qed
qed

lemma range_loop_sent:
  "yields (sent start pos) (range_loop x vec_sink end' es pos)
     (\<lambda>pos' st. sent start pos' st \<and> pos \<le> pos' \<and> (pos' = pos \<or> pos' \<le> end'))"
proof (induction es arbitrary: pos)
  case Nil
  then show ?case by (simp add: yields_def)
next
  case (Cons e es)
  have "yields (\<lambda>st. sent start pos' st \<and> pos \<le> pos' \<and> (pos' = pos \<or> pos' \<le> end'))
      (range_loop x vec_sink end' es pos')
      (\<lambda>p st. sent start p st \<and> pos \<le> p \<and> (p = pos \<or> p \<le> end'))" for pos'
    unfolding yields_def
  proof (intro allI impI, elim conjE)
    fix st y t
    assume "sent start pos' st" "pos \<le> pos'" "pos' = pos \<or> pos' \<le> end'"
      and "range_loop x vec_sink end' es pos' st = (Inr y, t)"
    with yieldsD [OF Cons.IH [of pos'], of st y t]
    show "sent start y t \<and> pos \<le> y \<and> (y = pos \<or> y \<le> end')" by (auto intro: order_trans)
  qed
  then have "yields (sent start pos)
      (sbind (emit_extent x vec_sink end' e pos) (\<lambda>pos'. range_loop x vec_sink end' es pos'))
      (\<lambda>p st. sent start p st \<and> pos \<le> p \<and> (p = pos \<or> p \<le> end'))"
    by (rule yields_bind [OF emit_extent_sent])
  then show ?case
    using Cons.IH by (auto intro!: yields_if yields_ret)
qed

lemma read_range_sent:
  assumes "read_range x l start end' vec_sink (s, []) = (Inr (), st)"
  shows "\<exists>i. fst (inode x l s) = Inr i
     \<and> length (snd st) = unat (min end' (i_size i)) - unat start"
proof -
  from assms obtain i t es u pos v w where i: "inode x l s = (Inr i, t)"
      and loop: "range_loop x vec_sink (min end' (i_size i)) es start (u, []) = (Inr pos, v)"
      and tail: "emit vec_sink (min end' (i_size i)) pos (min end' (i_size i)) pos None v = (Inr w, st)"
    by (auto simp: read_range_def sbind_Inr_iff on_fst_Inr_iff Let_def)
  let ?fin = "min end' (i_size i)"
  from yieldsD [OF range_loop_sent _ loop, of "unat start"]
  have v: "sent (unat start) pos v" "start \<le> pos" "pos = start \<or> pos \<le> ?fin" by auto
  from yieldsD [OF emit_sent _ tail, of "unat start"] v(1)
  have "length (snd st) + unat start = unat (emit_pos ?fin pos ?fin pos)" by auto
  with v(2,3) i show ?thesis
    by (auto simp: emit_pos_def word_le_nat_alt split: if_splits)
qed

end
