(* ===== verification/Text.thy ===== *)
theory Text
  imports Prelude
begin

text \<open>
  The string functions of the standard library the program uses: splitting and joining,
  prefixes, trimming, ASCII case, and decimal numbers as \<open>format!\<close> prints and
  \<open>str::parse\<close> reads them.  Strings are their UTF-8 bytes; every character these functions
  look for is ASCII.
\<close>

section \<open>Printing and parsing\<close>

text \<open>
  A printed form: what is printed parses back, and nothing else parses.  So a value has one
  spelling.
\<close>

locale text_codec =
  fixes pr :: "'a \<Rightarrow> string"
    and parse :: "string \<Rightarrow> 'a option"
    and ok :: "'a \<Rightarrow> bool"
  assumes parse_show: "ok v \<Longrightarrow> parse (pr v) = Some v"
    and parse_only: "parse s = Some v \<Longrightarrow> ok v \<and> s = pr v"
begin

lemma parse_iff: "parse s = Some v \<longleftrightarrow> ok v \<and> s = pr v"
  using parse_show parse_only by blast

lemma pr_inj: "ok v \<Longrightarrow> ok w \<Longrightarrow> pr v = pr w \<Longrightarrow> v = w"
  using parse_show by (metis option.inject)

end

section \<open>Splitting and joining\<close>

text \<open>\<open>str::split\<close> with a set of characters.\<close>

fun split_on :: "(char \<Rightarrow> bool) \<Rightarrow> string \<Rightarrow> string list" where
  "split_on p [] = [[]]"
| "split_on p (c # cs) =
     (if p c then [] # split_on p cs
      else (case split_on p cs of [] \<Rightarrow> [[c]] | w # ws \<Rightarrow> (c # w) # ws))"

text \<open>\<open>[String]::join\<close>\<close>

fun join_with :: "string \<Rightarrow> string list \<Rightarrow> string" where
  "join_with sep [] = []"
| "join_with sep [w] = w"
| "join_with sep (w # w' # ws) = w @ sep @ join_with sep (w' # ws)"

definition strip_prefix :: "string \<Rightarrow> string \<Rightarrow> string option" where
  "strip_prefix p s = (if take (length p) s = p then Some (drop (length p) s) else None)"

text \<open>\<open>str::split_once\<close>, at the first occurrence of a string.\<close>

fun split_once :: "string \<Rightarrow> string \<Rightarrow> (string \<times> string) option" where
  "split_once sep [] = None"
| "split_once sep (c # cs) =
     (case strip_prefix sep (c # cs) of
        Some r \<Rightarrow> Some ([], r)
      | None \<Rightarrow> map_option (\<lambda>(a, b). (c # a, b)) (split_once sep cs))"

definition trim_end_matches :: "char \<Rightarrow> string \<Rightarrow> string" where
  "trim_end_matches c s = rev (dropWhile (\<lambda>d. d = c) (rev s))"

definition ascii_lower :: "char \<Rightarrow> char" where
  "ascii_lower c =
     (let n = of_char c :: nat in if 65 \<le> n \<and> n \<le> 90 then char_of (n + 32) else c)"

definition ascii_upper :: "char \<Rightarrow> char" where
  "ascii_upper c =
     (let n = of_char c :: nat in if 97 \<le> n \<and> n \<le> 122 then char_of (n - 32) else c)"

lemma split_on_nonempty [simp]: "split_on p s \<noteq> []"
  by (cases s) (auto split: list.splits)

lemma split_on_clean: "(\<forall>c \<in> set w. \<not> p c) \<Longrightarrow> split_on p w = [w]"
  by (induction w) auto

lemma split_on_append:
  "(\<forall>c \<in> set w. \<not> p c) \<Longrightarrow> p d \<Longrightarrow> split_on p (w @ d # s) = w # split_on p s"
  by (induction w) auto

lemma split_on_words: "w \<in> set (split_on p s) \<Longrightarrow> c \<in> set w \<Longrightarrow> \<not> p c"
proof (induction s arbitrary: w)
  case (Cons d s)
  then show ?case
    by (cases "split_on p s") (auto split: if_splits, blast)
qed simp

lemma split_on_join: "join_with [d] (split_on (\<lambda>c. c = d) s) = s"
proof (induction s)
  case (Cons c s)
  obtain w ws where ws: "split_on (\<lambda>c. c = d) s = w # ws" by (cases "split_on (\<lambda>c. c = d) s") auto
  with Cons show ?case by (cases ws) auto
qed simp

lemma strip_prefix_Some: "strip_prefix p s = Some r \<longleftrightarrow> s = p @ r"
  by (auto simp: strip_prefix_def) (metis append_take_drop_id)

lemma split_once_Some: "split_once sep s = Some (a, b) \<Longrightarrow> s = a @ sep @ b"
proof (induction s arbitrary: a)
  case (Cons c s)
  then show ?case
    by (auto simp: strip_prefix_Some split: option.splits)
qed simp

lemma split_once_char: "split_once [d] s = Some (a, b) \<longleftrightarrow> s = a @ d # b \<and> d \<notin> set a"
proof (induction s arbitrary: a)
  case (Cons c s)
  show ?case
  proof (cases "c = d")
    case True
    then have "strip_prefix [d] (c # s) = Some s" by (simp add: strip_prefix_def)
    with True show ?thesis by (cases a) auto
  next
    case False
    then have "strip_prefix [d] (c # s) = None" by (simp add: strip_prefix_def)
    with False Cons show ?thesis by (cases a) auto
  qed
qed simp

section \<open>Decimal numbers\<close>

definition is_digit :: "char \<Rightarrow> bool" where
  "is_digit c \<longleftrightarrow> 48 \<le> (of_char c :: nat) \<and> (of_char c :: nat) \<le> 57"

definition digit_char :: "nat \<Rightarrow> char" where
  "digit_char d = char_of (48 + d)"

fun dec_string :: "nat \<Rightarrow> string" where
  "dec_string n =
     (if n < 10 then [digit_char n] else dec_string (n div 10) @ [digit_char (n mod 10)])"

declare dec_string.simps [simp del]

definition dec_value :: "string \<Rightarrow> nat" where
  "dec_value s = foldl (\<lambda>acc c. acc * 10 + (of_char c - 48)) 0 s"

text \<open>Decimal digits with no leading zero but that of \<open>0\<close> itself.\<close>

definition canonical :: "string \<Rightarrow> bool" where
  "canonical s \<longleftrightarrow> s \<noteq> [] \<and> list_all is_digit s \<and> (s = ''0'' \<or> hd s \<noteq> CHR ''0'')"

lemma digit_char_zero: "digit_char 0 = CHR ''0''"
  by (simp add: digit_char_def) code_simp

lemma of_digit_char: "d < 10 \<Longrightarrow> (of_char (digit_char d) :: nat) = 48 + d"
  by (simp add: digit_char_def)

lemma is_digit_char: "d < 10 \<Longrightarrow> is_digit (digit_char d)"
  by (simp add: is_digit_def of_digit_char)

lemma digit_char_of: "is_digit c \<Longrightarrow> digit_char (of_char c - 48) = c"
  by (simp add: is_digit_def digit_char_def)

lemma digit_value: "is_digit c \<Longrightarrow> (of_char c :: nat) - 48 < 10"
  by (auto simp: is_digit_def)

lemma digit_zero: "is_digit c \<Longrightarrow> (of_char c :: nat) - 48 = 0 \<longleftrightarrow> c = CHR ''0''"
  using digit_char_of [of c] digit_char_zero by auto

lemma dec_value_snoc: "dec_value (s @ [c]) = dec_value s * 10 + (of_char c - 48)"
  by (simp add: dec_value_def)

lemma dec_value_Nil [simp]: "dec_value [] = 0"
  by (simp add: dec_value_def)

lemma dec_string_digits: "list_all is_digit (dec_string n)"
  by (induction n rule: dec_string.induct)
    (subst dec_string.simps, auto simp: is_digit_char)

lemma dec_string_lower: "map ascii_lower (dec_string n) = dec_string n"
  using dec_string_digits [of n]
  by (intro map_idI) (auto simp: list_all_iff is_digit_def ascii_lower_def)

lemma dec_string_nonempty [simp]: "dec_string n \<noteq> []"
  by (subst dec_string.simps) simp

lemma dec_value_string [simp]: "dec_value (dec_string n) = n"
proof (induction n rule: dec_string.induct)
  case (1 n)
  show ?case
  proof (cases "n < 10")
    case True
    then show ?thesis
      by (subst dec_string.simps) (simp add: dec_value_def of_digit_char)
  next
    case False
    with 1 show ?thesis
      by (subst dec_string.simps) (simp add: dec_value_snoc of_digit_char)
  qed
qed

lemma dec_string_head: "hd (dec_string n) = CHR ''0'' \<Longrightarrow> n = 0"
proof (induction n rule: dec_string.induct)
  case (1 n)
  show ?case
  proof (cases "n < 10")
    case True
    then have "digit_char n = CHR ''0''" using 1(2) by (subst (asm) dec_string.simps) simp
    then have "(of_char (digit_char n) :: nat) = of_char (digit_char 0)"
      by (simp only: digit_char_zero)
    with True show ?thesis by (simp add: of_digit_char)
  next
    case False
    then have "hd (dec_string n) = hd (dec_string (n div 10))"
      by (subst dec_string.simps) simp
    with 1 False show ?thesis by simp
  qed
qed

lemma dec_string_zero: "dec_string 0 = ''0''"
  by (subst dec_string.simps) (simp add: digit_char_zero)

lemma dec_string_canonical: "canonical (dec_string n)"
  using dec_string_digits dec_string_head [of n] dec_string_zero by (auto simp: canonical_def)

lemma canonical_value_pos:
  assumes "list_all is_digit s" and "s \<noteq> []" and "hd s \<noteq> CHR ''0''"
  shows "0 < dec_value s"
  using assms
proof (induction s rule: rev_induct)
  case (snoc c s)
  show ?case
  proof (cases "s = []")
    case True
    with snoc.prems have "is_digit c" "c \<noteq> CHR ''0''" by simp_all
    then have "(of_char c :: nat) - 48 \<noteq> 0" by (subst digit_zero)
    with True show ?thesis by (simp add: dec_value_def)
  next
    case False
    with snoc show ?thesis by (simp add: dec_value_snoc)
  qed
qed simp

lemma dec_string_value:
  assumes "canonical s"
  shows "dec_string (dec_value s) = s"
proof (cases "s = ''0''")
  case True
  then show ?thesis by (simp add: dec_value_def dec_string_zero)
next
  case False
  with assms have "list_all is_digit s" "s \<noteq> []" "hd s \<noteq> CHR ''0''" by (simp_all add: canonical_def)
  then show ?thesis
  proof (induction s rule: rev_induct)
    case (snoc c s)
    then have c: "is_digit c" by simp
    show ?case
    proof (cases "s = []")
      case True
      with c show ?thesis
        using digit_value [OF c] digit_char_of [OF c]
        by (subst dec_string.simps) (simp add: dec_value_def)
    next
      case False
      with snoc have s: "dec_string (dec_value s) = s" "0 < dec_value s"
        using canonical_value_pos [of s] by simp_all
      then show ?thesis
        using digit_value [OF c] digit_char_of [OF c]
        by (subst dec_string.simps) (simp add: dec_value_snoc)
    qed
  qed simp
qed

lemma canonical_iff: "canonical s \<longleftrightarrow> (\<exists>n. s = dec_string n)"
  using dec_string_canonical dec_string_value by metis

lemma dec_string_inject [simp]: "dec_string m = dec_string n \<longleftrightarrow> m = n"
  by (metis dec_value_string)

lemma length_dec_string: "0 < k \<Longrightarrow> length (dec_string n) \<le> k \<longleftrightarrow> n < 10 ^ k"
proof (induction n arbitrary: k rule: dec_string.induct)
  case (1 n)
  show ?case
  proof (cases "n < 10")
    case True
    have "(10 :: nat) ^ 1 \<le> 10 ^ k" using 1(2) by (intro power_increasing) simp_all
    with True have "n < 10 ^ k" by simp
    with True 1(2) show ?thesis by (subst dec_string.simps) simp
  next
    case False
    then obtain j where k: "k = Suc j" using 1(2) by (cases k) auto
    have len: "length (dec_string n) = Suc (length (dec_string (n div 10)))"
      using False by (subst dec_string.simps) simp
    show ?thesis
    proof (cases "j = 0")
      case True
      with k False len show ?thesis by simp
    next
      case False
      then show ?thesis
        using 1(1) [of j] \<open>\<not> n < 10\<close> len k
        by (simp add: div_less_iff_less_mult mult.commute)
    qed
  qed
qed

text \<open>\<open>str::parse::<u64>\<close>.\<close>

definition parse_u64 :: "string \<Rightarrow> u64 option" where
  "parse_u64 s =
     (let d = (case s of c # cs \<Rightarrow> if c = CHR ''+'' \<and> cs \<noteq> [] then cs else s | [] \<Rightarrow> s) in
      if d = [] \<or> \<not> list_all is_digit d then None
      else if dec_value d < 2 ^ 64 then Some (word_of_nat (dec_value d)) else None)"

definition show_u64 :: "u64 \<Rightarrow> string" where
  "show_u64 w = dec_string (unat w)"

lemma parse_u64_digits:
  assumes "list_all is_digit s" and "s \<noteq> []" and "dec_value s < 2 ^ 64"
  shows "parse_u64 s = Some (word_of_nat (dec_value s))"
proof -
  have "\<not> is_digit (CHR ''+'')" by (simp add: is_digit_def)
  with assms show ?thesis by (cases s) (auto simp: parse_u64_def)
qed

lemma parse_show_u64 [simp]: "parse_u64 (show_u64 w) = Some w"
  using parse_u64_digits [OF dec_string_digits, of "unat w"] unat_u64_lt [of w]
  by (simp add: show_u64_def)

end
