(* ===== verification/Fs_Lookup.thy ===== *)
theory Fs_Lookup
  imports Fs_Read Text
begin

text \<open>
  Names (src/fs.rs): directory entries and what they point to, lookup of one name, listing a
  directory, resolving a path, the default subvolume, and the paths of all subvolumes.
\<close>

section \<open>Directory entries\<close>

definition entry :: "ext \<Rightarrow> loc \<Rightarrow> dir_entry \<Rightarrow> (fs, entry) eff" where
  "entry x dir e =
     (if kty (de_location e) \<noteq> ROOT_ITEM_KEY then
        sret \<lparr>e_name = de_name e, e_loc = Loc (loc_tree dir) (objectid (de_location e)),
              e_ftype = de_ftype e, e_subvol = False\<rparr>
      else
        (let child = objectid (de_location e) in
         sbind (sget (\<lambda>s. sb_root (fs_sb s))) (\<lambda>root.
         sbind (get x root (Key (loc_tree dir) ROOT_REF_KEY child)) (\<lambda>linked.
         sbind
           (if linked \<noteq> None then
              sbind (tree x child) (\<lambda>r. sret (Loc child (tr_root_dirid r)))
            else sret (Loc 0 0))
           (\<lambda>l.
            sret \<lparr>e_name = de_name e, e_loc = l, e_ftype = FT_DIR, e_subvol = True\<rparr>)))))"

definition lookup :: "ext \<Rightarrow> loc \<Rightarrow> bytes \<Rightarrow> (fs, entry option) eff" where
  "lookup x dir name =
     (if is_placeholder dir then sret None
      else
        sbind (tree x (loc_tree dir)) (\<lambda>r.
        sbind
          (get x (tr_bytenr r)
             (Key (loc_ino dir) DIR_ITEM_KEY (name_hash (crc32c_append x) name)))
          (\<lambda>item.
        case item of
          None \<Rightarrow> sret None
        | Some it \<Rightarrow>
            sbind (slift (parse_dir_entries it)) (\<lambda>es.
            case find (\<lambda>e. de_name e = name) es of
              None \<Rightarrow> sret None
            | Some e \<Rightarrow> sbind (entry x dir e) (\<lambda>e'. sret (Some e'))))))"

definition readdir :: "ext \<Rightarrow> loc \<Rightarrow> (fs, entry list) eff" where
  "readdir x dir =
     (if is_placeholder dir then sret []
      else
        sbind (tree x (loc_tree dir)) (\<lambda>r.
        sbind
          (walk x (tr_bytenr r) (Key (loc_ino dir) DIR_INDEX_KEY 0)
             (Key (loc_ino dir) DIR_INDEX_KEY (- 1))
             (\<lambda>_ d raw. rbind (parse_dir_entries d) (\<lambda>es. Inr (True, raw @ es))) [])
          (\<lambda>(_, raw).
        sbind (smapM (entry x dir) raw) (\<lambda>out. sret (sort_key e_name out)))))"

section \<open>Paths\<close>

definition path_parts :: "string \<Rightarrow> string list" where
  "path_parts path =
     filter (\<lambda>p. p \<noteq> [] \<and> p \<noteq> ''.'')
       (split_on (\<lambda>c. c = CHR ''/'' \<or> c = CHR 0x5C) path)"

text \<open>The check that what has been reached so far can be descended into.\<close>

definition check_dir :: "ext \<Rightarrow> loc \<Rightarrow> string \<Rightarrow> (fs, unit) eff" where
  "check_dir x dir walked =
     (if is_placeholder dir then sret ()
      else
        sbind (inode x dir) (\<lambda>i.
        if is_symlink i then
          sbind (read_symlink_target x dir) (\<lambda>target.
          sthrow (Fs (SymlinkNotFollowed walked (from_utf8_lossy target))))
        else if \<not> is_dir i then sthrow (Fs (NotADirectory walked))
        else sret ()))"

fun resolve_loop :: "ext \<Rightarrow> string list \<Rightarrow> loc list \<Rightarrow> string \<Rightarrow> (fs, loc) eff" where
  "resolve_loop x [] stack walked = sret (last stack)"
| "resolve_loop x (part # parts) stack walked =
     (if part = ''..'' then
        resolve_loop x parts (if 1 < length stack then butlast stack else stack) walked
      else
        (let dir = last stack; walked' = walked @ ''/'' @ part in
         sbind (check_dir x dir walked) (\<lambda>_.
         sbind (lookup x dir (as_bytes part)) (\<lambda>found.
         case found of
           Some e \<Rightarrow> resolve_loop x parts (stack @ [e_loc e]) walked'
         | None \<Rightarrow> sthrow (PathNotFound walked')))))"

definition resolve :: "ext \<Rightarrow> string \<Rightarrow> (fs, loc) eff" where
  "resolve x path =
     sbind (root x) (\<lambda>r. resolve_loop x (path_parts path) [r] [])"

section \<open>Subvolumes\<close>

definition default_subvol :: "ext \<Rightarrow> (fs, u64) eff" where
  "default_subvol x =
     sbind (sget fs_sb) (\<lambda>sb.
     sbind
       (get x (sb_root sb)
          (Key (sb_root_dir_objectid sb) DIR_ITEM_KEY
             (name_hash (crc32c_append x) (as_bytes ''default''))))
       (\<lambda>item.
     case item of
       None \<Rightarrow> sret FS_TREE_OBJECTID
     | Some it \<Rightarrow>
         slift
           (rbind (parse_dir_entries it) (\<lambda>es.
            Inr (case es of [] \<Rightarrow> FS_TREE_OBJECTID | e # _ \<Rightarrow> objectid (de_location e))))))"

definition parent_ref :: "(u64 \<times> string) option visitor" where
  "parent_ref k d found =
     rbind (u16_at d 8) (\<lambda>len.
     rbind (bytes d 10 (unat len)) (\<lambda>name.
     Inr (False, Some (koffset k, from_utf8_lossy name))))"

text \<open>The climb of \<open>path_in_tree\<close>: at most 4096 names.\<close>

function climb :: "ext \<Rightarrow> u64 \<Rightarrow> tree_root \<Rightarrow> u64 \<Rightarrow> string list \<Rightarrow> (fs, string list) eff" where
  "climb x tid r ino parts =
     (if ino = tr_root_dirid r then sret parts
      else if 4096 \<le> length parts then sthrow (Fs (ParentChainTooLong ino tid))
      else
        sbind
          (walk x (tr_bytenr r) (Key ino INODE_REF_KEY 0) (Key ino INODE_REF_KEY (- 1))
             parent_ref None)
          (\<lambda>(_, found).
        case found of
          None \<Rightarrow> sthrow (Fs (NoParentReference ino tid))
        | Some (parent, name) \<Rightarrow> climb x tid r parent (parts @ [name])))"
  by pat_completeness auto
termination
  by (relation "measure (\<lambda>(x, tid, r, ino, parts). 4096 - length parts)") auto

declare climb.simps [simp del]

definition path_in_tree :: "ext \<Rightarrow> u64 \<Rightarrow> u64 \<Rightarrow> (fs, string) eff" where
  "path_in_tree x tid ino =
     sbind (tree x tid) (\<lambda>r.
     sbind (climb x tid r ino []) (\<lambda>parts. sret (join_with ''/'' (rev parts))))"

record root_info =
  ri_id :: u64
  ri_generation :: u64
  ri_readonly :: bool
  ri_snapshot :: bool

type_synonym backrefs = "(u64 \<times> (u64 \<times> u64 \<times> string)) list"

definition root_items :: "(root_info list \<times> backrefs) visitor" where
  "root_items k d v =
     (case v of (its, backrefs) \<Rightarrow>
        if kty k = ROOT_ITEM_KEY then
          rbind (snapshot_flag d) (\<lambda>snapshot.
          rbind (u64_at d 160) (\<lambda>generation.
          rbind (u64_at d 208) (\<lambda>flags.
          Inr (True,
            (its @ [\<lparr>ri_id = objectid k, ri_generation = generation,
                     ri_readonly = (flags AND 1 \<noteq> 0), ri_snapshot = snapshot\<rparr>],
             backrefs)))))
        else if kty k = ROOT_BACKREF_KEY then
          rbind (u16_at d 16) (\<lambda>len.
          rbind (bytes d 18 (unat len)) (\<lambda>name.
          rbind (u64_at d 0) (\<lambda>dirid.
          Inr (True,
            (its, hm_insert (objectid k) (koffset k, dirid, from_utf8_lossy name) backrefs)))))
        else Inr (True, (its, backrefs)))"

text \<open>
  One pass over the pending subvolumes: those whose parent's path is known get theirs, those
  whose parent is not known yet wait for the next pass, those without a back reference drop.
\<close>

fun subvol_pass ::
  "ext \<Rightarrow> backrefs \<Rightarrow> root_info list \<Rightarrow> (u64 \<times> string) list \<Rightarrow> subvol list \<Rightarrow> root_info list
     \<Rightarrow> (fs, (u64 \<times> string) list \<times> subvol list \<times> root_info list) eff" where
  "subvol_pass x backrefs [] paths out waiting = sret (paths, out, waiting)"
| "subvol_pass x backrefs (it # pending) paths out waiting =
     (case map_of backrefs (ri_id it) of
        None \<Rightarrow> subvol_pass x backrefs pending paths out waiting
      | Some (parent, dirid, name) \<Rightarrow>
          (case map_of paths parent of
             None \<Rightarrow> subvol_pass x backrefs pending paths out (waiting @ [it])
           | Some parent_path \<Rightarrow>
               sbind (path_in_tree x parent dirid) (\<lambda>dir.
               let path = join_with ''/'' (filter (\<lambda>w. w \<noteq> []) [parent_path, dir, name]) in
               subvol_pass x backrefs pending (hm_insert (ri_id it) path paths)
                 (out @ [\<lparr>sv_id = ri_id it, sv_parent = parent, sv_path = ''/'' @ path,
                          sv_readonly = ri_readonly it, sv_snapshot = ri_snapshot it,
                          sv_generation = ri_generation it\<rparr>])
                 waiting)))"

text \<open>
  The passes: as long as one shortens the list of those waiting.  \<open>fuel\<close> is the number of
  subvolumes, which \<open>subvol_passes_fuel\<close> shows to be enough.
\<close>

fun subvol_passes ::
  "ext \<Rightarrow> backrefs \<Rightarrow> nat \<Rightarrow> root_info list \<Rightarrow> (u64 \<times> string) list \<Rightarrow> subvol list
     \<Rightarrow> (fs, subvol list) eff" where
  "subvol_passes x backrefs fuel pending paths out =
     (if pending = [] then sret out
      else
        (case fuel of
           0 \<Rightarrow> sret out
         | Suc fuel' \<Rightarrow>
             sbind (subvol_pass x backrefs pending paths out []) (\<lambda>(paths', out', waiting).
             if length waiting = length pending then sret out'
             else subvol_passes x backrefs fuel' waiting paths' out')))"

declare subvol_passes.simps [simp del]

definition subvols :: "ext \<Rightarrow> (fs, subvol list) eff" where
  "subvols x =
     sbind (sget (\<lambda>s. sb_root (fs_sb s))) (\<lambda>root.
     sbind
       (walk x root (Key FIRST_FREE_OBJECTID 0 0) (Key LAST_FREE_OBJECTID 255 (- 1))
          root_items ([], []))
       (\<lambda>(_, its, backrefs).
     let its' = dedup_by_key ri_id its in
     sbind (subvol_passes x backrefs (length its') its' [(FS_TREE_OBJECTID, [])] [])
       (\<lambda>out. sret (sort_key sv_id out))))"


section \<open>No operation sees the caches\<close>

text \<open>
  Two states of one file system, with whatever nodes and roots cached, and the same extent
  decoded last, give every operation the same result; \<open>both\<close> adds what a sink writes to.
\<close>

definition alike :: "ext \<Rightarrow> fs \<Rightarrow> fs \<Rightarrow> fs \<Rightarrow> bool" where
  "alike x c s t \<longleftrightarrow> (\<exists>le. same x c (sound_roots x c (\<lambda>l. l = le)) s t)"

definition both :: "ext \<Rightarrow> fs \<Rightarrow> fs \<times> 'o \<Rightarrow> fs \<times> 'o \<Rightarrow> bool" where
  "both x c st st' \<longleftrightarrow> alike x c (fst st) (fst st') \<and> snd st = snd st'"

lemma alike_iff:
  "alike x c s t \<longleftrightarrow>
     caches_ok x s \<and> caches_ok x t \<and> core s = c \<and> core t = c
     \<and> fs_last_extent s = fs_last_extent t"
  by (auto simp: alike_def same_def view_def sound_roots_def caches_ok_def)

interpretation alike: observation "alike x c" for x c
  by unfold_locales (simp_all add: alike_iff)

interpretation both: observation "both x c" for x c
  by unfold_locales (auto simp: both_def intro: alike.rel_sym alike.rel_trans)

lemma steady_alike:
  assumes "\<And>Q. steady (same x c (sound_roots x c Q)) m"
  shows "steady (alike x c) m"
  unfolding steady_def
proof (intro allI impI)
  fix s t assume "alike x c s t"
  then obtain le where "same x c (sound_roots x c (\<lambda>l. l = le)) s t" by (auto simp: alike_def)
  with assms [of "\<lambda>l. l = le"]
  show "fst (m s) = fst (m t) \<and> alike x c (snd (m s)) (snd (m t))"
    by (auto simp: steady_def alike_def)
qed

lemma alike_core: "alike x c s t \<Longrightarrow> core s = core t"
  by (simp add: alike_iff)

lemma set_last_alike:
  "alike x c s t \<Longrightarrow> alike x c (s\<lparr>fs_last_extent := le\<rparr>) (t\<lparr>fs_last_extent := le\<rparr>)"
proof -
  assume a: "alike x c s t"
  have core: "core (u\<lparr>fs_last_extent := le\<rparr>) = core u" for u by (simp add: core_def)
  have "nodes_ok x (u\<lparr>fs_last_extent := le\<rparr>) = nodes_ok x u" for u
    using node_at_cong [OF core [of u], of x] by (simp add: nodes_ok_def)
  then show ?thesis
    using a by (auto simp: alike_iff caches_ok_def core)
qed

lemma compressed_extent_steady: "steady (alike x c) (compressed_extent x a n algo ram)"
  unfolding steady_def
proof (intro allI impI)
  fix s t assume a: "alike x c s t"
  then have dec: "decode_extent x s = decode_extent x t"
    using alike_core [OF a] by (metis decode_extent_core)
  have le: "fs_last_extent s = fs_last_extent t" using a by (simp add: alike_iff)
  show "fst (compressed_extent x a n algo ram s) = fst (compressed_extent x a n algo ram t)
      \<and> alike x c (snd (compressed_extent x a n algo ram s)) (snd (compressed_extent x a n algo ram t))"
    using a set_last_alike [OF a]
    by (auto simp: compressed_extent_def dec le split: option.splits sum.splits)
qed

lemma on_fst_steady: "steady (alike x c) m \<Longrightarrow> steady (both x c) (on_fst m)"
  by (simp add: steady_def both_def)

lemma on_snd_steady: "steady (both x c) (on_snd m)"
  by (simp add: steady_def both_def)

lemma pure_steady:
  assumes "\<And>s t. core s = core t \<Longrightarrow> f s = f t"
  shows "steady (alike x c) (\<lambda>s. (f s, s))"
  unfolding steady_def
proof (intro allI impI)
  fix s t assume a: "alike x c s t"
  with assms [OF alike_core [OF a]]
  show "fst (f s, s) = fst (f t, t) \<and> alike x c (snd (f s, s)) (snd (f t, t))" by simp
qed

definition core_source :: "source \<Rightarrow> bool" where
  "core_source read \<longleftrightarrow> (\<forall>s t. core s = core t \<longrightarrow> read s = read t)"

lemma core_sources:
  "core_source (inline_source plain frm)" "core_source (disk_source base frm)"
  "core_source (plain_source plain offset frm)"
proof -
  show "core_source (disk_source base frm)"
    unfolding core_source_def
  proof (intro allI impI ext)
    fix s t at n assume "core s = core t"
    then have "read_logical s = read_logical t" by (metis read_logical_core)
    then show "disk_source base frm s at n = disk_source base frm t at n"
      by (simp add: disk_source_def split: option.split)
  qed
qed (simp_all add: core_source_def inline_source_def [abs_def] plain_source_def [abs_def])

lemma core_sourceD: "core_source read \<Longrightarrow> core s = core t \<Longrightarrow> read s a n = read t a n"
  unfolding core_source_def by metis

lemma data_loop_steady:
  "core_source read \<Longrightarrow> steady (both x c) (data_loop sink read at to)"
proof (induction sink read at to rule: data_loop.induct)
  case (1 sink read at to)
  have "steady (both x c) (from_source read a n)" for a n
    unfolding from_source_def
    by (rule on_fst_steady, rule pure_steady, rule core_sourceD [OF "1.prems"])
  with 1 show ?case
    unfolding data_loop.simps [of sink read at to]
    by (intro both.steady_rules on_snd_steady) auto
qed

lemma emit_steady:
  assumes "\<And>read. dat = Some read \<Longrightarrow> core_source read"
  shows "steady (both x c) (emit sink end' frm to pos dat)"
  unfolding emit_def
  by (cases dat) (auto intro!: both.steady_rules on_snd_steady data_loop_steady assms simp: Let_def)

lemma emit_extent_steady: "steady (both x c) (emit_extent x sink end' e pos)"
proof -
  have "inline_plain x s = inline_plain x t" if "core s = core t" for s t
    using that by (metis inline_plain_core)
  then have plain: "steady (both x c) (on_fst (\<lambda>s. (inline_plain x s e raw, s)))" for raw
    by (intro on_fst_steady pure_steady) metis
  show ?thesis
    by (cases "ex_kind e")
      (auto simp: emit_extent_def Let_def core_sources intro!: both.steady_rules emit_steady plain
        on_fst_steady compressed_extent_steady)
qed

lemma range_loop_steady: "steady (both x c) (range_loop x sink end' es pos)"
proof (induction es arbitrary: pos)
  case Nil
  then show ?case by (simp only: range_loop.simps both.steady_ret)
next
  case (Cons e es)
  then show ?case
    unfolding range_loop.simps by (intro both.steady_rules emit_extent_steady)
qed

lemma inode_alike: "steady (alike x c) (inode x l)"
  by (rule steady_alike) (rule inode_steady)

lemma tree_alike: "steady (alike x c) (tree x tid)"
  by (rule steady_alike) (rule tree_steady)

lemma get_alike: "steady (alike x c) (get x r k)"
  by (rule steady_alike) (rule get_steady)

lemma walk_alike: "steady (alike x c) (walk x r mn mx visit v)"
  by (rule steady_alike) (rule walk_steady)

lemma sget_alike: "(\<And>s. f s = g (core s)) \<Longrightarrow> steady (alike x c) (sget f)"
  by (rule alike.steady_get) (simp add: alike_iff)

lemma get_root_alike: "steady (alike x c) (sget (\<lambda>s. sb_root (fs_sb s)))" "steady (alike x c) (sget fs_sb)"
  by (rule sget_alike [where g = "\<lambda>s. sb_root (fs_sb s)"], simp)
    (rule sget_alike [where g = fs_sb], simp)

lemma read_range_steady: "steady (both x c) (read_range x l start end' sink)"
  unfolding read_range_def
  by (intro both.steady_rules on_fst_steady inode_alike range_loop_steady emit_steady
      steady_alike extents_steady) simp

lemma read_to_vec_steady: "steady (alike x c) (read_to_vec x l cap)"
  unfolding steady_def
proof (intro allI impI)
  fix s t assume "alike x c s t"
  then have "both x c (s, []) (t, [] :: bytes)" by (simp add: both_def)
  with read_range_steady [of x c l 0 cap vec_sink]
  have "fst (read_range x l 0 cap vec_sink (s, [])) = fst (read_range x l 0 cap vec_sink (t, []))
      \<and> both x c (snd (read_range x l 0 cap vec_sink (s, [])))
          (snd (read_range x l 0 cap vec_sink (t, [])))"
    by (simp add: steady_def)
  then show "fst (read_to_vec x l cap s) = fst (read_to_vec x l cap t)
      \<and> alike x c (snd (read_to_vec x l cap s)) (snd (read_to_vec x l cap t))"
    by (auto simp: read_to_vec_def both_def split: prod.splits sum.splits)
qed

lemma read_symlink_target_steady: "steady (alike x c) (read_symlink_target x l)"
  unfolding read_symlink_target_def
  by (intro alike.steady_rules inode_alike read_to_vec_steady)

lemma entry_same: "steady (same x c (sound_roots x c Q)) (entry x dir e)"
  unfolding entry_def by (intro obs.steady_rules get_steady tree_steady get_root_steady)

lemma lookup_same: "steady (same x c (sound_roots x c Q)) (lookup x dir name)"
  unfolding lookup_def by (intro obs.steady_rules get_steady tree_steady entry_same)

lemma lookup_steady: "steady (alike x c) (lookup x dir name)"
  by (rule steady_alike) (rule lookup_same)

lemma readdir_steady: "steady (alike x c) (readdir x dir)"
  by (rule steady_alike)
    (unfold readdir_def, intro obs.steady_rules walk_steady tree_steady entry_same)

lemma check_dir_steady: "steady (alike x c) (check_dir x dir walked)"
  unfolding check_dir_def by (intro alike.steady_rules inode_alike read_symlink_target_steady)

lemma resolve_loop_steady: "steady (alike x c) (resolve_loop x parts stack walked)"
proof (induction parts arbitrary: stack walked)
  case Nil
  then show ?case by (simp only: resolve_loop.simps alike.steady_ret)
next
  case (Cons part parts)
  then show ?case
    unfolding resolve_loop.simps by (intro alike.steady_rules check_dir_steady lookup_steady)
qed

lemma root_alike: "steady (alike x c) (root x)"
  by (rule steady_alike) (rule root_steady)

lemma resolve_steady: "steady (alike x c) (resolve x path)"
  unfolding resolve_def by (intro alike.steady_rules root_alike resolve_loop_steady)

lemma default_subvol_steady: "steady (alike x c) (default_subvol x)"
  unfolding default_subvol_def by (intro alike.steady_rules get_alike get_root_alike)

lemma climb_steady: "steady (alike x c) (climb x tid r ino parts)"
proof (induction x tid r ino parts rule: climb.induct)
  case (1 x tid r ino parts)
  then show ?case
    unfolding climb.simps [of x tid r ino parts]
    by (intro alike.steady_rules walk_alike) auto
qed

lemma path_in_tree_steady: "steady (alike x c) (path_in_tree x tid ino)"
  unfolding path_in_tree_def by (intro alike.steady_rules tree_alike climb_steady)

lemma subvol_pass_steady: "steady (alike x c) (subvol_pass x backrefs pending paths out waiting)"
proof (induction pending arbitrary: paths out waiting)
  case Nil
  then show ?case by (simp only: subvol_pass.simps alike.steady_ret)
next
  case (Cons it pending)
  then show ?case
    unfolding subvol_pass.simps by (intro alike.steady_rules path_in_tree_steady)
qed

lemma subvol_passes_steady:
  "steady (alike x c) (subvol_passes x backrefs fuel pending paths out)"
proof (induction fuel arbitrary: pending paths out)
  case 0
  then show ?case
    unfolding subvol_passes.simps [of x backrefs 0 pending] nat.case by (intro alike.steady_rules)
next
  case (Suc fuel)
  then show ?case
    unfolding subvol_passes.simps [of x backrefs "Suc fuel" pending] nat.case
    by (intro alike.steady_rules subvol_pass_steady)
qed

lemma subvols_steady: "steady (alike x c) (subvols x)"
  unfolding subvols_def
  by (intro alike.steady_rules walk_alike get_root_alike subvol_passes_steady)


section \<open>Soundness on any file system\<close>

text \<open>The states of one file system; every operation keeps to them.\<close>

definition opened :: "ext \<Rightarrow> fs \<Rightarrow> fs \<Rightarrow> bool" where
  "opened x c s \<longleftrightarrow> caches_ok x s \<and> core s = c"

lemma steady_opened:
  assumes "steady (alike x c) m"
  shows "ensures (opened x c) m (\<lambda>_. True)"
  unfolding ensures_def
proof (intro allI impI conjI TrueI)
  fix s assume "opened x c s"
  then have "alike x c s s" by (simp add: alike_iff opened_def)
  with assms have "alike x c (snd (m s)) (snd (m s))" by (simp add: steady_def)
  then show "opened x c (snd (m s))" by (simp add: alike_iff opened_def)
qed

lemma opened_view: "opened x c s \<longleftrightarrow> view x c (sound_roots x c (\<lambda>_. True)) s"
  by (auto simp: opened_def view_def sound_roots_def caches_ok_def)

lemma ensures_opened:
  "ensures (view x c (sound_roots x c (\<lambda>_. True))) m Q \<Longrightarrow> ensures (opened x c) m Q"
  by (simp add: ensures_def opened_view)

text \<open>What a directory entry is turned into.\<close>

definition entry_ok :: "ext \<Rightarrow> fs \<Rightarrow> loc \<Rightarrow> dir_entry \<Rightarrow> entry \<Rightarrow> bool" where
  "entry_ok x c dir e r \<longleftrightarrow>
     e_name r = de_name e \<and>
     (if kty (de_location e) \<noteq> 132 then
        \<not> e_subvol r \<and> e_loc r = Loc (loc_tree dir) (objectid (de_location e))
        \<and> e_ftype r = de_ftype e
      else
        e_subvol r \<and> e_ftype r = FT_DIR \<and>
        (is_placeholder (e_loc r) \<or>
         loc_tree (e_loc r) = objectid (de_location e) \<and>
         (\<exists>d. leaf_item x c (Key (loc_tree dir) 156 (objectid (de_location e))) d)))"

lemma entry_ensures: "ensures (opened x c) (entry x dir e) (entry_ok x c dir e)"
proof (cases "kty (de_location e) = 132")
  case False
  then show ?thesis by (simp add: entry_def entry_ok_def ensures_def)
next
  case True
  let ?child = "objectid (de_location e)"
  have get: "ensures (opened x c) (get x r (Key (loc_tree dir) 156 ?child))
      (\<lambda>d. \<forall>v. d = Some v \<longrightarrow> leaf_item x c (Key (loc_tree dir) 156 ?child) v)" for r
    by (rule ensures_opened) (rule get_ensures)
  have child: "ensures (opened x c)
      (if linked \<noteq> None then sbind (tree x ?child) (\<lambda>r. sret (Loc ?child (tr_root_dirid r)))
       else sret (Loc 0 0))
      (\<lambda>l. is_placeholder l \<or> loc_tree l = ?child
         \<and> (\<exists>d. leaf_item x c (Key (loc_tree dir) 156 ?child) d))"
    if "\<forall>v. linked = Some v \<longrightarrow> leaf_item x c (Key (loc_tree dir) 156 ?child) v" for linked
    using that
    by (intro ensures_if ensures_bind [OF steady_opened [OF tree_alike]] ensures_ret)
      (auto simp: is_placeholder_def)
  show ?thesis
    unfolding entry_def Let_def ROOT_REF_KEY_def ROOT_ITEM_KEY_def using True
    by (simp only: simp_thms if_False)
      (rule ensures_bind [OF steady_opened [OF get_root_alike(1)]], rule ensures_bind [OF get],
        rule ensures_bind [OF child], assumption, rule ensures_ret, simp add: entry_ok_def)
qed

lemma lookup_ensures:
  "ensures (opened x c) (lookup x dir name)
     (\<lambda>r. \<forall>e. r = Some e \<longrightarrow> e_name e = name \<and> (\<exists>de. entry_ok x c dir de e))"
proof -
  have found: "ensures (opened x c)
      (case find (\<lambda>e. de_name e = name) es of None \<Rightarrow> sret None
       | Some e \<Rightarrow> sbind (entry x dir e) (\<lambda>e'. sret (Some e')))
      (\<lambda>r. \<forall>e. r = Some e \<longrightarrow> e_name e = name \<and> (\<exists>de. entry_ok x c dir de e))" for es
  proof (cases "find (\<lambda>e. de_name e = name) es")
    case None
    then show ?thesis by (simp add: ensures_def)
  next
    case (Some e)
    then have "de_name e = name" by (auto simp: find_Some_iff)
    with Some show ?thesis
      by (simp, intro ensures_bind [OF entry_ensures] ensures_ret) (auto simp: entry_ok_def)
  qed
  show ?thesis
    unfolding lookup_def
    by (intro ensures_if ensures_ret ensures_bind [OF steady_opened [OF tree_alike]]
        ensures_bind [OF steady_opened [OF get_alike]])
      (auto intro!: ensures_ret ensures_bind [where P = "\<lambda>_. True"] ensures_lift found
        split: option.splits)
qed

lemma sorted_sort_key: "sorted (map f (sort_key f xs))"
  by (rule sorted_sort_key)

lemma readdir_ensures:
  "ensures (opened x c) (readdir x dir)
     (\<lambda>r. sorted (map e_name r) \<and> (\<forall>e \<in> set r. \<exists>de. entry_ok x c dir de e))"
  unfolding readdir_def
  by (auto intro!: ensures_if ensures_ret ensures_bind [OF steady_opened [OF tree_alike]]
      ensures_bind [OF steady_opened [OF walk_alike]]
      ensures_bind [OF ensures_mapM [where Q = "entry_ok x c dir"], OF entry_ensures]
      simp: list_all2_conv_all_nth in_set_conv_nth split: prod.splits) blast

text \<open>Following names from a directory, one lookup each.\<close>

fun follow :: "ext \<Rightarrow> fs \<Rightarrow> loc \<Rightarrow> string list \<Rightarrow> loc option" where
  "follow x c l [] = Some l"
| "follow x c l (n # ns) =
     (case fst (lookup x l (as_bytes n) c) of
        Inr (Some e) \<Rightarrow> follow x c (e_loc e) ns
      | _ \<Rightarrow> None)"

text \<open>The names that are left when each \<open>..\<close> takes back the one before it.\<close>

fun cancel :: "string list \<Rightarrow> string list \<Rightarrow> string list" where
  "cancel acc [] = acc"
| "cancel acc (p # ps) = (if p = ''..'' then cancel (butlast acc) ps else cancel (acc @ [p]) ps)"

definition trail :: "ext \<Rightarrow> fs \<Rightarrow> loc \<Rightarrow> string list \<Rightarrow> loc list \<Rightarrow> bool" where
  "trail x c r names stack \<longleftrightarrow>
     length stack = Suc (length names) \<and>
     (\<forall>i \<le> length names. follow x c r (take i names) = Some (stack ! i))"

lemma follow_append:
  "follow x c l (ns @ ms) = Option.bind (follow x c l ns) (\<lambda>l'. follow x c l' ms)"
  by (induction ns arbitrary: l) (auto split: sum.splits option.splits)

lemma trail_last: "trail x c r names stack \<Longrightarrow> follow x c r names = Some (last stack)"
proof -
  assume t: "trail x c r names stack"
  then have len: "length stack = Suc (length names)" by (simp add: trail_def)
  then have "stack \<noteq> []" by auto
  then have "last stack = stack ! length names" using len by (simp add: last_conv_nth)
  moreover from t have "follow x c r (take (length names) names) = Some (stack ! length names)"
    unfolding trail_def by blast
  ultimately show ?thesis by simp
qed

lemma trail_pop:
  assumes "trail x c r names stack"
  shows "trail x c r (butlast names) (if 1 < length stack then butlast stack else stack)"
proof (cases names rule: rev_cases)
  case Nil
  with assms show ?thesis by (simp add: trail_def)
next
  case (snoc ns n)
  then have len: "length stack = Suc (Suc (length ns))" using assms by (simp add: trail_def)
  have "follow x c r (take i ns) = Some (butlast stack ! i)" if "i \<le> length ns" for i
  proof -
    have "follow x c r (take i (ns @ [n])) = Some (stack ! i)"
      using assms that unfolding trail_def snoc by (metis le_SucI length_append_singleton)
    with that len show ?thesis by (simp add: nth_butlast)
  qed
  with len snoc show ?thesis by (simp add: trail_def)
qed

lemma trail_push:
  assumes "trail x c r names stack"
    and "fst (lookup x (last stack) (as_bytes n) c) = Inr (Some e)"
  shows "trail x c r (names @ [n]) (stack @ [e_loc e])"
  unfolding trail_def
proof (intro conjI allI impI)
  show "length (stack @ [e_loc e]) = Suc (length (names @ [n]))"
    using assms(1) by (simp add: trail_def)
  fix i assume "i \<le> length (names @ [n])"
  then consider "i \<le> length names" | "i = Suc (length names)" by fastforce
  then show "follow x c r (take i (names @ [n])) = Some ((stack @ [e_loc e]) ! i)"
  proof cases
    case 1
    with assms(1) show ?thesis by (simp add: trail_def nth_append)
  next
    case 2
    have "length stack = Suc (length names)" using assms(1) by (simp add: trail_def)
    with 2 trail_last [OF assms(1)] assms(2) show ?thesis
      by (simp add: follow_append nth_append)
  qed
qed

lemma lookup_core:
  assumes "opened x c s"
  shows "fst (lookup x l n s) = fst (lookup x l n c)"
proof -
  have "caches_ok x c" "core c = c"
    using assms caches_ok_core [of x s] by (auto simp: opened_def)
  then have "opened x c c" by (simp add: opened_def)
  with assms have "same x c (sound_roots x c (\<lambda>_. True)) s c"
    by (simp add: same_def opened_view)
  then show ?thesis by (rule obs.steady_result [OF lookup_same])
qed

lemma lookup_computes: "computes (opened x c) (lookup x l n) (fst (lookup x l n c))"
  unfolding computes_def
  using lookup_core steady_opened [OF lookup_steady] by (auto simp: ensures_def)

lemma resolve_loop_ensures:
  assumes "trail x c r names stack"
  shows "ensures (opened x c) (resolve_loop x parts stack walked)
     (\<lambda>l. follow x c r (cancel names parts) = Some l)"
  using assms
proof (induction parts arbitrary: names stack walked)
  case Nil
  then show ?case by (simp add: ensures_def trail_last)
next
  case (Cons part parts)
  let ?dir = "last stack" and ?walked = "walked @ ''/'' @ part"
  show ?case
  proof (cases "part = ''..''")
    case True
    with Cons.IH [OF trail_pop [OF Cons.prems]] show ?thesis by (simp cong: if_cong)
  next
    case False
    have down: "ensures (opened x c)
        (case found of None \<Rightarrow> sthrow (PathNotFound ?walked)
         | Some e \<Rightarrow> resolve_loop x parts (stack @ [e_loc e]) ?walked)
        (\<lambda>l. follow x c r (cancel (names @ [part]) parts) = Some l)"
      if "fst (lookup x ?dir (as_bytes part) c) = Inr found" for found
      using that by (cases found) (auto simp: ensures_def [of _ "sthrow e" for e] intro!: Cons.IH
          trail_push [OF Cons.prems] ensures_throw)
    show ?thesis
      unfolding resolve_loop.simps cancel.simps Let_def using False
      by (simp only: if_False)
        (rule ensures_bind [OF steady_opened [OF check_dir_steady]],
          rule ensures_bind [OF ensures_computes [OF lookup_computes]], assumption, rule down)
  qed
qed


section \<open>The subvolume list\<close>

text \<open>A pass leaves at most those waiting that it was given.\<close>

lemma subvol_pass_waiting:
  "subvol_pass x backrefs pending paths out waiting s = (Inr (paths', out', waiting'), t) \<Longrightarrow>
     length waiting' \<le> length waiting + length pending"
proof (induction pending arbitrary: paths out waiting s)
  case Nil
  then show ?case by simp
next
  case (Cons it pending)
  show ?case
  proof (cases "map_of backrefs (ri_id it)")
    case None
    with Cons.prems show ?thesis by (auto dest: Cons.IH)
  next
    case (Some b)
    obtain parent dirid name where b: "b = (parent, dirid, name)" by (cases b)
    show ?thesis
      using Cons.prems Some b
      by (cases "map_of paths parent") (auto simp: sbind_Inr_iff Let_def dest!: Cons.IH)
  qed
qed

text \<open>So the number of subvolumes is enough fuel: more makes no difference.\<close>

lemma subvol_passes_fuel:
  assumes "length pending \<le> f" and "length pending \<le> g"
  shows "subvol_passes x backrefs f pending paths out = subvol_passes x backrefs g pending paths out"
  using assms
proof (induction f arbitrary: g pending paths out)
  case 0
  then show ?case by (simp add: subvol_passes.simps)
next
  case (Suc f)
  show ?case
  proof (cases "pending = []")
    case True
    then show ?thesis by (simp add: subvol_passes.simps)
  next
    case False
    with Suc.prems(2) obtain g' where g: "g = Suc g'" by (cases g) auto
    show ?thesis
    proof
      fix s
      let ?m = "subvol_pass x backrefs pending paths out []"
      let ?k = "\<lambda>f. \<lambda>(paths', out', waiting). if length waiting = length pending then sret out'
             else subvol_passes x backrefs f waiting paths' out'"
      have "sbind ?m (?k f) s = sbind ?m (?k g') s"
      proof (rule sbind_cong [OF refl refl])
        fix y t assume m: "?m s = (Inr y, t)"
        obtain paths' out' waiting where y: "y = (paths', out', waiting)" by (cases y)
        have "length waiting \<le> length pending"
          using subvol_pass_waiting [of x backrefs pending paths out "[]" s] m y by simp
        then show "?k f y t = ?k g' y t"
          using Suc.IH [of waiting g' paths' out'] Suc.prems g by (auto simp: y)
      qed
      with False g show "subvol_passes x backrefs (Suc f) pending paths out s
          = subvol_passes x backrefs g pending paths out s"
        by (simp add: subvol_passes.simps)
    qed
  qed
qed

text \<open>
  Every listed subvolume hangs off one that is listed, or off the top level: \<open>placed\<close> gives
  its path from that of its parent.
\<close>

definition path_of :: "subvol list \<Rightarrow> u64 \<Rightarrow> string \<Rightarrow> bool" where
  "path_of out sid p \<longleftrightarrow>
     sid = 5 \<and> p = [] \<or> (\<exists>q \<in> set out. sv_id q = sid \<and> sv_path q = ''/'' @ p)"

definition placed :: "subvol list \<Rightarrow> subvol \<Rightarrow> bool" where
  "placed out sv \<longleftrightarrow>
     (\<exists>parent_path dir name. path_of out (sv_parent sv) parent_path
        \<and> sv_path sv = ''/'' @ join_with ''/'' (filter (\<lambda>w. w \<noteq> []) [parent_path, dir, name]))"

definition paths_ok :: "(u64 \<times> string) list \<Rightarrow> subvol list \<Rightarrow> bool" where
  "paths_ok paths out \<longleftrightarrow>
     (\<forall>sid p. map_of paths sid = Some p \<longrightarrow> path_of out sid p) \<and> (\<forall>sv \<in> set out. placed out sv)"

lemma path_of_mono: "path_of out sid p \<Longrightarrow> path_of (out @ svs) sid p"
  by (auto simp: path_of_def)

lemma placed_mono: "placed out sv \<Longrightarrow> placed (out @ svs) sv"
  unfolding placed_def using path_of_mono by blast

lemma paths_ok_extend:
  assumes "paths_ok paths out" and parent: "map_of paths parent = Some parent_path"
    and path: "path = join_with ''/'' (filter (\<lambda>w. w \<noteq> []) [parent_path, dir, name])"
    and sv: "sv_id sv = sid" "sv_parent sv = parent" "sv_path sv = ''/'' @ path"
  shows "paths_ok (hm_insert sid path paths) (out @ [sv])"
proof -
  have "path_of (out @ [sv]) j p" if "map_of (hm_insert sid path paths) j = Some p" for j p
  proof (rule hm.insert_keeps [OF _ _ that])
    show "path_of (out @ [sv]) j' w" if "map_of paths j' = Some w" for j' w
      using assms(1) that path_of_mono by (auto simp: paths_ok_def)
    show "path_of (out @ [sv]) sid path" using sv by (auto simp: path_of_def)
  qed
  moreover have "placed (out @ [sv]) sv"
    unfolding placed_def
  proof (intro exI conjI)
    show "path_of (out @ [sv]) (sv_parent sv) parent_path"
      using assms(1) parent sv path_of_mono by (auto simp: paths_ok_def)
    show "sv_path sv = ''/'' @ join_with ''/'' (filter (\<lambda>w. w \<noteq> []) [parent_path, dir, name])"
      using path sv by simp
  qed
  ultimately show ?thesis
    using assms(1) placed_mono by (auto simp: paths_ok_def)
qed

lemma subvol_pass_ok:
  assumes "paths_ok paths out"
  shows "ensures (\<lambda>_. True) (subvol_pass x backrefs pending paths out waiting)
     (\<lambda>(paths', out', _). paths_ok paths' out')"
  using assms
proof (induction pending arbitrary: paths out waiting)
  case Nil
  then show ?case by (simp add: ensures_def)
next
  case (Cons it pending)
  show ?case
  proof (cases "map_of backrefs (ri_id it)")
    case None
    with Cons show ?thesis by simp
  next
    case (Some b)
    obtain parent dirid name where b: "b = (parent, dirid, name)" by (cases b)
    show ?thesis
    proof (cases "map_of paths parent")
      case None
      with Cons Some b show ?thesis by simp
    next
      case (Some parent_path)
      have any: "ensures (\<lambda>_. True) (path_in_tree x parent dirid) (\<lambda>_. True)"
        by (simp add: ensures_def)
      show ?thesis
        unfolding subvol_pass.simps \<open>map_of backrefs (ri_id it) = Some b\<close> b Some
          option.case prod.case Let_def
        by (rule ensures_bind [OF any], rule Cons.IH, rule paths_ok_extend [OF Cons.prems Some refl])
          simp_all
    qed
  qed
qed

lemma subvol_passes_ok:
  assumes "paths_ok paths out"
  shows "ensures (\<lambda>_. True) (subvol_passes x backrefs fuel pending paths out)
     (\<lambda>out'. \<forall>sv \<in> set out'. placed out' sv)"
  using assms
proof (induction fuel arbitrary: pending paths out)
  case 0
  then show ?case by (simp add: subvol_passes.simps ensures_def paths_ok_def)
next
  case (Suc fuel)
  have "ensures (\<lambda>_. True) (case y of (paths', out', waiting) \<Rightarrow>
      if length waiting = length pending then sret out'
      else subvol_passes x backrefs fuel waiting paths' out')
      (\<lambda>out'. \<forall>sv \<in> set out'. placed out' sv)"
    if "case y of (paths', out', _) \<Rightarrow> paths_ok paths' out'" for y
    using that by (auto intro!: ensures_if ensures_ret Suc.IH simp: paths_ok_def split: prod.splits)
  then have "ensures (\<lambda>_. True) (sbind (subvol_pass x backrefs pending paths out [])
      (\<lambda>(paths', out', waiting). if length waiting = length pending then sret out'
       else subvol_passes x backrefs fuel waiting paths' out'))
      (\<lambda>out'. \<forall>sv \<in> set out'. placed out' sv)"
    by (rule ensures_bind [OF subvol_pass_ok [OF Suc.prems]])
  with Suc.prems show ?case
    by (auto simp: subvol_passes.simps [of x backrefs "Suc fuel"] paths_ok_def ensures_ret)
qed

lemma placed_cong: "set out = set out' \<Longrightarrow> placed out sv = placed out' sv"
  by (simp add: placed_def path_of_def)

lemma subvols_ensures:
  "ensures (\<lambda>_. True) (subvols x)
     (\<lambda>out. sorted (map sv_id out) \<and> (\<forall>sv \<in> set out. placed out sv))"
proof -
  have any: "ensures (\<lambda>_. True) m (\<lambda>_. True)" for m :: "(fs, 'a) eff"
    by (simp add: ensures_def)
  have start: "paths_ok [(FS_TREE_OBJECTID, [])] []"
    by (simp add: paths_ok_def path_of_def)
  have fin: "sorted (map sv_id (sort_key sv_id out))
      \<and> (\<forall>sv \<in> set (sort_key sv_id out). placed (sort_key sv_id out) sv)"
    if "\<forall>sv \<in> set out. placed out sv" for out
    using that placed_cong [of "sort_key sv_id out" out] by simp
  show ?thesis
    unfolding subvols_def
    by (rule ensures_bind [OF any], rule ensures_bind [OF any], unfold split_beta Let_def,
        rule ensures_bind [OF subvol_passes_ok [OF start]], rule ensures_ret, erule fin)
qed

end
