(* ===== verification/Fs_Open.thy ===== *)
theory Fs_Open
  imports Fs_Lookup
begin

text \<open>
  Opening a file system (\<open>Fs::open\<close> of src/fs.rs, \<open>open_error\<close> of src/main.rs): every given
  device is opened and its superblock read, the newest superblock is kept, the chunks
  embedded in it make the chunk tree readable, and the chunk tree gives the rest.
\<close>

definition PRIVILEGE_HINT :: "bool \<Rightarrow> string" where
  "PRIVILEGE_HINT windows =
     (if windows then
        ''run from an elevated (Administrator) terminal, or install the helper once from one: `btrfs-peek helper install`''
      else ''run as root, or add yourself to the `disk` group'')"

definition open_error :: "bool \<Rightarrow> string \<Rightarrow> io_error \<Rightarrow> err" where
  "open_error windows path e =
     (if io_kind e = IoPermissionDenied then
        Context (path @ '': access denied; raw disks need privileges: '' @ PRIVILEGE_HINT windows)
          AccessDenied
      else Context (''opening '' @ path) (Io e))"

text \<open>One device: opened, its superblock read and parsed.\<close>

definition probe ::
  "ext \<Rightarrow> bool \<Rightarrow> (string \<Rightarrow> io_error + device) \<Rightarrow> string \<Rightarrow> err + device \<times> superblock" where
  "probe x windows dev_open path =
     rbind (case dev_open path of Inl e \<Rightarrow> Inl (open_error windows path e) | Inr d \<Rightarrow> Inr d) (\<lambda>dev.
     rbind
       (with_context (path @ '': reading superblock'')
          (case device_read dev SUPER_OFFSET SUPER_SIZE of Inl e \<Rightarrow> Inl (Io e) | Inr b \<Rightarrow> Inr b))
       (\<lambda>raw.
     rbind
       (with_context (path @ '': not a btrfs filesystem'') (superblock_parse (crc32c x) raw))
       (\<lambda>sb. Inr (dev, sb))))"

fun open_devices ::
  "ext \<Rightarrow> bool \<Rightarrow> (string \<Rightarrow> io_error + device) \<Rightarrow> string list \<Rightarrow> (u64 \<times> device) list
     \<Rightarrow> superblock option \<Rightarrow> err + (u64 \<times> device) list \<times> superblock option" where
  "open_devices x windows dev_open [] devs best = Inr (devs, best)"
| "open_devices x windows dev_open (path # paths) devs best =
     rbind (probe x windows dev_open path) (\<lambda>(dev, sb).
     if (case best of None \<Rightarrow> False | Some b \<Rightarrow> sb_fsid b \<noteq> sb_fsid sb) then
       Inl (Fs (DifferentFilesystem path))
     else
       open_devices x windows dev_open paths (hm_insert (sb_devid sb) dev devs)
         (if (case best of None \<Rightarrow> True | Some b \<Rightarrow> sb_generation b < sb_generation sb)
          then Some sb else best))"

definition insert_chunk :: "chunk \<Rightarrow> (u64 \<times> chunk) list \<Rightarrow> (u64 \<times> chunk) list" where
  "insert_chunk c m = bt_insert (ch_start c) c m"

text \<open>The chunks embedded in the superblock.\<close>

function sys_chunks :: "bytes \<Rightarrow> nat \<Rightarrow> (u64 \<times> chunk) list \<Rightarrow> err + (u64 \<times> chunk) list" where
  "sys_chunks arr off m =
     (if off < length arr then
        rbind (key_parse arr off) (\<lambda>k.
        if kty k \<noteq> CHUNK_ITEM_KEY then Inl (Fs (BadSysChunkKey (kty k)))
        else
          rbind (bytes arr (off + KEY_SIZE) (length arr - off - KEY_SIZE)) (\<lambda>b.
          rbind (chunk_parse (koffset k) b) (\<lambda>(c, used).
          sys_chunks arr (off + (KEY_SIZE + used)) (insert_chunk c m))))
      else Inr m)"
  by pat_completeness auto
termination
  by (relation "measure (\<lambda>(arr, off, m). length arr - off)") auto

declare sys_chunks.simps [simp del]

definition chunk_items :: "chunk list visitor" where
  "chunk_items k d found =
     (if kty k = CHUNK_ITEM_KEY then
        rbind (chunk_parse (koffset k) d) (\<lambda>(c, _). Inr (True, found @ [c]))
      else Inr (True, found))"

definition boot :: "(u64 \<times> device) list \<Rightarrow> superblock \<Rightarrow> (u64 \<times> chunk) list \<Rightarrow> fs" where
  "boot devs sb m =
     \<lparr>fs_devs = devs, fs_sb = sb, fs_chunks = m, fs_nodes = [], fs_roots = [],
      fs_last_extent = None\<rparr>"

text \<open>Reading the chunk tree through the embedded chunks, and adding what it holds.\<close>

definition load_chunks :: "ext \<Rightarrow> fs \<Rightarrow> err + fs" where
  "load_chunks x s =
     (case scontext ''reading chunk tree''
             (walk x (sb_chunk_root (fs_sb s)) (Key 0 0 0) (Key (- 1) 255 (- 1)) chunk_items []) s of
        (Inl e, _) \<Rightarrow> Inl e
      | (Inr (_, found), t) \<Rightarrow>
          Inr (t\<lparr>fs_chunks := fold insert_chunk found (fs_chunks t)\<rparr>))"

definition fs_open ::
  "ext \<Rightarrow> bool \<Rightarrow> (string \<Rightarrow> io_error + device) \<Rightarrow> string list \<Rightarrow> err + fs" where
  "fs_open x windows dev_open paths =
     (if paths = [] then Inl (Fs NoDeviceGiven)
      else
        rbind (open_devices x windows dev_open paths [] None) (\<lambda>(devs, best).
        let sb = the best in
        if sb_incompat_flags sb AND INCOMPAT_REFUSED \<noteq> 0 then Inl (Fs RefusedFeatures)
        else
          rbind (sys_chunks (sb_sys_chunk_array sb) 0 []) (\<lambda>m. load_chunks x (boot devs sb m))))"

section \<open>The state an open leaves\<close>

definition chunk_map_ok :: "(u64 \<times> chunk) list \<Rightarrow> bool" where
  "chunk_map_ok m \<longleftrightarrow> bt_ok m \<and> (\<forall>k c. map_of m k = Some c \<longrightarrow> ch_start c = k)"

lemma chunk_map_ok_Nil: "chunk_map_ok []"
  by (simp add: chunk_map_ok_def bt.inv_empty)

lemma chunk_map_ok_insert: "chunk_map_ok m \<Longrightarrow> chunk_map_ok (insert_chunk c m)"
  by (auto simp: chunk_map_ok_def insert_chunk_def bt.inv_insert bt.lookup_insert split: if_splits)

lemma chunk_map_ok_fold: "chunk_map_ok m \<Longrightarrow> chunk_map_ok (fold insert_chunk cs m)"
  by (induction cs arbitrary: m) (auto intro: chunk_map_ok_insert)

lemma sys_chunks_ok:
  "sys_chunks arr off m = Inr m' \<Longrightarrow> chunk_map_ok m \<Longrightarrow> chunk_map_ok m'"
proof (induction arr off m rule: sys_chunks.induct)
  case (1 arr off m)
  show ?case
  proof (cases "off < length arr")
    case False
    with "1.prems" show ?thesis by (simp add: sys_chunks.simps)
  next
    case True
    with "1.prems"(1) obtain k b c used where k: "key_parse arr off = Inr k" "kty k = CHUNK_ITEM_KEY"
        and b: "bytes arr (off + KEY_SIZE) (length arr - off - KEY_SIZE) = Inr b"
        and c: "chunk_parse (koffset k) b = Inr (c, used)"
        and rest: "sys_chunks arr (off + (KEY_SIZE + used)) (insert_chunk c m) = Inr m'"
      by (subst (asm) sys_chunks.simps) (auto simp: rbind_Inr_iff split: if_splits prod.splits)
    show ?thesis
      by (rule "1.IH" [OF True k(1) _ b c refl rest]) (use k(2) "1.prems"(2) in \<open>auto intro: chunk_map_ok_insert\<close>)
  qed
qed

text \<open>The newest superblock of the given devices, all of one file system.\<close>

definition best_ok :: "superblock list \<Rightarrow> superblock option \<Rightarrow> bool" where
  "best_ok sbs best \<longleftrightarrow>
     (case best of
        None \<Rightarrow> sbs = []
      | Some b \<Rightarrow> b \<in> set sbs \<and>
          (\<forall>sb \<in> set sbs. sb_fsid sb = sb_fsid b \<and> sb_generation sb \<le> sb_generation b))"

lemma guard_Inr: "(if c then Inl e else r) = Inr v \<Longrightarrow> \<not> c \<and> r = Inr v"
  by (cases c) simp_all

lemma open_devices_best:
  assumes "open_devices x windows dev_open paths devs best = Inr (devs', best')"
    and "best_ok sbs best"
  shows "\<exists>found. list_all2 (\<lambda>p sb. \<exists>d. probe x windows dev_open p = Inr (d, sb)) paths found
     \<and> best_ok (sbs @ found) best'"
  using assms
proof (induction paths arbitrary: devs best sbs)
  case Nil
  then show ?case by simp
next
  case (Cons p paths)
  define newer where "newer sb \<longleftrightarrow>
     (case best of None \<Rightarrow> True | Some b \<Rightarrow> sb_generation b < sb_generation sb)" for sb :: superblock
  from Cons.prems(1) obtain y where y: "probe x windows dev_open p = Inr y"
      and k: "(case y of (dev, sb) \<Rightarrow>
        if (case best of None \<Rightarrow> False | Some b \<Rightarrow> sb_fsid b \<noteq> sb_fsid sb)
        then Inl (Fs (DifferentFilesystem p))
        else open_devices x windows dev_open paths (hm_insert (sb_devid sb) dev devs)
               (if newer sb then Some sb else best)) = Inr (devs', best')"
    unfolding open_devices.simps rbind_Inr_iff newer_def by blast
  obtain d sb where d: "y = (d, sb)" by (cases y)
  have fsid: "\<not> (case best of None \<Rightarrow> False | Some b \<Rightarrow> sb_fsid b \<noteq> sb_fsid sb)"
    and rest: "open_devices x windows dev_open paths (hm_insert (sb_devid sb) d devs)
         (if newer sb then Some sb else best) = Inr (devs', best')"
    using guard_Inr [OF k [unfolded d prod.case]] by blast+
  have "best_ok (sbs @ [sb]) (if newer sb then Some sb else best)"
  proof (cases best)
    case None
    with Cons.prems(2) show ?thesis by (simp add: best_ok_def newer_def)
  next
    case (Some b)
    with Cons.prems(2) fsid have b: "b \<in> set sbs" "sb_fsid b = sb_fsid sb"
        and all: "\<forall>sb' \<in> set sbs. sb_fsid sb' = sb_fsid b \<and> sb_generation sb' \<le> sb_generation b"
      unfolding best_ok_def Some option.case by blast+
    show ?thesis
    proof (cases "newer sb")
      case True
      with Some have "sb_generation b \<le> sb_generation sb" by (simp add: newer_def)
      with all have "\<forall>sb' \<in> set sbs. sb_generation sb' \<le> sb_generation sb"
        using order_trans by blast
      with all b have "best_ok (sbs @ [sb]) (Some sb)" unfolding best_ok_def by auto
      with True show ?thesis by simp
    next
      case False
      then have "sb_generation sb \<le> sb_generation b" by (simp add: newer_def Some not_less)
      with all b have "best_ok (sbs @ [sb]) (Some b)" unfolding best_ok_def by auto
      with False Some show ?thesis by simp
    qed
  qed
  from Cons.IH [OF rest this] obtain found where
      "list_all2 (\<lambda>p sb. \<exists>d. probe x windows dev_open p = Inr (d, sb)) paths found"
      "best_ok (sbs @ sb # found) best'"
    by auto
  with y d show ?case by (intro exI [of _ "sb # found"]) auto
qed

lemma probe_ok: "probe x windows dev_open p = Inr (d, sb) \<Longrightarrow> superblock_ok sb"
  by (auto simp: probe_def rbind_Inr_iff with_context_Inr_iff dest: superblock_parse_superblock_ok)

text \<open>
  Adding the chunk tree's chunks keeps the node cache sound when it maps the blocks read so
  far as the embedded chunks did, which a chunk tree that repeats them does.
\<close>

definition same_floor :: "(u64 \<times> chunk) list \<Rightarrow> (u64 \<times> chunk) list \<Rightarrow> u64 \<Rightarrow> bool" where
  "same_floor m m' l \<longleftrightarrow> bt_floor m l = bt_floor m' l"

lemma mirrors_same_floor:
  assumes "same_floor (fs_chunks s) m l"
  shows "mirrors (s\<lparr>fs_chunks := m\<rparr>) l n = mirrors s l n"
  using assms
  by (simp add: mirrors_def same_floor_def stripe_mirrors_def Let_def split: option.split)

lemma load_chunks_ok:
  assumes load: "load_chunks x s = Inr t" and fresh: "caches_ok x s" "fs_roots s = []"
    and m: "chunk_map_ok (fs_chunks s)"
  shows "chunk_map_ok (fs_chunks t)" and "fs_sb t = fs_sb s" and "fs_devs t = fs_devs s"
    and "fs_roots t = []"
    and "\<forall>l n. map_of (fs_nodes t) l = Some n \<longrightarrow> node_at x s l = Inr n"
    and "\<forall>l \<in> fst ` set (fs_nodes t). same_floor (fs_chunks s) (fs_chunks t) l \<Longrightarrow> caches_ok x t"
proof -
  let ?w = "walk x (sb_chunk_root (fs_sb s)) (Key 0 0 0) (Key (- 1) 255 (- 1)) chunk_items []"
  obtain b found u where w: "?w s = (Inr (b, found), u)"
      and t: "t = u\<lparr>fs_chunks := fold insert_chunk found (fs_chunks u)\<rparr>"
    using load by (auto simp: load_chunks_def scontext_def with_context_Inr_iff split: prod.splits sum.splits)
  have "view x (core s) (\<lambda>roots le. roots = []) s"
    using fresh by (simp add: view_def caches_ok_def)
  from keep_view [OF walk_steady this, of "sb_chunk_root (fs_sb s)" "Key 0 0 0"
      "Key (- 1) 255 (- 1)" chunk_items "[]"] w
  have u: "nodes_ok x u" "core u = core s" "fs_roots u = []" by (simp_all add: view_def)
  then have same: "fs_chunks u = fs_chunks s" "fs_sb u = fs_sb s" "fs_devs u = fs_devs s"
    by (metis core_simps)+
  show "chunk_map_ok (fs_chunks t)" using m by (simp add: t same chunk_map_ok_fold)
  show "fs_sb t = fs_sb s" "fs_devs t = fs_devs s" "fs_roots t = []"
    using same u by (simp_all add: t)
  have at: "node_at x u = node_at x s" by (rule node_at_cong [OF u(2)])
  then show nodes: "\<forall>l n. map_of (fs_nodes t) l = Some n \<longrightarrow> node_at x s l = Inr n"
    using u(1) by (simp add: t nodes_ok_def)
  assume floor: "\<forall>l \<in> fst ` set (fs_nodes t). same_floor (fs_chunks s) (fs_chunks t) l"
  have "node_at x t l = Inr n" if n: "map_of (fs_nodes t) l = Some n" for l n
  proof -
    have "l \<in> fst ` set (fs_nodes t)" using n by (metis map_of_eq_None_iff option.distinct(1))
    with floor have "same_floor (fs_chunks s) (fs_chunks t) l" by blast
    then have "same_floor (fs_chunks u) (fold insert_chunk found (fs_chunks u)) l"
      by (simp add: same t)
    from mirrors_same_floor [OF this] have "node_at x t l = node_at x u l"
      by (simp add: node_at_def t)
    with nodes n at show ?thesis by simp
  qed
  then show "caches_ok x t"
    using u(3) by (simp add: caches_ok_def nodes_ok_def roots_ok_def t)
qed

end
