(* ===== verification/Fs_Sample.thy ===== *)
theory Fs_Sample
  imports Fs_Format Fs_Open
begin

text \<open>
  A complete image for the witnesses: a superblock, a chunk tree, a root tree and a file
  system tree with a directory of two files, one with its data in an extent on disk and one
  inline with a hole after it, and of a subvolume.  Everything is in the disk format, and reading it back is
  by the same operations the program uses.
\<close>

definition demo_root_item :: bytes where
  "demo_root_item =
     replicate 160 0 @ to_le_bytes (7 :: u64) @ to_le_bytes (256 :: u64)
     @ to_le_bytes (block_addr 2) @ replicate 255 0"

definition demo_inode :: "u64 \<Rightarrow> u32 \<Rightarrow> inode" where
  "demo_inode sz mode =
     \<lparr>i_size = sz, i_nlink = 1, i_uid = 0, i_gid = 0, i_mode = mode, i_mtime_sec = 0,
      i_mtime_nsec = 0\<rparr>"

definition demo_file :: extent where
  "demo_file =
     \<lparr>ex_file_off = 0, ex_len = 4096, ex_ram_bytes = 4096, ex_compression = 0,
      ex_kind = Regular (block_addr 3) 4096 0\<rparr>"

definition demo_inline :: extent where
  "demo_inline =
     \<lparr>ex_file_off = 0, ex_len = 3, ex_ram_bytes = 3, ex_compression = 0,
      ex_kind = Inline [104, 105, 33]\<rparr>"

definition demo_entry :: "u8 \<Rightarrow> u64 \<Rightarrow> bytes" where
  "demo_entry c ino = dir_item_bytes [(sample_entry ino [c], 7, [])]"

definition demo_link :: dir_entry where
  "demo_link = \<lparr>de_name = [99], de_location = Key 256 132 (- 1), de_ftype = 2\<rparr>"

definition demo_linked :: bytes where
  "demo_linked = dir_item_bytes [(demo_link, 7, [])]"

definition demo_backref :: bytes where
  "demo_backref = to_le_bytes (256 :: u64) @ replicate 8 0 @ to_le_bytes (1 :: u16) @ [99]"

definition demo_tree :: "(key \<times> bytes) list" where
  "demo_tree =
     [(Key 256 1 0, inode_bytes (demo_inode 4 0x41ED)),
      (Key 256 84 0xFFFFFF9B, demo_linked),
      (Key 256 84 0xFFFFFF9C, demo_entry 98 258),
      (Key 256 84 0xFFFFFF9D, demo_entry 97 257),
      (Key 256 96 2, demo_entry 98 258),
      (Key 256 96 3, demo_entry 97 257),
      (Key 256 96 4, demo_linked),
      (Key 257 1 0, inode_bytes (demo_inode 6 0x81A4)),
      (Key 257 108 0, extent_bytes demo_file),
      (Key 258 1 0, inode_bytes (demo_inode 5 0x81A4)),
      (Key 258 108 0, extent_bytes demo_inline)]"

definition demo_data :: bytes where
  "demo_data = [10, 11, 12, 13, 14, 15] @ replicate 4090 0"

definition demo_chunk_tree :: "(key \<times> bytes) list" where
  "demo_chunk_tree = [(Key 256 228 0x100000, chunk_bytes sample_map)]"

definition demo_root_tree :: "(key \<times> bytes) list" where
  "demo_root_tree =
     [(Key 5 132 0, demo_root_item), (Key 5 156 256, demo_backref),
      (Key 256 132 0, demo_root_item), (Key 256 144 5, demo_backref)]"

text \<open>The superblock is at 64 KiB, the sixteenth block.\<close>

definition demo_blocks :: "bytes list" where
  "demo_blocks =
     [sample_leaf (block_addr 0) demo_chunk_tree, sample_leaf (block_addr 1) demo_root_tree,
      sample_leaf (block_addr 2) demo_tree, demo_data] @ replicate 12 (replicate 4096 0)
     @ [superblock_bytes (\<lambda>_. 7) (sample_sb (block_addr 1) (block_addr 0))]"

definition demo :: fs where
  "demo = sample_fs (block_addr 1) (block_addr 0) demo_blocks"

section \<open>Sizes\<close>

lemma length_inode_bytes: "length (inode_bytes i) = 160"
  by (simp add: inode_bytes_def)

lemma length_demo_entry: "length (demo_entry c ino) = 31"
  by (simp add: demo_entry_def dir_item_bytes_def length_dir_entry_bytes sample_entry_def)

lemma length_demo_extents:
  "length (extent_bytes demo_file) = 53" "length (extent_bytes demo_inline) = 24"
  by (simp_all add: extent_bytes_def demo_file_def demo_inline_def)

lemma length_sample_map: "length (chunk_bytes sample_map) = 80"
  by (simp add: length_chunk_bytes sample_map_def)

lemma length_demo_root_item: "length demo_root_item = 439"
  by (simp add: demo_root_item_def)

lemma length_demo_linked: "length demo_linked = 31" "length demo_backref = 19"
  by (simp_all add: demo_linked_def dir_item_bytes_def length_dir_entry_bytes demo_link_def
      demo_backref_def)

lemma demo_fits:
  "25 * length demo_chunk_tree + length (concat (map snd demo_chunk_tree)) \<le> 3995"
  "25 * length demo_root_tree + length (concat (map snd demo_root_tree)) \<le> 3995"
  "25 * length demo_tree + length (concat (map snd demo_tree)) \<le> 3995"
  by (simp_all add: demo_chunk_tree_def demo_root_tree_def demo_tree_def length_sample_map
      length_demo_root_item length_inode_bytes length_demo_entry length_demo_extents
      length_demo_linked)

lemma sample_sb_ok: "superblock_ok (sample_sb r cr)"
  using sample_superblock_ok
  by (simp add: superblock_ok_def sample_sb_def length_key_bytes length_sample_map)

lemma sample_sb_label: "label_ok (sb_label (sample_sb r cr))"
  using sample_label_ok by (simp add: sample_sb_def)

lemma length_superblock:
  "length (superblock_bytes crc (sample_sb r cr)) = 4096"
  using length_superblock_body [OF sample_sb_ok sample_sb_label]
  by (simp add: superblock_bytes_def)

lemma demo_image_ok: "image_ok demo_blocks"
  using sample_leaf_reads(1) [OF demo_fits(1), of "block_addr 0"]
    sample_leaf_reads(1) [OF demo_fits(2), of "block_addr 1"]
    sample_leaf_reads(1) [OF demo_fits(3), of "block_addr 2"]
  by (simp add: image_ok_def list_all_iff demo_blocks_def sample_block_def demo_data_def
      length_superblock)

section \<open>The trees\<close>

lemma demo_items:
  "items sample_ext demo (block_addr 0) = Some demo_chunk_tree"
  "items sample_ext demo (block_addr 1) = Some demo_root_tree"
  "items sample_ext demo (block_addr 2) = Some demo_tree"
proof -
  note leaf = sample_items_leaf [OF demo_image_ok, folded demo_def]
  show "items sample_ext demo (block_addr 0) = Some demo_chunk_tree"
    unfolding demo_def
    by (rule sample_items_leaf [OF demo_image_ok _ _ demo_fits(1)])
      (simp_all add: demo_blocks_def demo_chunk_tree_def)
  show "items sample_ext demo (block_addr 1) = Some demo_root_tree"
    unfolding demo_def
    by (rule sample_items_leaf [OF demo_image_ok _ _ demo_fits(2)])
      (simp_all add: demo_blocks_def demo_root_tree_def)
  show "items sample_ext demo (block_addr 2) = Some demo_tree"
    unfolding demo_def
    by (rule sample_items_leaf [OF demo_image_ok _ _ demo_fits(3)])
      (simp_all add: demo_blocks_def demo_tree_def)
qed

lemma demo_fields:
  "sb_root (fs_sb demo) = block_addr 1" "sb_chunk_root (fs_sb demo) = block_addr 0"
  "sb_nodesize (fs_sb demo) = 4096" "sb_sectorsize (fs_sb demo) = 4096"
  "sb_csum_type (fs_sb demo) = 0" "fs_last_extent demo = None" "fs_roots demo = []"
  "fs_nodes demo = []" "core demo = demo"
  by (simp_all add: demo_def sample_fs_def sample_sb_def sample_superblock_def core_def)

lemma demo_caches: "caches_ok x demo"
  using caches_ok_core [of x demo] by (simp add: demo_fields)

definition demo_top :: tree_root where
  "demo_top = \<lparr>tr_bytenr = block_addr 2, tr_root_dirid = 256\<rparr>"

lemma demo_root_of: "root_of 5 demo_root_tree = Inr demo_top" "root_of 256 demo_root_tree = Inr demo_top"
proof -
  have "u64_at demo_root_item 176 = Inr (block_addr 2)" "u64_at demo_root_item 168 = Inr 256"
    by (simp_all add: u64_at_Inr_iff demo_root_item_def le64.dec_enc)
  then show "root_of 5 demo_root_tree = Inr demo_top" "root_of 256 demo_root_tree = Inr demo_top"
    by (simp_all add: root_of_def demo_root_tree_def items_of_def demo_top_def)
qed

lemma demo_lookup_items:
  "map_of demo_tree (Key 256 1 0) = Some (inode_bytes (demo_inode 4 0x41ED))"
  "map_of demo_tree (Key 257 1 0) = Some (inode_bytes (demo_inode 6 0x81A4))"
  "map_of demo_tree (Key 258 1 0) = Some (inode_bytes (demo_inode 5 0x81A4))"
  "items_of 257 108 demo_tree = [(Key 257 108 0, extent_bytes demo_file)]"
  "items_of 258 108 demo_tree = [(Key 258 108 0, extent_bytes demo_inline)]"
  "items_of 256 96 demo_tree =
     [(Key 256 96 2, demo_entry 98 258), (Key 256 96 3, demo_entry 97 257), (Key 256 96 4, demo_linked)]"
  by (simp_all add: demo_tree_def items_of_def)

lemma demo_inode_parse: "inode_parse (inode_bytes (demo_inode sz mode)) = Inr (demo_inode sz mode)"
  by (rule inode_parse_bytes) (simp add: inode_ok_def demo_inode_def)

lemma demo_extent_parse:
  "extent_parse 0 (extent_bytes demo_file) = Inr demo_file"
  "extent_parse 0 (extent_bytes demo_inline) = Inr demo_inline"
  using extent_parse_bytes [of demo_file] extent_parse_bytes [of demo_inline]
  by (simp_all add: extent_ok_def demo_file_def demo_inline_def)

section \<open>File data\<close>

definition demo_disk :: "nat \<Rightarrow> u8" where
  "demo_disk p = concat demo_blocks ! (p - 0x100000)"

lemma demo_read_logical:
  assumes "j * 4096 + i + n \<le> 17 * 4096" and "j < 17" and "0 < n"
  shows "read_logical demo (block_addr j + word_of_nat i) n
     = Inr (map demo_disk [unat (block_addr j) + i ..< unat (block_addr j) + i + n])"
proof -
  let ?img = "concat demo_blocks"
  have blocks: "length demo_blocks = 17" "\<forall>b \<in> set demo_blocks. length b = 4096"
    using demo_image_ok by (simp_all add: image_ok_def list_all_iff demo_blocks_def)
  have img: "length ?img = 17 * 4096"
    using length_concat_fixed [of demo_blocks 4096] blocks by simp
  define a where "a = block_addr j + word_of_nat i"
  have i: "unat (word_of_nat i :: u64) = i" using assms by (intro unat_of_nat_u64) simp
  have a: "unat a = 0x100000 + j * 4096 + i"
    unfolding a_def using assms by (simp add: unat_word_ariths unat_block_addr i)
  define p :: u64 where "p = a - 0x100000"
  have "0x100000 \<le> a" by (simp add: word_le_nat_alt a)
  then have p: "unat p = j * 4096 + i" by (simp add: p_def unat_minus_le a)
  have n: "unat (word_of_nat n :: u64) = n" using assms by (intro unat_of_nat_u64) simp
  have sum: "unat (a + word_of_nat n) = 0x100000 + j * 4096 + i + n"
    using assms by (simp add: unat_word_ariths a n)
  have le: "a + word_of_nat n \<le> 0x200000" "0x100000 \<le> a"
    using assms by (simp_all add: word_le_nat_alt sum a)
  have m: "mirrors demo a (word_of_nat n) = Inr [(image_device ?img, p)]"
    using le by (simp add: mirrors_def demo_def sample_fs_def sample_map_def bt_floor_def
        stripe_mirrors_def map_filter_def striped_def p_def)
  have "device_read (image_device ?img) p n = Inr (take n (drop (j * 4096 + i) ?img))"
    using device_read_serves [OF image_device_serves, of ?img p n] assms img by (simp add: p)
  also have "take n (drop (j * 4096 + i) ?img)
      = map demo_disk [unat (block_addr j) + i ..< unat (block_addr j) + i + n]"
    by (rule nth_equalityI)
      (use assms img in \<open>auto simp: demo_disk_def unat_block_addr nth_append add.assoc\<close>)
  finally show ?thesis
    unfolding a_def [symmetric] by (simp add: read_logical_def m)
qed

lemma demo_data_bytes: "i < 4096 \<Longrightarrow> demo_disk (unat (block_addr 3) + i) = demo_data ! i"
proof -
  assume i: "i < 4096"
  have blocks: "\<forall>b \<in> set demo_blocks. length b = 4096"
    using demo_image_ok by (simp add: image_ok_def list_all_iff)
  have "take 4096 (drop (3 * 4096) (concat demo_blocks @ [])) = demo_blocks ! 3"
    using blocks by (intro concat_fixed_nth) (auto simp: demo_blocks_def)
  then have "demo_data ! i = take 4096 (drop (3 * 4096) (concat demo_blocks)) ! i"
    by (simp add: demo_blocks_def)
  also have "\<dots> = concat demo_blocks ! (3 * 4096 + i)"
  proof -
    have "length (concat demo_blocks) = 4096 * 17"
      using length_concat_fixed [of demo_blocks 4096] blocks by (simp add: demo_blocks_def)
    with i show ?thesis by simp
  qed
  finally show ?thesis by (simp add: demo_disk_def unat_block_addr)
qed

lemma demo_readable: "readable sample_ext demo demo_disk demo_file"
  unfolding readable_def
proof (simp add: demo_file_def, intro conjI allI impI disjI2; (elim conjE)?)
  show "unat (block_addr 3) < 18446744073709547520" by (simp add: unat_block_addr)
next
  fix i n :: nat assume n: "0 < n" "n \<le> 1048576" "i + n \<le> 4096"
  show "read_logical demo (block_addr 3 + word_of_nat i) n
      = Inr (map demo_disk [unat (block_addr 3) + i ..< unat (block_addr 3) + i + n])"
    by (rule demo_read_logical) (use n in simp_all)
qed

lemma demo_readable_inline: "readable sample_ext demo demo_disk demo_inline"
  by (simp add: readable_def demo_inline_def inline_plain_def demo_fields)


section \<open>Opening it\<close>

definition demo_device :: device where
  "demo_device = image_device (concat demo_blocks)"

lemma demo_boot: "boot [(1, demo_device)] (sample_sb (block_addr 1) (block_addr 0))
    [(0x100000, sample_map)] = demo"
  by (simp add: boot_def demo_def sample_fs_def demo_device_def)

lemma sample_crc: "crc32c sample_ext = (\<lambda>_. 7)"
  by (simp add: sample_ext_def)

lemma demo_probe:
  "probe sample_ext False (\<lambda>_. Inr demo_device) ''img''
     = Inr (demo_device, sample_sb (block_addr 1) (block_addr 0))"
proof -
  let ?img = "concat demo_blocks" and ?sb = "sample_sb (block_addr 1) (block_addr 0)"
  have blocks: "length demo_blocks = 17" "\<forall>b \<in> set demo_blocks. length b = 4096"
    using demo_image_ok by (simp_all add: image_ok_def list_all_iff demo_blocks_def)
  have img: "length ?img = 17 * 4096"
    using length_concat_fixed [of demo_blocks 4096] blocks by simp
  have "device_read demo_device 0x10000 4096 = Inr (take 4096 (drop (16 * 4096) ?img))"
    using device_read_serves [OF image_device_serves, of ?img "0x10000" 4096] img
    by (simp add: demo_device_def)
  also have "take 4096 (drop (16 * 4096) (?img @ [])) = demo_blocks ! 16"
    using blocks by (intro concat_fixed_nth) auto
  then have "take 4096 (drop (16 * 4096) ?img) = superblock_bytes (\<lambda>_. 7) ?sb"
    by (simp add: demo_blocks_def nth_append)
  finally show ?thesis
    by (simp add: probe_def sample_crc superblock_parse_bytes [OF sample_sb_ok sample_sb_label])
qed

lemma demo_sys_chunks:
  "sys_chunks (sb_sys_chunk_array (sample_sb r cr)) 0 [] = Inr [(0x100000, sample_map)]"
proof -
  let ?k = "Key 256 228 0x100000" and ?arr = "key_bytes (Key 256 228 0x100000) @ chunk_bytes sample_map"
  have k: "key_parse ?arr 0 = Inr ?k"
    using key_parse_mid [where pre = "[]" and off = 0 and k = ?k and post = "chunk_bytes sample_map"]
    by simp
  have b: "bytes ?arr 17 80 = Inr (chunk_bytes sample_map)"
    by (simp add: bytes_Inr_iff length_key_bytes length_sample_map)
  have c: "chunk_parse 0x100000 (chunk_bytes sample_map) = Inr (sample_map, 80)"
    using chunk_parse_bytes [of sample_map "[]"] length_sample_map by (simp add: sample_map_def)
  have "sys_chunks ?arr 0 [] = sys_chunks ?arr 97 [(0x100000, sample_map)]"
    by (subst sys_chunks.simps)
      (simp add: k b c length_key_bytes length_sample_map insert_chunk_def,
        simp add: sample_map_def)
  also have "\<dots> = Inr [(0x100000, sample_map)]"
    by (subst sys_chunks.simps) (simp add: length_key_bytes length_sample_map)
  finally show ?thesis by (simp add: sample_sb_def)
qed

lemma demo_load: "\<exists>s. load_chunks sample_ext demo = Inr s \<and> fs_chunks s = fs_chunks demo
    \<and> core s = demo \<and> caches_ok sample_ext s"
proof -
  let ?w = "walk sample_ext (block_addr 0) (Key 0 0 0) (Key (- 1) 255 (- 1)) chunk_items []"
  have c: "chunk_parse 0x100000 (chunk_bytes sample_map) = Inr (sample_map, 80)"
    using chunk_parse_bytes [of sample_map "[]"] length_sample_map by (simp add: sample_map_def)
  have visit: "visit_items (Key 0 0 0) (Key (- 1) 255 (- 1)) chunk_items demo_chunk_tree []
      = Inr (True, [sample_map])"
    by (simp add: demo_chunk_tree_def chunk_items_def c)
  have "view sample_ext demo any_caches demo"
    using view_core [of sample_ext demo] by (simp add: demo_fields)
  moreover have "Key 0 0 0 \<le> Key (- 1) 255 (- 1)" by (simp add: word_gt_0)
  ultimately have "fst (?w demo) = visit_items (Key 0 0 0) (Key (- 1) 255 (- 1)) chunk_items
        demo_chunk_tree [] \<and> view sample_ext demo any_caches (snd (?w demo))"
    by (intro computesD [OF walk_computes [OF demo_items(1)]])
  then
  have w: "fst (?w demo) = Inr (True, [sample_map])" and v: "core (snd (?w demo)) = demo"
    by (simp_all add: visit view_def)
  obtain u where u: "?w demo = (Inr (True, [sample_map]), u)" "core u = demo"
    using w v by (cases "?w demo") auto
  have chunks: "fs_chunks u = [(0x100000, sample_map)]" "fs_chunks demo = [(0x100000, sample_map)]"
    using u(2) by (metis core_simps(3) demo_def sample_fs_def fs.select_convs(3))
      (simp add: demo_def sample_fs_def)
  have "load_chunks sample_ext demo = Inr (u\<lparr>fs_chunks := fs_chunks u\<rparr>)"
    using u(1)
    by (simp add: load_chunks_def demo_fields scontext_def insert_chunk_def chunks)
      (simp add: sample_map_def)
  then have load: "load_chunks sample_ext demo = Inr u" by simp
  have map_ok: "chunk_map_ok (fs_chunks demo)"
    using chunk_map_ok_insert [OF chunk_map_ok_Nil, of sample_map]
    by (simp add: insert_chunk_def chunks) (simp add: sample_map_def)
  have "caches_ok sample_ext u"
  proof (rule load_chunks_ok(6) [OF load demo_caches demo_fields(7) map_ok])
    show "\<forall>l \<in> fst ` set (fs_nodes u). same_floor (fs_chunks demo) (fs_chunks u) l"
      unfolding same_floor_def chunks by (intro ballI refl)
  qed
  with load u(2) chunks show ?thesis by (intro exI [of _ u] conjI) simp_all
qed

lemma sample_sb_fields:
  "sb_incompat_flags (sample_sb r cr) = 865" "sb_devid (sample_sb r cr) = 1"
  by (simp_all add: sample_sb_def sample_superblock_def)

lemma demo_open:
  "\<exists>s. fs_open sample_ext False (\<lambda>_. Inr demo_device) [''img''] = Inr s
     \<and> core s = demo \<and> caches_ok sample_ext s"
proof -
  have "fs_open sample_ext False (\<lambda>_. Inr demo_device) [''img''] = load_chunks sample_ext demo"
    by (simp add: fs_open_def demo_probe hm_insert_def demo_sys_chunks sample_sb_fields
        demo_boot [simplified])
  with demo_load show ?thesis by auto
qed

end
