(* ===== verification/Fs_Facts.thy ===== *)
theory Fs_Facts
  imports Fs_Sample
begin

text \<open>
  What an open file system promises its callers: the state an open leaves, the exact contents
  of files, the bounds on symlinks, the meaning of names, paths and subvolumes, and that the
  caches change nothing.
\<close>

section \<open>Opening\<close>

text \<open>
  C3: A file system that opens has a valid superblock without the features this tool
  refuses, taken from the given device with the highest generation, all given devices belong
  to it, its chunks are filed under their own start addresses in order, and every tree block
  in its cache was verified.
\<close>

theorem open_sound:
  assumes "fs_open x windows dev_open paths = Inr s"
  shows "superblock_ok (fs_sb s) \<and> sb_incompat_flags (fs_sb s) AND 0x6000 = 0
    \<and> chunk_map_ok (fs_chunks s)
    \<and> (\<exists>found. list_all2 (\<lambda>p sb. \<exists>d. probe x windows dev_open p = Inr (d, sb)) paths found
         \<and> fs_sb s \<in> set found
         \<and> (\<forall>sb \<in> set found. sb_fsid sb = sb_fsid (fs_sb s)
              \<and> sb_generation sb \<le> sb_generation (fs_sb s)))
    \<and> (\<forall>l n. map_of (fs_nodes s) l = Some n \<longrightarrow>
         length n = unat (sb_nodesize (fs_sb s)) \<and> block_ok x (fs_sb s) l n)"
proof -
  from assms obtain devs best m where paths: "paths \<noteq> []"
      and devs: "open_devices x windows dev_open paths [] None = Inr (devs, best)"
      and flags: "sb_incompat_flags (the best) AND 0x6000 = 0"
      and m: "sys_chunks (sb_sys_chunk_array (the best)) 0 [] = Inr m"
      and load: "load_chunks x (boot devs (the best) m) = Inr s"
    by (auto simp: fs_open_def rbind_Inr_iff Let_def split: if_splits)
  have "best_ok [] None" by (simp add: best_ok_def)
  from open_devices_best [OF devs this] obtain found where
      found: "list_all2 (\<lambda>p sb. \<exists>d. probe x windows dev_open p = Inr (d, sb)) paths found"
      and best: "best_ok found best"
    by auto
  from found paths have "found \<noteq> []" by auto
  with best obtain b where bb: "best = Some b" by (cases best) (simp_all add: best_ok_def)
  from best have b: "best = Some b" "b \<in> set found"
      "\<forall>sb \<in> set found. sb_fsid sb = sb_fsid b \<and> sb_generation sb \<le> sb_generation b"
    unfolding best_ok_def bb option.case by blast+
  obtain p d where "probe x windows dev_open p = Inr (d, b)"
    using found b(2) by (auto simp: list_all2_conv_all_nth in_set_conv_nth)
  from probe_ok [OF this] have ok: "superblock_ok b" .
  let ?s = "boot devs b m"
  have "caches_ok x ?s" "fs_roots ?s = []"
    by (simp_all add: boot_def caches_ok_def nodes_ok_def roots_ok_def)
  moreover have "chunk_map_ok (fs_chunks ?s)"
    using sys_chunks_ok [OF m] chunk_map_ok_Nil by (simp add: boot_def)
  ultimately have s: "chunk_map_ok (fs_chunks s)" "fs_sb s = fs_sb ?s"
      "\<forall>l n. map_of (fs_nodes s) l = Some n \<longrightarrow> node_at x ?s l = Inr n"
    using load_chunks_ok(1,2,5) [of x ?s s] load b(1) by simp_all
  have sb: "fs_sb s = b" using s(2) by (simp add: boot_def)
  have size: "4096 \<le> unat (sb_nodesize (fs_sb ?s))"
    using ok by (simp add: boot_def superblock_ok_def word_le_nat_alt)
  have "length n = unat (sb_nodesize (fs_sb s)) \<and> block_ok x (fs_sb s) l n"
    if "map_of (fs_nodes s) l = Some n" for l n
  proof -
    from s(3) that have "node_at x ?s l = Inr n" by blast
    from node_at_ok [OF size this] show ?thesis unfolding s(2) by (simp add: node_ok_def)
  qed
  moreover have "sb_incompat_flags b AND 0x6000 = 0" using flags by (simp add: bb)
  ultimately show ?thesis
    using ok s(1) found b(2,3) unfolding sb by blast
qed

theorem open_sound_witness:
  "\<exists>s. fs_open sample_ext False (\<lambda>_. Inr demo_device) [''img''] = Inr s
     \<and> chunk_map_ok (fs_chunks s) \<and> sb_generation (fs_sb s) = 7"
proof -
  obtain s where s: "fs_open sample_ext False (\<lambda>_. Inr demo_device) [''img''] = Inr s"
      and core: "core s = demo"
    using demo_open by blast
  have "fs_sb s = fs_sb demo" using core by (metis core_simps(2))
  then have "sb_generation (fs_sb s) = 7"
    by (simp add: demo_def sample_fs_def sample_sb_def sample_superblock_def)
  with open_sound [OF s] s show ?thesis by blast
qed

section \<open>Files\<close>

text \<open>The file at \<open>l\<close> has inode \<open>i\<close> and extents \<open>es\<close>, going by the items of the trees.\<close>

definition file_at :: "ext \<Rightarrow> fs \<Rightarrow> loc \<Rightarrow> inode \<Rightarrow> extent list \<Rightarrow> bool" where
  "file_at x s l i es \<longleftrightarrow>
     loc_tree l \<noteq> 0 \<and>
     (\<exists>rits tr its d.
        items x s (sb_root (fs_sb s)) = Some rits \<and> root_of (loc_tree l) rits = Inr tr \<and>
        items x s (tr_bytenr tr) = Some its \<and>
        map_of its (Key (loc_ino l) 1 0) = Some d \<and> inode_parse d = Inr i \<and>
        rcollect (\<lambda>(k, d). extent_parse (koffset k) d) (items_of (loc_ino l) 108 its) = Inr es)"

lemma file_at_computes:
  assumes "file_at x s l i es" and "core s = c"
  shows "computes (view x c (sound_roots x c Q)) (inode x l) (Inr i)"
    and "computes (view x c (sound_roots x c Q)) (extents x l) (Inr es)"
proof -
  obtain rits tr its d where l: "loc_tree l \<noteq> 0"
      and r: "items x s (sb_root (fs_sb s)) = Some rits" "root_of (loc_tree l) rits = Inr tr"
      and its: "items x s (tr_bytenr tr) = Some its"
      and d: "map_of its (Key (loc_ino l) 1 0) = Some d" "inode_parse d = Inr i"
      and es: "rcollect (\<lambda>(k, d). extent_parse (koffset k) d) (items_of (loc_ino l) 108 its) = Inr es"
    using assms(1) unfolding file_at_def by blast
  have c: "core c = c" "sb_root (fs_sb c) = sb_root (fs_sb s)" "items x c = items x s"
    using assms(2) items_core [of x s] core_simps(2,7) [of s] by (auto simp: fun_eq_iff)
  have r': "items x c (sb_root (fs_sb c)) = Some rits" and its': "items x c (tr_bytenr tr) = Some its"
    using r(1) its by (simp_all add: c)
  show "computes (view x c (sound_roots x c Q)) (inode x l) (Inr i)"
    using inode_computes [OF r' c(1) r(2) its' l, of Q] d by simp
  show "computes (view x c (sound_roots x c Q)) (extents x l) (Inr es)"
    using extents_computes [OF r' c(1) r(2) its', of Q] es by simp
qed

lemma file_inode:
  assumes "caches_ok x s" and "file_at x s l i es"
  shows "fst (inode x l s) = Inr i"
  using computesD [OF file_at_computes(1) [OF assms(2) refl] view_sound [OF assms(1) refl]] by simp

text \<open>
  On a file system whose trees are search trees, \<open>inode\<close> returns the inode item with the
  file's number and \<open>extents\<close> all its extent items in file order, and only those.
\<close>

theorem file_metadata:
  assumes "caches_ok x s" and "file_at x s l i es"
  shows "fst (inode x l s) = Inr i \<and> fst (extents x l s) = Inr es"
  using computesD [OF file_at_computes(1) [OF assms(2) refl] view_sound [OF assms(1) refl]]
    computesD [OF file_at_computes(2) [OF assms(2) refl] view_sound [OF assms(1) refl]]
  by simp

lemma demo_file_at:
  "file_at sample_ext demo (Loc 5 257) (demo_inode 6 0x81A4) [demo_file]"
  "file_at sample_ext demo (Loc 5 258) (demo_inode 5 0x81A4) [demo_inline]"
proof -
  have at: "file_at sample_ext demo (Loc 5 ino) i es"
    if "map_of demo_tree (Key ino 1 0) = Some d" "inode_parse d = Inr i"
      "rcollect (\<lambda>(k, d). extent_parse (koffset k) d) (items_of ino 108 demo_tree) = Inr es"
    for ino d i es
    unfolding file_at_def
    using that demo_items demo_root_of
    by (intro conjI exI [of _ demo_root_tree] exI [of _ demo_top] exI [of _ demo_tree] exI [of _ d])
      (simp_all add: demo_fields demo_top_def)
  show "file_at sample_ext demo (Loc 5 257) (demo_inode 6 0x81A4) [demo_file]"
    by (rule at [OF demo_lookup_items(2) demo_inode_parse])
      (simp add: demo_lookup_items demo_extent_parse)
  show "file_at sample_ext demo (Loc 5 258) (demo_inode 5 0x81A4) [demo_inline]"
    by (rule at [OF demo_lookup_items(3) demo_inode_parse])
      (simp add: demo_lookup_items demo_extent_parse)
qed

theorem file_metadata_witness:
  "fst (inode sample_ext (Loc 5 257) demo) = Inr (demo_inode 6 0x81A4)
   \<and> fst (extents sample_ext (Loc 5 257) demo) = Inr [demo_file]"
  by (rule file_metadata [OF demo_caches demo_file_at(1)])

lemma file_delivers:
  assumes "file_at x s0 l i es" and "core s0 = c" and "coherent es"
    and "\<forall>e \<in> set es. readable x c disk e"
    and s: "view x c (sound_roots x c (last_ok x c es)) s"
  shows "\<exists>t. read_range x l start end' vec_sink (s, [])
     = (Inr (), (t, map (file_byte x c disk es) [unat start ..< unat (min end' (i_size i))]))"
proof -
  let ?Q = "last_ok x c es"
  let ?I = "view x c (sound_roots x c ?Q)"
  have inode: "achieves ?I (inode x l) i ?I"
    by (rule achieves_computes [OF file_at_computes(1) [OF assms(1,2)]])
  have "achieves ?I (extents x l) es ?I"
    by (rule achieves_computes [OF file_at_computes(2) [OF assms(1,2)]])
  then have extents: "achieves ?I (extents x l) es (reads x c es)"
    by (rule achieves_weaken) (auto simp: view_def sound_roots_def reads_def)
  have "sorted (map ex_file_off es)"
    using assms(1) by (auto simp: file_at_def intro: extents_sorted dest: items_sorted)
  from achievesD [OF read_range_achieves [OF inode extents assms(3,4) this], of "(s, [])" start end'] s
  show ?thesis by (metis fst_conv prod.collapse snd_conv)
qed

lemma read_range_delivers:
  assumes "caches_ok x s" and "file_at x s l i es"
    and "coherent es" and "last_ok x (core s) es (fs_last_extent s)"
    and "\<forall>e \<in> set es. readable x (core s) disk e"
  shows "\<exists>t. read_range x l start end' vec_sink (s, [])
     = (Inr (), (t, map (file_byte x (core s) disk es) [unat start ..< unat (min end' (i_size i))]))"
  by (rule file_delivers [OF assms(2) refl assms(3,5)])
    (use assms(1,4) in \<open>auto simp: view_def sound_roots_def caches_ok_def\<close>)

text \<open>
  C1: Reading any range of a file whose extents are readable succeeds and delivers exactly
  the bytes of the file in that range, up to its size: for each byte, that of the first extent
  covering it (inline, on disk or decompressed), and zero where there is none, for holes and
  for preallocated space.  Nothing is left out, repeated or reordered at extent boundaries,
  and splitting the reads into 1 MiB pieces does not show.
\<close>

theorem read_range_exact:
  assumes "caches_ok x s" and "file_at x s l i es"
    and "coherent es" and "last_ok x (core s) es (fs_last_extent s)"
    and "\<forall>e \<in> set es. readable x (core s) disk e"
  shows "\<exists>t. read_range x l start end' vec_sink (s, [])
     = (Inr (), (t, map (file_byte x (core s) disk es) [unat start ..< unat (min end' (i_size i))]))"
  by (rule read_range_delivers [OF assms])

lemma demo_bytes:
  assumes "p < 6"
  shows "file_byte sample_ext demo demo_disk [demo_file] p = [10, 11, 12, 13, 14, 15] ! p"
proof -
  have "covers demo_file p" using assms
    by (simp add: covers_def demo_file_def saturating_add_def)
  then have "file_byte sample_ext demo demo_disk [demo_file] p
      = demo_disk (unat (block_addr 3) + p)"
    by (simp add: file_byte_def extent_byte_def) (simp add: demo_file_def block_addr_def)
  also have "\<dots> = demo_data ! p" using assms by (intro demo_data_bytes) simp
  also have "\<dots> = [10, 11, 12, 13, 14, 15] ! p"
  proof -
    have "p < length [10, 11, 12, 13, 14, 15 :: 8 word]" using assms by simp
    then show ?thesis unfolding demo_data_def nth_append by simp
  qed
  finally show ?thesis .
qed

lemma coherent_single: "coherent [e]"
  by (auto simp: coherent_def)

theorem read_range_exact_witness:
  "\<exists>t. read_range sample_ext (Loc 5 257) 2 100 vec_sink (demo, []) = (Inr (), (t, [12, 13, 14, 15]))"
proof -
  have "coherent [demo_file]" "last_ok sample_ext (core demo) [demo_file] (fs_last_extent demo)"
    "\<forall>e \<in> set [demo_file]. readable sample_ext (core demo) demo_disk e"
    using demo_readable by (simp_all add: coherent_single last_ok_def demo_fields)
  from read_range_exact [OF demo_caches demo_file_at(1) this, of 2 100]
  obtain t where "read_range sample_ext (Loc 5 257) 2 100 vec_sink (demo, [])
      = (Inr (), (t, map (file_byte sample_ext demo demo_disk [demo_file]) [2 ..< 6]))"
    by (auto simp: demo_fields demo_inode_def min_def)
  moreover have "[2 ..< 6] = [2, 3, 4, 5 :: nat]" by (simp add: upt_rec)
  ultimately show ?thesis by (simp add: demo_bytes)
qed

lemma demo_reads: "\<exists>data t. read_to_vec sample_ext (Loc 5 258) 100 demo = (Inr data, t)"
proof -
  have "coherent [demo_inline]" "last_ok sample_ext (core demo) [demo_inline] (fs_last_extent demo)"
    "\<forall>e \<in> set [demo_inline]. readable sample_ext (core demo) demo_disk e"
    using demo_readable_inline by (simp_all add: coherent_single last_ok_def demo_fields)
  from read_range_delivers [OF demo_caches demo_file_at(2) this, of 0 100]
  show ?thesis by (auto simp: read_to_vec_def)
qed

end
