(* ===== verification/Fs_Names_Facts.thy ===== *)
theory Fs_Names_Facts
  imports Fs_Facts
begin

text \<open>
  What names mean: lookups, listings and paths against the items of the trees, what holds for
  them on any file system, damaged ones included, and that no result depends on what the
  caches hold.
\<close>

section \<open>Directories against their items\<close>

text \<open>
  What a directory entry stands for, going by the items \<open>rits\<close> of the root tree: a file of the
  same subvolume, the top directory of another, or the placeholder when that subvolume is not
  linked under this one.
\<close>

definition entry_in :: "(key \<times> bytes) list \<Rightarrow> loc \<Rightarrow> dir_entry \<Rightarrow> err + entry" where
  "entry_in rits dir de =
     (let child = objectid (de_location de) in
      if kty (de_location de) \<noteq> 132 then
        Inr \<lparr>e_name = de_name de, e_loc = Loc (loc_tree dir) child, e_ftype = de_ftype de,
             e_subvol = False\<rparr>
      else if map_of rits (Key (loc_tree dir) 156 child) = None then
        Inr \<lparr>e_name = de_name de, e_loc = Loc 0 0, e_ftype = 2, e_subvol = True\<rparr>
      else
        rbind (root_of child rits) (\<lambda>r.
        Inr \<lparr>e_name = de_name de, e_loc = Loc child (tr_root_dirid r), e_ftype = 2,
             e_subvol = True\<rparr>))"

definition lookup_in ::
  "ext \<Rightarrow> (key \<times> bytes) list \<Rightarrow> (key \<times> bytes) list \<Rightarrow> loc \<Rightarrow> bytes \<Rightarrow> err + entry option" where
  "lookup_in x rits its dir name =
     (case map_of its (Key (loc_ino dir) 84 (name_hash (crc32c_append x) name)) of
        None \<Rightarrow> Inr None
      | Some d \<Rightarrow>
          rbind (parse_dir_entries d) (\<lambda>es.
          case find (\<lambda>e. de_name e = name) es of
            None \<Rightarrow> Inr None
          | Some e \<Rightarrow> rbind (entry_in rits dir e) (\<lambda>r. Inr (Some r))))"

definition listing_in ::
  "(key \<times> bytes) list \<Rightarrow> (key \<times> bytes) list \<Rightarrow> loc \<Rightarrow> err + entry list" where
  "listing_in rits its dir =
     rbind (rcollect (\<lambda>(k, d). parse_dir_entries d) (items_of (loc_ino dir) 96 its)) (\<lambda>ess.
     rbind (rcollect (entry_in rits dir) (concat ess)) (\<lambda>out. Inr (sort_key e_name out)))"

lemma entry_computes:
  assumes r: "items x c (sb_root (fs_sb c)) = Some rits" and c: "core c = c"
  shows "computes (view x c (sound_roots x c Q)) (entry x dir de) (entry_in rits dir de)"
proof (cases "kty (de_location de) = 132")
  case False
  then show ?thesis by (simp add: entry_def entry_in_def computes_def)
next
  case True
  let ?child = "objectid (de_location de)" and ?I = "view x c (sound_roots x c Q)"
  let ?linked = "map_of rits (Key (loc_tree dir) 156 ?child)"
  have root: "computes ?I (sget (\<lambda>s. sb_root (fs_sb s))) (Inr (sb_root (fs_sb c)))"
    by (auto simp: computes_def view_def)
  have fin: "computes ?I
      (sbind (if ?linked \<noteq> None then sbind (tree x ?child) (\<lambda>r. sret (Loc ?child (tr_root_dirid r)))
              else sret (Loc 0 0))
        (\<lambda>l. sret \<lparr>e_name = de_name de, e_loc = l, e_ftype = 2, e_subvol = True\<rparr>))
      (entry_in rits dir de)"
  proof (cases "?linked = None")
    case True
    with \<open>kty (de_location de) = 132\<close> show ?thesis
      by (simp add: entry_in_def computes_def)
  next
    case False
    then have e: "entry_in rits dir de = rbind (root_of ?child rits) (\<lambda>r. Inr
        \<lparr>e_name = de_name de, e_loc = Loc ?child (tr_root_dirid r), e_ftype = 2, e_subvol = True\<rparr>)"
      using \<open>kty (de_location de) = 132\<close> by (auto simp: entry_in_def Let_def)
    show ?thesis
      unfolding e sbind_assoc if_P [OF False] sbind_ret
      by (rule computes_bind [OF tree_is_root_of [OF r c]]) (rule computes_ret)
  qed
  show ?thesis
    unfolding entry_def Let_def ROOT_REF_KEY_def ROOT_ITEM_KEY_def FT_DIR_def using True
    by (simp only: simp_thms if_False)
      (rule computes_bind_Inr [OF root], rule computes_bind_Inr [OF get_computes [OF r]], rule fin)
qed

lemma mapM_computes:
  assumes "\<And>a. computes I (f a) (g a)"
  shows "computes I (smapM f xs) (rcollect g xs)"
proof (induction xs)
  case Nil
  then show ?case by (simp add: computes_def)
next
  case (Cons a xs)
  show ?case
    unfolding smapM.simps rcollect.simps
    by (rule computes_bind [OF assms], rule computes_bind [OF Cons.IH], rule computes_ret)
qed

lemma visit_all_entries:
  "visit_all (\<lambda>_ d raw. rbind (parse_dir_entries d) (\<lambda>es. Inr (True, raw @ es))) its raw
     = rbind (rcollect (\<lambda>(k, d). parse_dir_entries d) its) (\<lambda>ess. Inr (raw @ concat ess))"
proof (induction its arbitrary: raw)
  case (Cons e its)
  obtain k d where e: "e = (k, d)" by (cases e)
  show ?case by (cases "parse_dir_entries d") (simp_all add: e Cons.IH rbind_assoc)
qed simp

lemma lookup_in_computes:
  assumes l: "loc_tree dir \<noteq> 0"
    and r: "items x c (sb_root (fs_sb c)) = Some rits" and c: "core c = c"
    and t: "root_of (loc_tree dir) rits = Inr tr" and its: "items x c (tr_bytenr tr) = Some its"
  shows "computes (view x c (sound_roots x c Q)) (lookup x dir name) (lookup_in x rits its dir name)"
proof -
  let ?I = "view x c (sound_roots x c Q)"
  let ?item = "map_of its (Key (loc_ino dir) 84 (name_hash (crc32c_append x) name))"
  have found: "computes ?I
      (case find (\<lambda>e. de_name e = name) es of None \<Rightarrow> sret None
       | Some e \<Rightarrow> sbind (entry x dir e) (\<lambda>e'. sret (Some e')))
      (case find (\<lambda>e. de_name e = name) es of None \<Rightarrow> Inr None
       | Some e \<Rightarrow> rbind (entry_in rits dir e) (\<lambda>r. Inr (Some r)))" for es
    by (cases "find (\<lambda>e. de_name e = name) es")
      (simp_all only: option.case computes_ret computes_bind [OF entry_computes [OF r c]])
  have "computes ?I
      (case ?item of None \<Rightarrow> sret None
       | Some it \<Rightarrow> sbind (slift (parse_dir_entries it)) (\<lambda>es.
           case find (\<lambda>e. de_name e = name) es of None \<Rightarrow> sret None
           | Some e \<Rightarrow> sbind (entry x dir e) (\<lambda>e'. sret (Some e'))))
      (lookup_in x rits its dir name)"
    unfolding lookup_in_def
    by (cases ?item)
      (simp_all only: option.case computes_ret computes_bind [OF computes_lift found])
  with l show ?thesis
    unfolding lookup_def is_placeholder_def DIR_ITEM_KEY_def
    by (simp only: if_False)
      (rule computes_bind_Inr [OF tree_is_root_of [OF r c, of Q "loc_tree dir", unfolded t]],
        rule computes_bind_Inr [OF get_computes [OF its]])
qed

lemma readdir_in_computes:
  assumes l: "loc_tree dir \<noteq> 0"
    and r: "items x c (sb_root (fs_sb c)) = Some rits" and c: "core c = c"
    and t: "root_of (loc_tree dir) rits = Inr tr" and its: "items x c (tr_bytenr tr) = Some its"
  shows "computes (view x c (sound_roots x c Q)) (readdir x dir) (listing_in rits its dir)"
proof -
  let ?I = "view x c (sound_roots x c Q)"
  let ?w = "walk x (tr_bytenr tr) (Key (loc_ino dir) 96 0) (Key (loc_ino dir) 96 (- 1))
      (\<lambda>_ d raw. rbind (parse_dir_entries d) (\<lambda>es. Inr (True, raw @ es))) []"
  let ?f = "\<lambda>raw. sbind (smapM (entry x dir) raw) (\<lambda>out. sret (sort_key e_name out))"
  have w: "computes ?I (sbind ?w (\<lambda>(_, v'). sret v'))
      (rbind (rcollect (\<lambda>(k, d). parse_dir_entries d) (items_of (loc_ino dir) 96 its))
        (\<lambda>ess. Inr (concat ess)))"
    using walk_type_computes [OF its, of _ "loc_ino dir" 96
        "\<lambda>_ d raw. rbind (parse_dir_entries d) (\<lambda>es. Inr (True, raw @ es))" "[]"]
    by (simp add: visit_all_entries)
  have "computes ?I (sbind (sbind ?w (\<lambda>(_, v'). sret v')) ?f)
      (rbind (rbind (rcollect (\<lambda>(k, d). parse_dir_entries d) (items_of (loc_ino dir) 96 its))
        (\<lambda>ess. Inr (concat ess)))
       (\<lambda>raw. rbind (rcollect (entry_in rits dir) raw) (\<lambda>out. Inr (sort_key e_name out))))"
    by (intro computes_bind [OF w] computes_bind [OF mapM_computes [OF entry_computes [OF r c]]]
        computes_ret)
  moreover have "sbind (sbind ?w (\<lambda>(_, v'). sret v')) ?f = sbind ?w (\<lambda>(_, raw). ?f raw)"
    unfolding sbind_assoc by (intro arg_cong [where f = "sbind ?w"] ext) (simp add: split_beta)
  ultimately have "computes ?I (sbind ?w (\<lambda>(_, raw). ?f raw)) (listing_in rits its dir)"
    by (simp add: listing_in_def rbind_assoc)
  with l show ?thesis
    unfolding readdir_def is_placeholder_def DIR_INDEX_KEY_def
    by (simp only: if_False)
      (rule computes_bind_Inr [OF tree_is_root_of [OF r c, of Q "loc_tree dir", unfolded t]])
qed

text \<open>The directory at \<open>dir\<close> is in the tree with the items \<open>its\<close>.\<close>

definition dir_in ::
  "ext \<Rightarrow> fs \<Rightarrow> loc \<Rightarrow> (key \<times> bytes) list \<Rightarrow> (key \<times> bytes) list \<Rightarrow> bool" where
  "dir_in x s dir rits its \<longleftrightarrow>
     loc_tree dir \<noteq> 0 \<and> items x s (sb_root (fs_sb s)) = Some rits \<and>
     (\<exists>tr. root_of (loc_tree dir) rits = Inr tr \<and> items x s (tr_bytenr tr) = Some its)"

lemma dir_in_core: "dir_in x s dir rits its \<Longrightarrow> dir_in x (core s) dir rits its"
  by (simp add: dir_in_def items_core)

lemma names_computed:
  assumes "caches_ok x s" and "dir_in x s dir rits its"
  shows "fst (lookup x dir name s) = lookup_in x rits its dir name"
    and "fst (readdir x dir s) = listing_in rits its dir"
proof -
  obtain tr where d: "loc_tree dir \<noteq> 0"
      "items x (core s) (sb_root (fs_sb (core s))) = Some rits"
      "root_of (loc_tree dir) rits = Inr tr" "items x (core s) (tr_bytenr tr) = Some its"
    using dir_in_core [OF assms(2)] unfolding dir_in_def by blast
  have cc: "core (core s) = core s" by simp
  show "fst (lookup x dir name s) = lookup_in x rits its dir name"
    "fst (readdir x dir s) = listing_in rits its dir"
    using computesD [OF lookup_in_computes [OF d(1,2) cc d(3,4)] view_sound [OF assms(1) refl]]
      computesD [OF readdir_in_computes [OF d(1,2) cc d(3,4)] view_sound [OF assms(1) refl]]
    by blast+
qed

text \<open>
  C6: On a file system whose trees are search trees, looking a name up finds the directory
  item at the name's hash, picks from the entries with that hash the first whose name is
  exactly the one asked for, and returns what it stands for; and listing a directory returns
  all its index entries, each with what it stands for, sorted by name.
\<close>

theorem names_exact:
  assumes "caches_ok x s" and "dir_in x s dir rits its"
  shows "fst (lookup x dir name s) = lookup_in x rits its dir name
    \<and> fst (readdir x dir s) = listing_in rits its dir"
  using names_computed [OF assms] by blast

lemma demo_dir_in: "dir_in sample_ext demo (Loc 5 256) demo_root_tree demo_tree"
  using demo_items demo_root_of
  by (simp add: dir_in_def demo_fields demo_top_def)

lemma demo_entry_parse: "parse_dir_entries (demo_entry c ino) = Inr [sample_entry ino [c]]"
  unfolding demo_entry_def
  by (subst parse_dir_entries_items)
    (simp_all add: dir_entry_fits_def dir_item_bytes_def length_dir_entry_bytes sample_entry_def)

lemma demo_linked_parse: "parse_dir_entries demo_linked = Inr [demo_link]"
  unfolding demo_linked_def
  by (subst parse_dir_entries_items)
    (simp_all add: dir_entry_fits_def dir_item_bytes_def length_dir_entry_bytes demo_link_def)

lemma demo_hash:
  "name_hash (crc32c_append sample_ext) [97] = 0xFFFFFF9D"
  "name_hash (crc32c_append sample_ext) [99] = 0xFFFFFF9B"
  "name_hash (crc32c_append sample_ext) [100] = 0xFFFFFF9A"
  by (simp_all add: name_hash_def sample_ext_def from_le_bytes_def)

lemma demo_dir_items:
  "map_of demo_tree (Key 256 84 0xFFFFFF9D) = Some (demo_entry 97 257)"
  "map_of demo_tree (Key 256 84 0xFFFFFF9B) = Some demo_linked"
  "map_of demo_tree (Key 256 84 0xFFFFFF9A) = None"
  "map_of demo_root_tree (Key 5 156 256) = Some demo_backref"
  by (simp_all add: demo_tree_def demo_root_tree_def)

lemma demo_names:
  "lookup_in sample_ext demo_root_tree demo_tree (Loc 5 256) [97]
     = Inr (Some \<lparr>e_name = [97], e_loc = Loc 5 257, e_ftype = 1, e_subvol = False\<rparr>)"
  "lookup_in sample_ext demo_root_tree demo_tree (Loc 5 256) [99]
     = Inr (Some \<lparr>e_name = [99], e_loc = Loc 256 256, e_ftype = 2, e_subvol = True\<rparr>)"
  "lookup_in sample_ext demo_root_tree demo_tree (Loc 5 256) [100] = Inr None"
  "listing_in demo_root_tree demo_tree (Loc 5 256)
     = Inr [\<lparr>e_name = [97], e_loc = Loc 5 257, e_ftype = 1, e_subvol = False\<rparr>,
            \<lparr>e_name = [98], e_loc = Loc 5 258, e_ftype = 1, e_subvol = False\<rparr>,
            \<lparr>e_name = [99], e_loc = Loc 256 256, e_ftype = 2, e_subvol = True\<rparr>]"
  by (simp_all add: lookup_in_def listing_in_def demo_hash demo_dir_items demo_entry_parse
      demo_linked_parse demo_lookup_items entry_in_def sample_entry_def demo_link_def demo_root_of
      demo_top_def)

theorem names_exact_witness:
  "fst (lookup sample_ext (Loc 5 256) [97] demo)
     = Inr (Some \<lparr>e_name = [97], e_loc = Loc 5 257, e_ftype = 1, e_subvol = False\<rparr>)
   \<and> fst (readdir sample_ext (Loc 5 256) demo)
     = Inr [\<lparr>e_name = [97], e_loc = Loc 5 257, e_ftype = 1, e_subvol = False\<rparr>,
            \<lparr>e_name = [98], e_loc = Loc 5 258, e_ftype = 1, e_subvol = False\<rparr>,
            \<lparr>e_name = [99], e_loc = Loc 256 256, e_ftype = 2, e_subvol = True\<rparr>]"
  using names_exact [OF demo_caches demo_dir_in, of "[97]"] by (simp add: demo_names)

section \<open>Names on any file system\<close>

text \<open>
  C16: Whatever the trees hold, a lookup that finds something returns an entry with exactly the
  name asked for; a file is in the subvolume of its directory, and a subvolume is entered
  only through a reference from the subvolume of the directory that the root tree has in a
  verified leaf, and otherwise is the placeholder.  A listing is sorted by name, and its
  entries have the same two properties.
\<close>

theorem names_sound:
  assumes "caches_ok x s"
  shows "(\<forall>e t. lookup x dir name s = (Inr (Some e), t) \<longrightarrow>
       e_name e = name \<and> (\<exists>de. entry_ok x (core s) dir de e))
    \<and> (\<forall>es t. readdir x dir s = (Inr es, t) \<longrightarrow>
       sorted (map e_name es) \<and> (\<forall>e \<in> set es. \<exists>de. entry_ok x (core s) dir de e))"
proof -
  have o: "opened x (core s) s" using assms by (simp add: opened_def)
  show ?thesis
    using ensuresD [OF lookup_ensures o] ensuresD [OF readdir_ensures o] by blast
qed

theorem names_sound_witness:
  "\<exists>e t. lookup sample_ext (Loc 5 256) [97] demo = (Inr (Some e), t)
     \<and> e_name e = [97] \<and> loc_tree (e_loc e) = 5"
proof -
  obtain t where "lookup sample_ext (Loc 5 256) [97] demo = (Inr (Some
      \<lparr>e_name = [97], e_loc = Loc 5 257, e_ftype = 1, e_subvol = False\<rparr>), t)"
    using names_computed(1) [OF demo_caches demo_dir_in, of "[97]"] demo_names(1)
    by (metis prod.collapse)
  with names_sound [OF demo_caches, of sample_ext "Loc 5 256" "[97]"] show ?thesis by fastforce
qed

section \<open>Paths\<close>

text \<open>
  C7: A path that resolves, resolves to where looking up its names one after the other leads
  from the top directory, once each \<open>..\<close> has cancelled the name before it (and nothing at the
  top); empty names and \<open>.\<close> do not count, and both slashes separate.
\<close>

theorem resolve_follows:
  assumes "caches_ok x s" and "fst (resolve x path s) = Inr l"
  shows "\<exists>r. fst (root x s) = Inr r
     \<and> follow x (core s) r (cancel [] (path_parts path)) = Some l"
proof -
  obtain r t u where r: "root x s = (Inr r, t)"
      and l: "resolve_loop x (path_parts path) [r] [] t = (Inr l, u)"
    using assms(2) unfolding resolve_def
    by (cases "resolve x path s") (auto simp: resolve_def sbind_Inr_iff)
  have o: "opened x (core s) s" using assms(1) by (simp add: opened_def)
  from ensuresD [OF steady_opened [OF root_alike] this r] have t: "opened x (core s) t" by simp
  have "trail x (core s) r [] [r]" by (simp add: trail_def)
  from ensuresD [OF resolve_loop_ensures [OF this] t l] r show ?thesis by auto
qed

lemma demo_resolve_computes:
  "computes (view sample_ext demo (sound_roots sample_ext demo Q))
     (resolve sample_ext ''/.//../a'') (Inr (Loc 5 257))"
proof -
  let ?I = "view sample_ext demo (sound_roots sample_ext demo Q)"
  note tree = demo_items(2) [folded demo_fields(1)] demo_fields(9)
  have parts: "path_parts ''/.//../a'' = [''..'', ''a'']" by (simp add: path_parts_def)
  have top: "computes ?I (root sample_ext) (Inr (Loc 5 256))"
    unfolding root_def FS_TREE_OBJECTID_def
    by (rule computes_bind_Inr [OF tree_is_root_of [OF tree, of _ 5, unfolded demo_root_of]])
      (auto simp: demo_top_def)
  have "computes ?I (inode sample_ext (Loc 5 256)) (Inr (demo_inode 4 0x41ED))"
    using inode_computes [OF tree, of "Loc 5 256" demo_top demo_tree] demo_items(3)
    by (simp add: demo_root_of demo_top_def demo_lookup_items demo_inode_parse)
  then have dir: "computes ?I (check_dir sample_ext (Loc 5 256) []) (Inr ())"
    by (simp add: check_dir_def is_placeholder_def)
      (rule computes_bind_Inr, assumption,
        simp add: demo_inode_def is_symlink_def is_dir_def computes_def)
  have found: "computes ?I (lookup sample_ext (Loc 5 256) (as_bytes ''a''))
      (Inr (Some \<lparr>e_name = [97], e_loc = Loc 5 257, e_ftype = 1, e_subvol = False\<rparr>))"
    using lookup_in_computes [OF _ tree, of "Loc 5 256" demo_top demo_tree Q "[97]"]
      demo_items(3)
    by (simp add: demo_root_of demo_top_def demo_names as_bytes_def)
  have "computes ?I (resolve_loop sample_ext [''a''] [Loc 5 256] []) (Inr (Loc 5 257))"
    unfolding resolve_loop.simps Let_def last.simps
    by (simp, rule computes_bind_Inr [OF dir], rule computes_bind_Inr [OF found])
      (simp add: computes_def)
  then show "computes ?I (resolve sample_ext ''/.//../a'') (Inr (Loc 5 257))"
    unfolding resolve_def parts by (intro computes_bind_Inr [OF top]) simp
qed

lemma demo_resolves: "fst (resolve sample_ext ''/.//../a'' demo) = Inr (Loc 5 257)"
  using computesD [OF demo_resolve_computes view_sound [OF demo_caches demo_fields(9)]] by blast

theorem resolve_follows_witness:
  "\<exists>r. fst (root sample_ext demo) = Inr r
     \<and> follow sample_ext demo r [''a''] = Some (Loc 5 257)"
  using resolve_follows [OF demo_caches demo_resolves] by (simp add: path_parts_def demo_fields)

section \<open>The caches\<close>


definition demo_warm :: fs where
  "demo_warm = demo\<lparr>fs_nodes := [(block_addr 2, sample_leaf (block_addr 2) demo_tree)]\<rparr>"

lemma demo_warm_ok: "caches_ok sample_ext demo_warm" "core demo_warm = demo"
    "fs_last_extent demo_warm = None"
proof -
  have "node_at sample_ext demo (block_addr 2) = Inr (sample_leaf (block_addr 2) demo_tree)"
    unfolding demo_def
    by (rule sample_leaf_node [OF demo_image_ok _ _ demo_fits(3)]) (simp_all add: demo_blocks_def)
  moreover show c: "core demo_warm = demo"
    by (simp add: demo_warm_def core_def demo_def sample_fs_def)
  then have "node_at sample_ext demo_warm = node_at sample_ext demo"
    by (intro node_at_cong) (simp add: demo_fields)
  ultimately show "caches_ok sample_ext demo_warm"
    by (simp add: caches_ok_def nodes_ok_def roots_ok_def) (simp add: demo_warm_def demo_fields)
  show "fs_last_extent demo_warm = None" by (simp add: demo_warm_def demo_fields)
qed


section \<open>Bounds and the subvolume list\<close>

text \<open>
  C17: Whatever the metadata says, a read into memory that succeeds returns exactly as many
  bytes as the file has, or the limit given if that is less, and a symlink's target at most
  4096 bytes.
\<close>

theorem reads_bounded:
  shows "(read_to_vec x l cap s = (Inr data, t) \<longrightarrow>
       (\<exists>i. fst (inode x l s) = Inr i \<and> length data = unat (min cap (i_size i))))
    \<and> (read_symlink_target x l s = (Inr data, t) \<longrightarrow> length data \<le> 4096)"
proof -
  have vec: "\<exists>i. fst (inode x l s) = Inr i \<and> length data = unat (min cap (i_size i))"
    if "read_to_vec x l cap s = (Inr data, t)" for cap s
    using that read_range_sent [of x l 0 cap s]
    by (auto simp: read_to_vec_def split: prod.splits sum.splits)
  have "length data \<le> 4096" if r: "read_symlink_target x l s = (Inr data, t)"
  proof -
    obtain i :: inode and u where i: "i_size i \<le> 4096" and u: "read_to_vec x l (i_size i) u = (Inr data, t)"
      using r by (auto simp: read_symlink_target_def sbind_Inr_iff not_less split: if_splits)
    from vec [OF u] obtain j :: inode where "length data = unat (min (i_size i) (i_size j))" by blast
    also have "\<dots> \<le> unat (4096 :: u64)"
      using i by (simp only: word_le_nat_alt [symmetric]) (simp add: min.coboundedI1)
    finally show ?thesis by simp
  qed
  with vec show ?thesis by blast
qed

theorem reads_bounded_witness:
  "\<exists>data t. read_to_vec sample_ext (Loc 5 258) 100 demo = (Inr data, t) \<and> length data = 5"
proof -
  obtain data t where "read_to_vec sample_ext (Loc 5 258) 100 demo = (Inr data, t)"
    using demo_reads by blast
  with reads_bounded [of sample_ext "Loc 5 258" 100 demo data t]
    file_inode [OF demo_caches demo_file_at(2)]
  show ?thesis by (auto simp: demo_inode_def)
qed


definition demo_sv :: subvol where
  "demo_sv = \<lparr>sv_id = 256, sv_parent = 5, sv_path = ''/c'', sv_readonly = False,
     sv_snapshot = False, sv_generation = 7\<rparr>"

lemma zero_bytes: "(from_le_bytes (replicate 8 0) :: u64) = 0"
  by code_simp

lemma demo_root_fields:
  "snapshot_flag demo_root_item = Inr False" "u64_at demo_root_item 160 = Inr 7"
  "u64_at demo_root_item 208 = Inr 0"
  "u16_at demo_backref 16 = Inr 1" "bytes demo_backref 18 (Suc 0) = Inr [99]"
  "u64_at demo_backref 0 = Inr 256"
proof -
  have "bytes demo_root_item 263 16 = Inr (replicate 16 0)"
    by (simp add: bytes_Inr_iff demo_root_item_def)
  then show "snapshot_flag demo_root_item = Inr False"
    by (simp add: snapshot_flag_def length_demo_root_item list_ex_iff)
qed (simp_all add: bytes_Inr_iff u64_at_Inr_iff u16_at_Inr_iff demo_root_item_def
    demo_backref_def le64.dec_enc le16.dec_enc zero_bytes)

lemma demo_name: "from_utf8_lossy [99] = ''c''"
  by code_simp

lemma demo_subvols: "fst (subvols sample_ext demo) = Inr [demo_sv]"
proof -
  let ?I = "view sample_ext demo (sound_roots sample_ext demo (\<lambda>_. True))"
  let ?it = "\<lparr>ri_id = 256, ri_generation = 7, ri_readonly = False, ri_snapshot = False\<rparr>"
  note tree = demo_items(2) [folded demo_fields(1)] demo_fields(9)
  have visit: "visit_items (Key FIRST_FREE_OBJECTID 0 0) (Key LAST_FREE_OBJECTID 255 (- 1))
      root_items demo_root_tree ([], []) = Inr (True, [?it], [(256, 5, 256, ''c'')])"
    by (simp add: demo_root_tree_def root_items_def demo_root_fields hm_insert_def demo_name
        FIRST_FREE_OBJECTID_def LAST_FREE_OBJECTID_def)
  have range: "Key FIRST_FREE_OBJECTID 0 0 \<le> Key LAST_FREE_OBJECTID 255 (- 1)"
    by (simp add: FIRST_FREE_OBJECTID_def LAST_FREE_OBJECTID_def)
  have w: "computes ?I (walk sample_ext (sb_root (fs_sb demo)) (Key FIRST_FREE_OBJECTID 0 0)
      (Key LAST_FREE_OBJECTID 255 (- 1)) root_items ([], []))
      (Inr (True, [?it], [(256, 5, 256, ''c'')]))"
    using walk_computes [OF tree(1) range, of _ root_items "([], [])"] visit by simp
  have path: "computes ?I (path_in_tree sample_ext 5 256) (Inr [])"
    unfolding path_in_tree_def
    by (rule computes_bind_Inr [OF tree_is_root_of [OF tree, of _ 5, unfolded demo_root_of]])
      (simp add: climb.simps demo_top_def computes_def)
  have pass: "computes ?I (subvol_pass sample_ext [(256, 5, 256, ''c'')] [?it] [(5, [])] [] [])
      (Inr ([(5, []), (256, ''c'')], [demo_sv], []))"
    by (simp, rule computes_bind_Inr [OF path])
      (simp add: computes_def hm_insert_def demo_sv_def Let_def)
  have passes: "computes ?I (subvol_passes sample_ext [(256, 5, 256, ''c'')] (Suc 0) [?it]
      [(5, [])] []) (Inr [demo_sv])"
    unfolding subvol_passes.simps [of sample_ext _ "Suc 0"]
    by (simp del: subvol_pass.simps, rule computes_bind_Inr [OF pass]) (simp add: computes_def subvol_passes.simps)
  have "sb_root (fs_sb s) = sb_root (fs_sb demo)" if "core s = demo" for s
    using that by (metis core_simps(2))
  then have root: "computes ?I (sget (\<lambda>s. sb_root (fs_sb s))) (Inr (sb_root (fs_sb demo)))"
    by (simp add: computes_def view_def)
  have "computes ?I (subvols sample_ext) (Inr [demo_sv])"
    unfolding subvols_def
    by (rule computes_bind_Inr [OF root], rule computes_bind_Inr [OF w])
      (simp, rule computes_bind_Inr [OF passes], simp add: computes_def)
  from computesD [OF this view_sound [OF demo_caches demo_fields(9)]] show ?thesis by blast
qed


end
