(* ===== verification/Sinks.thy ===== *)
theory Sinks
  imports Fs_Read
begin

text \<open>
  Reading into any sink.  \<open>read_range\<close> treats its sink as a black box, so what holds of every
  call of the sink holds of the read: two sinks that keep a relation are kept in it by a read
  (\<open>read_range_follows\<close>), and what a sink may do to its state bounds what a read may do
  (\<open>read_range_moves\<close>).
\<close>

section \<open>One operation follows another\<close>

text \<open>Whenever the first succeeds, so does the second, with the same value, and the states
  stay related.\<close>

definition follows :: "('s \<Rightarrow> 't \<Rightarrow> bool) \<Rightarrow> ('s, 'a) eff \<Rightarrow> ('t, 'a) eff \<Rightarrow> bool" where
  "follows R m m' \<longleftrightarrow>
     (\<forall>s t y s'. R s t \<longrightarrow> m s = (Inr y, s') \<longrightarrow> (\<exists>t'. m' t = (Inr y, t') \<and> R s' t'))"

lemma followsD: "follows R m m' \<Longrightarrow> R s t \<Longrightarrow> m s = (Inr y, s') \<Longrightarrow> \<exists>t'. m' t = (Inr y, t') \<and> R s' t'"
  by (simp add: follows_def)

lemma follows_ret: "follows R (sret y) (sret y)"
  by (simp add: follows_def)

lemma follows_throw: "follows R (sthrow e) m"
  by (simp add: follows_def)

lemma follows_bind:
  assumes m: "follows R m m'" and f: "\<And>y. follows R (f y) (f' y)"
  shows "follows R (sbind m f) (sbind m' f')"
  unfolding follows_def
proof (intro allI impI)
  fix s t y s' assume R: "R s t" and run: "sbind m f s = (Inr y, s')"
  then obtain z u where z: "m s = (Inr z, u)" "f z u = (Inr y, s')" by (auto simp: sbind_Inr_iff)
  from followsD [OF m R z(1)] obtain v where v: "m' t = (Inr z, v)" "R u v" by blast
  from followsD [OF f v(2) z(2)] v(1) show "\<exists>t'. sbind m' f' t = (Inr y, t') \<and> R s' t'"
    by (auto simp: sbind_Inr_iff)
qed

lemma follows_if:
  "(b \<Longrightarrow> follows R m m') \<Longrightarrow> (\<not> b \<Longrightarrow> follows R n n') \<Longrightarrow>
     follows R (if b then m else n) (if b then m' else n')"
  by simp

text \<open>The file system's part of the two states is the same.\<close>

definition with_same :: "('o \<Rightarrow> 'p \<Rightarrow> bool) \<Rightarrow> 's \<times> 'o \<Rightarrow> 's \<times> 'p \<Rightarrow> bool" where
  "with_same R s t \<longleftrightarrow> fst s = fst t \<and> R (snd s) (snd t)"

lemma follows_on_fst: "follows (with_same R) (on_fst m) (on_fst m)"
  by (auto simp: follows_def with_same_def on_fst_def split: prod.splits)

lemma follows_on_snd: "follows R m m' \<Longrightarrow> follows (with_same R) (on_snd m) (on_snd m')"
  unfolding follows_def with_same_def on_snd_def by (fastforce split: prod.splits)

lemma data_loop_step_induct:
  fixes at to :: u64
  assumes "\<And>at. (at < to \<Longrightarrow> P (at + min (to - at) 0x100000)) \<Longrightarrow> P at"
  shows "P at"
proof (induction "unat to - unat at" arbitrary: at rule: less_induct)
  case less
  show ?case
  proof (rule assms, rule less)
    assume "at < to"
    from min_step [OF this] show "unat to - unat (at + min (to - at) 0x100000) < unat to - unat at"
      by simp
  qed
qed

text \<open>Two sinks, the second of which does what the first does, as far as \<open>R\<close> tells.\<close>

locale matched_sinks =
  fixes R :: "'o \<Rightarrow> 'p \<Rightarrow> bool"
    and p :: "'o sink"
    and q :: "'p sink"
  assumes sinks: "follows R (p piece) (q piece)"
begin

lemma on_snd_sinks: "follows (with_same R) (on_snd (p piece)) (on_snd (q piece))"
  by (rule follows_on_snd) (rule sinks)

lemma data_loop_follows: "follows (with_same R) (data_loop p read at to) (data_loop q read at to)"
proof (induction at rule: data_loop_step_induct [where to = to])
  case (1 at)
  then show ?case
    unfolding data_loop.simps [of p read at to] data_loop.simps [of q read at to] Let_def
      from_source_def
    by (intro follows_if follows_bind follows_on_fst on_snd_sinks follows_ret)
qed

lemma emit_follows: "follows (with_same R) (emit p end' frm to pos dat) (emit q end' frm to pos dat)"
  unfolding emit_def Let_def
  by (cases dat) (simp_all only: option.case, (intro follows_if follows_bind on_snd_sinks
      data_loop_follows follows_ret)+)

lemma emit_extent_follows:
  "follows (with_same R) (emit_extent x p end' e pos) (emit_extent x q end' e pos)"
  by (cases "ex_kind e")
    (auto simp: emit_extent_def Let_def intro!: follows_bind follows_on_fst emit_follows
      follows_throw split: option.splits)

lemma range_loop_follows:
  "follows (with_same R) (range_loop x p end' es pos) (range_loop x q end' es pos)"
proof (induction es arbitrary: pos)
  case Nil
  then show ?case by (simp only: range_loop.simps follows_ret)
next
  case (Cons e es)
  then show ?case
    unfolding range_loop.simps by (intro follows_if follows_bind emit_extent_follows follows_ret)
qed

lemma read_range_follows:
  "follows (with_same R) (read_range x l start end' p) (read_range x l start end' q)"
  unfolding read_range_def Let_def
  by (intro follows_bind follows_on_fst range_loop_follows emit_follows follows_ret)

end

section \<open>What an operation may do\<close>

text \<open>
  A relation between the states before and after, reflexive and transitive, that every step
  keeps to, whether it succeeds or fails: \<open>moves\<close> carries it through sequencing.
\<close>

definition moves :: "('s \<Rightarrow> 's \<Rightarrow> bool) \<Rightarrow> ('s, 'a) eff \<Rightarrow> bool" where
  "moves R m \<longleftrightarrow> (\<forall>s. R s (snd (m s)))"

locale progress =
  fixes R :: "'s \<Rightarrow> 's \<Rightarrow> bool"
  assumes refl: "R s s"
    and trans: "R s t \<Longrightarrow> R t u \<Longrightarrow> R s u"
begin

lemma moves_ret: "moves R (sret y)"
  by (simp add: moves_def refl)

lemma moves_throw: "moves R (sthrow e)"
  by (simp add: moves_def refl)

lemma moves_lift: "moves R (slift r)"
  by (simp add: moves_def refl)

lemma moves_get: "moves R (sget f)"
  by (simp add: moves_def refl)

lemma moves_modify: "(\<And>s. R s (f s)) \<Longrightarrow> moves R (smodify f)"
  by (simp add: moves_def)

lemma moves_bind:
  assumes m: "moves R m" and f: "\<And>y. moves R (f y)"
  shows "moves R (sbind m f)"
  unfolding moves_def
proof
  fix s
  obtain r t where ms: "m s = (r, t)" by (cases "m s")
  with m have "R s t" by (simp add: moves_def) (metis snd_conv)
  moreover have "R t (snd (f y t))" for y using f by (simp add: moves_def)
  ultimately show "R s (snd (sbind m f s))"
    using ms trans by (cases r) (auto simp: sbind_def)
qed

lemma moves_context: "moves R m \<Longrightarrow> moves R (scontext c m)"
  by (simp add: moves_def scontext_def split_beta)

lemma moves_try: "moves R m \<Longrightarrow> moves R (stry m)"
  by (simp add: moves_def stry_def split_beta)

lemma moves_if: "(b \<Longrightarrow> moves R m) \<Longrightarrow> (\<not> b \<Longrightarrow> moves R n) \<Longrightarrow> moves R (if b then m else n)"
  by simp

lemma moves_case_option:
  "moves R m \<Longrightarrow> (\<And>y. moves R (f y)) \<Longrightarrow> moves R (case v of None \<Rightarrow> m | Some y \<Rightarrow> f y)"
  by (cases v) simp_all

lemma moves_case_sum:
  "(\<And>e. moves R (f e)) \<Longrightarrow> (\<And>y. moves R (g y)) \<Longrightarrow> moves R (case v of Inl e \<Rightarrow> f e | Inr y \<Rightarrow> g y)"
  by (cases v) simp_all

lemma moves_case_prod: "(\<And>a b. moves R (f a b)) \<Longrightarrow> moves R (case p of (a, b) \<Rightarrow> f a b)"
  by (simp add: split_beta)

lemma moves_let: "moves R (f a) \<Longrightarrow> moves R (let y = a in f y)"
  by simp

lemmas moves_rules = moves_let moves_case_prod moves_case_option moves_case_sum moves_if
  moves_ret moves_throw moves_lift moves_get moves_bind moves_context moves_try

end

text \<open>A read moves its sink's state only as the sink does, and the file system's not at all
  as far as the sink's is concerned.\<close>

definition sink_moves :: "('o \<Rightarrow> 'o \<Rightarrow> bool) \<Rightarrow> fs \<times> 'o \<Rightarrow> fs \<times> 'o \<Rightarrow> bool" where
  "sink_moves R s t \<longleftrightarrow> R (snd s) (snd t)"

locale sink_progress = progress R
  for R :: "'o \<Rightarrow> 'o \<Rightarrow> bool" +
  fixes p :: "'o sink"
  assumes sink: "moves R (p piece)"
begin

sublocale pair: progress "sink_moves R"
  by unfold_locales (auto simp: sink_moves_def refl intro: trans)

lemma moves_on_fst: "moves (sink_moves R) (on_fst m)"
  by (simp add: moves_def sink_moves_def refl)

lemma moves_on_snd: "moves (sink_moves R) (on_snd (p piece))"
  using sink by (simp add: moves_def sink_moves_def)

lemma data_loop_moves: "moves (sink_moves R) (data_loop p read at to)"
proof (induction at rule: data_loop_step_induct [where to = to])
  case (1 at)
  then show ?case
    unfolding data_loop.simps [of p read at to] Let_def from_source_def
    by (intro pair.moves_if pair.moves_bind moves_on_fst moves_on_snd pair.moves_ret)
qed

lemma emit_moves: "moves (sink_moves R) (emit p end' frm to pos dat)"
  unfolding emit_def
  by (intro pair.moves_rules moves_on_snd data_loop_moves)

lemma emit_extent_moves: "moves (sink_moves R) (emit_extent x p end' e pos)"
  by (cases "ex_kind e")
    (auto simp: emit_extent_def Let_def intro!: pair.moves_rules moves_on_fst emit_moves)

lemma range_loop_moves: "moves (sink_moves R) (range_loop x p end' es pos)"
proof (induction es arbitrary: pos)
  case Nil
  then show ?case by (simp only: range_loop.simps pair.moves_ret)
next
  case (Cons e es)
  then show ?case
    unfolding range_loop.simps by (intro pair.moves_rules emit_extent_moves)
qed

lemma read_range_moves: "moves (sink_moves R) (read_range x l start end' p)"
  unfolding read_range_def Let_def
  by (intro pair.moves_bind moves_on_fst range_loop_moves emit_moves pair.moves_ret)

end

end
