(* ===== verification/Copy.thy ===== *)
theory Copy
  imports Sinks Fs_Lookup
begin

text \<open>
  Copying a tree onto the host (src/copy.rs), on Unix and on Windows (\<open>ext_windows\<close>).  The host is everything the program
  does not control: \<open>world\<close> gives, for the calls made so far and the next one, its outcome, so
  that what is proved holds whatever the host's file system holds and does.  The copier's
  state carries the calls made, oldest first.
\<close>

section \<open>Host paths\<close>

text \<open>
  A \<open>Path\<close> is what its components are: \<open>==\<close>, \<open>parent\<close> and \<open>file_name\<close> see no more.  The
  spelling (repeated slashes) is not kept.  Joining is Unix's; the names the copier joins hold
  neither separator, and on Windows no colon, so that joining them is the same there.
\<close>

datatype (plugins only: code size) path = Path (absolute: bool) (comps: "string list")

definition to_path :: "string \<Rightarrow> path" where
  "to_path s =
     (let ws = filter (\<lambda>w. w \<noteq> []) (split_on (\<lambda>c. c = CHR ''/'') s);
          abs = (take 1 s = ''/'') in
      case ws of
        w # ws' \<Rightarrow>
          Path abs ((if \<not> abs \<or> w \<noteq> ''.'' then [w] else []) @ filter (\<lambda>w. w \<noteq> ''.'') ws')
      | [] \<Rightarrow> Path abs [])"

definition path_join :: "path \<Rightarrow> string \<Rightarrow> path" where
  "path_join p s =
     (let q = to_path s in
      if absolute q \<or> (comps p = [] \<and> \<not> absolute p) then q
      else Path (absolute p) (comps p @ filter (\<lambda>w. w \<noteq> ''.'') (comps q)))"

definition parent :: "path \<Rightarrow> path option" where
  "parent p = (if comps p = [] then None else Some (Path (absolute p) (butlast (comps p))))"

definition file_name :: "path \<Rightarrow> string option" where
  "file_name p =
     (if comps p = [] \<or> last (comps p) \<in> {''.'', ''..''} then None else Some (last (comps p)))"

definition with_file_name :: "path \<Rightarrow> string \<Rightarrow> path" where
  "with_file_name p n =
     path_join (if file_name p = None then p else Path (absolute p) (butlast (comps p))) n"

definition display :: "path \<Rightarrow> string" where
  "display p = (if absolute p then ''/'' else []) @ join_with ''/'' (comps p)"

section \<open>Names\<close>

definition windows_illegal :: "char \<Rightarrow> bool" where
  "windows_illegal c \<longleftrightarrow> c \<in> set ''<>:\"|?*''"

definition sanitize :: "bool \<Rightarrow> char \<Rightarrow> char" where
  "sanitize windows c =
     (if c = CHR ''/'' \<or> c = CHR 0x5C \<or> (of_char c :: nat) < 32 \<or> windows \<and> windows_illegal c
      then CHR ''_'' else c)"

definition reserved :: "string \<Rightarrow> bool" where
  "reserved out \<longleftrightarrow>
     (let stem = map ascii_upper (hd (split_on (\<lambda>c. c = CHR ''.'') out)) in
      stem \<in> {''CON'', ''PRN'', ''AUX'', ''NUL'', ''CONIN$'', ''CONOUT$''}
      \<or> length stem = 4 \<and> (take 3 stem = ''COM'' \<or> take 3 stem = ''LPT'') \<and> is_digit (stem ! 3))"

definition host_name :: "bool \<Rightarrow> string \<Rightarrow> string" where
  "host_name windows name =
     (let out = map (sanitize windows) name;
          out = (if out = [] \<or> list_all (\<lambda>c. c = CHR ''.'') out then CHR ''_'' # out else out) in
      if windows then
        (let out = (if last out \<in> {CHR ''.'', CHR '' ''} then out @ ''_'' else out) in
         if reserved out then CHR ''_'' # out else out)
      else out)"

text \<open>
  The loop that looks for a name not yet taken: \<open>base~1\<close>, \<open>base~2\<close>, and so on.  It ends
  because only finitely many are taken.
\<close>

definition numbered :: "string \<Rightarrow> nat \<Rightarrow> string" where
  "numbered base n = base @ ''~'' @ dec_string n"

lemma numbered_inject [simp]: "numbered base m = numbered base n \<longleftrightarrow> m = n"
  by (simp add: numbered_def)

text \<open>
  \<open>fold\<close>: Windows takes names that differ in case for one.  \<open>to_lowercase\<close> needs Unicode's tables and
  is a parameter.
\<close>

definition fold_name :: "ext \<Rightarrow> string \<Rightarrow> string" where
  "fold_name x s = (if ext_windows x then ext_lowercase x s else s)"

text \<open>
  The taken names are kept folded.  One more than there are of them is fuel enough
  (\<open>fresh_name_new\<close>), as long as folding keeps \<open>base~1\<close>, \<open>base~2\<close> and so on apart.
\<close>

fun next_free :: "ext \<Rightarrow> nat \<Rightarrow> string list \<Rightarrow> string \<Rightarrow> nat \<Rightarrow> string" where
  "next_free x 0 taken base n = numbered base n"
| "next_free x (Suc fuel) taken base n =
     (if fold_name x (numbered base n) \<in> set taken then next_free x fuel taken base (n + 1)
      else numbered base n)"

definition fresh_name :: "ext \<Rightarrow> string list \<Rightarrow> string \<Rightarrow> string" where
  "fresh_name x taken host =
     (if fold_name x host \<in> set taken then next_free x (length taken) taken host 1 else host)"

section \<open>The host\<close>

record manifest_line =
  ml_path :: string
  ml_dest :: path
  ml_ty :: string
  ml_mode :: string
  ml_uid :: u32
  ml_gid :: u32
  ml_size :: u64
  ml_mtime :: int
  ml_target :: "string option"

datatype (plugins only: code size) host_op =
    SymlinkMetadata path
  | IsDir path
  | CreateDirAll path
  | RemoveFile path
  | CreateFile path
  | WriteAll path bytes
  | SeekBy path u64
  | SetLen path u64
  | SetPermissions path u32
  | SyncAll path
  | Rename path path
  | Symlink string path
  | SymlinkDir string path      \<comment> \<open>Windows makes two kinds\<close>
  | SymlinkFile string path
  | SetMtime path int u32
  | WriteManifest manifest_line
  | WriteNewline

text \<open>
  The outcome of a call: an error, or for \<open>SymlinkMetadata\<close> whether it is a symlink and for
  \<open>IsDir\<close> whether it is a directory.
\<close>

type_synonym world = "host_op list \<Rightarrow> host_op \<Rightarrow> io_error + bool"

definition call :: "world \<Rightarrow> host_op \<Rightarrow> (host_op list, bool) eff" where
  "call w op =
     (\<lambda>ops. (case w ops op of Inl e \<Rightarrow> Inl (Io e) | Inr b \<Rightarrow> Inr b, ops @ [op]))"

section \<open>The copier\<close>

datatype (plugins only: code size) warning =
    WrittenAs string string            \<comment> \<open>the name cannot be represented\<close>
  | RefusedOutside string path
  | EntryFailed string err
  | SymlinkNotCreated string string err
  | Skipped string string

record options =
  o_exclude :: "string \<Rightarrow> bool"   \<comment> \<open>\<open>GlobSet::is_match\<close>\<close>
  o_force :: bool
  o_one_subvolume :: bool
  o_no_snapshots :: bool
  o_manifest :: bool

record report =
  r_files :: u64
  r_dirs :: u64
  r_symlinks :: u64
  r_bytes :: u64
  r_excluded :: u64
  r_failures :: u64
  r_warnings :: "warning list"

record copier =
  cp_fs :: fs
  cp_ops :: "host_op list"
  cp_report :: report
  cp_ancestors :: "loc list"

definition new_copier :: "fs \<Rightarrow> copier" where
  "new_copier s =
     \<lparr>cp_fs = s, cp_ops = [],
      cp_report = \<lparr>r_files = 0, r_dirs = 0, r_symlinks = 0, r_bytes = 0, r_excluded = 0,
        r_failures = 0, r_warnings = []\<rparr>,
      cp_ancestors = []\<rparr>"

definition MAX_DEPTH :: nat where [simp]: "MAX_DEPTH = 256"

definition with_fs :: "(fs, 'a) eff \<Rightarrow> (copier, 'a) eff" where
  "with_fs m = (\<lambda>c. case m (cp_fs c) of (r, s) \<Rightarrow> (r, c\<lparr>cp_fs := s\<rparr>))"

definition host :: "world \<Rightarrow> host_op \<Rightarrow> (copier, bool) eff" where
  "host w op = (\<lambda>c. case call w op (cp_ops c) of (r, ops) \<Rightarrow> (r, c\<lparr>cp_ops := ops\<rparr>))"

definition tell :: "(report \<Rightarrow> report) \<Rightarrow> (copier, unit) eff" where
  "tell f = smodify (\<lambda>c. c\<lparr>cp_report := f (cp_report c)\<rparr>)"

definition warn :: "warning \<Rightarrow> (copier, unit) eff" where
  "warn v = tell (\<lambda>r. r\<lparr>r_warnings := r_warnings r @ [v]\<rparr>)"

definition count_excluded :: "(copier, unit) eff" where
  "count_excluded = tell (\<lambda>r. r\<lparr>r_excluded := r_excluded r + 1\<rparr>)"

definition count_failure :: "(copier, unit) eff" where
  "count_failure = tell (\<lambda>r. r\<lparr>r_failures := r_failures r + 1\<rparr>)"

text \<open>\<open>format!("{:o}", n)\<close>\<close>

fun oct_string :: "nat \<Rightarrow> string" where
  "oct_string n =
     (if n < 8 then [digit_char n] else oct_string (n div 8) @ [digit_char (n mod 8)])"

declare oct_string.simps [simp del]

definition manifest ::
  "ext \<Rightarrow> world \<Rightarrow> options \<Rightarrow> loc \<Rightarrow> string \<Rightarrow> path \<Rightarrow> string option \<Rightarrow> (copier, unit) eff" where
  "manifest x w opts l src dest target =
     (if \<not> o_manifest opts then sret ()
      else
        sbind (with_fs (inode x l)) (\<lambda>i.
        sbind
          (host w (WriteManifest
             \<lparr>ml_path = src, ml_dest = dest, ml_ty = type_name i,
              ml_mode = oct_string (unat (i_mode i AND 0xFFF)), ml_uid = i_uid i,
              ml_gid = i_gid i, ml_size = i_size i, ml_mtime = i_mtime_sec i,
              ml_target = target\<rparr>)) (\<lambda>_.
        sbind (host w WriteNewline) (\<lambda>_. sret ()))))"

definition set_mtime :: "ext \<Rightarrow> world \<Rightarrow> loc \<Rightarrow> path \<Rightarrow> (copier, unit) eff" where
  "set_mtime x w l dest =
     sbind (stry (with_fs (inode x l))) (\<lambda>r.
     case r of
       Inl _ \<Rightarrow> sret ()
     | Inr i \<Rightarrow>
         sbind (stry (host w (SetMtime dest (i_mtime_sec i) (i_mtime_nsec i)))) (\<lambda>_. sret ()))"

section \<open>Files\<close>

text \<open>A hole is skipped by seeking, in steps that fit a signed offset.\<close>

function seek_loop :: "world \<Rightarrow> path \<Rightarrow> u64 \<Rightarrow> (host_op list, unit) eff" where
  "seek_loop w tmp left =
     (if 0 < left then
        (let step = min left 0x7FFFFFFFFFFFFFFF in
         sbind (call w (SeekBy tmp step)) (\<lambda>_. seek_loop w tmp (left - step)))
      else sret ())"
  by pat_completeness auto

lemma seek_step:
  fixes left :: u64
  assumes "0 < left"
  defines "step \<equiv> min left 0x7FFFFFFFFFFFFFFF"
  shows "unat (left - step) = unat left - unat step" and "0 < unat step" and "unat step \<le> unat left"
proof -
  have le: "step \<le> left" by (simp add: step_def)
  then show "unat (left - step) = unat left - unat step" and "unat step \<le> unat left"
    by (simp_all add: unat_minus_le word_le_nat_alt)
  show "0 < unat step"
    using assms(1) by (auto simp: step_def min_def unat_gt_0 word_gt_0)
qed

termination seek_loop
proof (relation "measure (\<lambda>(w, tmp, left). unat left)")
  fix w :: world and tmp :: path and left step :: u64 and b :: bool
  assume "0 < left" and "step = min left 0x7FFFFFFFFFFFFFFF"
  with seek_step [of left] show "((w, tmp, left - step), w, tmp, left)
      \<in> measure (\<lambda>(w, tmp, left). unat left)"
    by simp
qed simp

declare seek_loop.simps [simp del]

definition file_sink :: "world \<Rightarrow> path \<Rightarrow> host_op list sink" where
  "file_sink w tmp piece =
     (case piece of
        Data d \<Rightarrow> sbind (call w (WriteAll tmp d)) (\<lambda>_. sret ())
      | Zeros n \<Rightarrow> seek_loop w tmp n)"

definition read_into :: "ext \<Rightarrow> world \<Rightarrow> loc \<Rightarrow> path \<Rightarrow> (copier, unit) eff" where
  "read_into x w l tmp =
     (\<lambda>c. case read_range x l 0 (- 1) (file_sink w tmp) (cp_fs c, cp_ops c) of
        (r, (s, ops)) \<Rightarrow> (r, c\<lparr>cp_fs := s, cp_ops := ops\<rparr>))"

definition write_file :: "ext \<Rightarrow> world \<Rightarrow> loc \<Rightarrow> inode \<Rightarrow> path \<Rightarrow> (copier, unit) eff" where
  "write_file x w l i tmp =
     sbind (scontext (''creating '' @ display tmp) (host w (CreateFile tmp))) (\<lambda>_.
     sbind (read_into x w l tmp) (\<lambda>_.
     sbind (host w (SetLen tmp (i_size i))) (\<lambda>_.
     sbind
       (if ext_windows x then sret True else host w (SetPermissions tmp (i_mode i AND 0xFFF))) (\<lambda>_.
     sbind (scontext (''flushing '' @ display tmp) (host w (SyncAll tmp))) (\<lambda>_. sret ())))))"

definition partial_name :: "path \<Rightarrow> path" where
  "partial_name dest =
     with_file_name dest
       ((case file_name dest of None \<Rightarrow> [] | Some n \<Rightarrow> from_utf8_lossy (as_bytes n))
        @ ''.btrfs-peek-partial'')"

definition clear_dest :: "world \<Rightarrow> options \<Rightarrow> path \<Rightarrow> (copier, unit) eff" where
  "clear_dest w opts dest =
     sbind (stry (host w (SymlinkMetadata dest))) (\<lambda>m.
     if is_ok m then
       if \<not> o_force opts then sthrow (App (DestExists (display dest)))
       else
         sbind (scontext (''replacing '' @ display dest) (host w (RemoveFile dest)))
           (\<lambda>_. sret ())
     else sret ())"

text \<open>\<open>rsplit_once('/')\<close>: what is before the last slash.\<close>

definition before_last_slash :: "string \<Rightarrow> string option" where
  "before_last_slash s =
     (let ws = split_on (\<lambda>c. c = CHR ''/'') s in
      if length ws \<le> 1 then None else Some (join_with ''/'' (butlast ws)))"

text \<open>
  Windows wants to know whether a link's target is a directory, which is looked up in the
  image, and its separator.
\<close>

definition link_target :: "string \<Rightarrow> string \<Rightarrow> string" where
  "link_target src target =
     (if take 1 target = ''/'' then target
      else (case before_last_slash src of None \<Rightarrow> ''/'' | Some d \<Rightarrow> d) @ ''/'' @ target)"

definition leads_to_dir :: "ext \<Rightarrow> string \<Rightarrow> (copier, bool) eff" where
  "leads_to_dir x path =
     sbind (stry (with_fs (resolve x path))) (\<lambda>r.
     case r of
       Inl _ \<Rightarrow> sret False
     | Inr l \<Rightarrow>
         sbind (stry (with_fs (inode x l))) (\<lambda>r.
         sret (case r of Inl _ \<Rightarrow> False | Inr i \<Rightarrow> is_dir i)))"

definition symlink :: "ext \<Rightarrow> world \<Rightarrow> string \<Rightarrow> path \<Rightarrow> string \<Rightarrow> (copier, bool) eff" where
  "symlink x w target dest src =
     (if \<not> ext_windows x then host w (Symlink target dest)
      else
        sbind (leads_to_dir x (link_target src target)) (\<lambda>is_dir.
        let win_target = map (\<lambda>c. if c = CHR ''/'' then CHR 0x5C else c) target in
        host w ((if is_dir then SymlinkDir else SymlinkFile) win_target dest)))"

definition copy_symlink ::
  "ext \<Rightarrow> world \<Rightarrow> options \<Rightarrow> loc \<Rightarrow> string \<Rightarrow> path \<Rightarrow> (copier, unit) eff" where
  "copy_symlink x w opts l src dest =
     sbind (with_fs (read_symlink_target x l)) (\<lambda>t.
     let target = from_utf8_lossy t in
     sbind (manifest x w opts l src dest (Some target)) (\<lambda>_.
     sbind (stry (symlink x w target dest src)) (\<lambda>r.
     case r of
       Inl e \<Rightarrow> warn (SymlinkNotCreated src target e)
     | Inr _ \<Rightarrow> tell (\<lambda>r. r\<lparr>r_symlinks := r_symlinks r + 1\<rparr>))))"

definition copy_file ::
  "ext \<Rightarrow> world \<Rightarrow> options \<Rightarrow> loc \<Rightarrow> inode \<Rightarrow> string \<Rightarrow> path \<Rightarrow> (copier, unit) eff" where
  "copy_file x w opts l i src dest =
     (let tmp = partial_name dest in
      sbind (stry (write_file x w l i tmp)) (\<lambda>r.
      case r of
        Inl e \<Rightarrow> sbind (stry (host w (RemoveFile tmp))) (\<lambda>_. sthrow e)
      | Inr _ \<Rightarrow>
          sbind
            (scontext (''moving the finished file into '' @ display dest)
              (host w (Rename tmp dest))) (\<lambda>_.
          sbind (set_mtime x w l dest) (\<lambda>_.
          sbind (tell (\<lambda>r. r\<lparr>r_files := r_files r + 1, r_bytes := r_bytes r + i_size i\<rparr>)) (\<lambda>_.
          manifest x w opts l src dest None)))))"

definition copy_leaf ::
  "ext \<Rightarrow> world \<Rightarrow> options \<Rightarrow> loc \<Rightarrow> string \<Rightarrow> path \<Rightarrow> (copier, unit) eff" where
  "copy_leaf x w opts l src dest =
     sbind (with_fs (inode x l)) (\<lambda>i.
     sbind (clear_dest w opts dest) (\<lambda>_.
     if is_symlink i then copy_symlink x w opts l src dest
     else if \<not> is_file i then warn (Skipped src (type_name i))
     else copy_file x w opts l i src dest))"

section \<open>Directories\<close>

type_synonym descent = "loc \<Rightarrow> string \<Rightarrow> string \<Rightarrow> path \<Rightarrow> (copier, unit) eff"

definition skipped :: "ext \<Rightarrow> options \<Rightarrow> entry \<Rightarrow> loc \<Rightarrow> (copier, bool) eff" where
  "skipped x opts e dir =
     (if e_subvol e \<and> \<not> is_placeholder (e_loc e) then
        if o_one_subvolume opts \<and> loc_tree (e_loc e) \<noteq> loc_tree dir then sret True
        else if o_no_snapshots opts then with_fs (is_snapshot x (loc_tree (e_loc e)))
        else sret False
      else sret False)"

definition copy_entry ::
  "ext \<Rightarrow> world \<Rightarrow> options \<Rightarrow> descent \<Rightarrow> entry \<Rightarrow> loc \<Rightarrow> string \<Rightarrow> string \<Rightarrow> path
     \<Rightarrow> (copier, unit) eff" where
  "copy_entry x w opts down e dir src rel dest =
     sbind (skipped x opts e dir) (\<lambda>skip.
     if skip then count_excluded
     else
       sbind (with_fs (inode x (e_loc e))) (\<lambda>i.
       if is_dir i then down (e_loc e) src rel dest
       else copy_leaf x w opts (e_loc e) src dest))"

fun entries_loop ::
  "ext \<Rightarrow> world \<Rightarrow> options \<Rightarrow> descent \<Rightarrow> loc \<Rightarrow> string \<Rightarrow> string \<Rightarrow> path \<Rightarrow> entry list \<Rightarrow> string list
     \<Rightarrow> (copier, unit) eff" where
  "entries_loop x w opts down dir src rel dest [] taken = sret ()"
| "entries_loop x w opts down dir src rel dest (e # es) taken =
     (let name = name_lossy e;
          child_rel = (if rel = [] then name else rel @ ''/'' @ name);
          child_src = src @ ''/'' @ name in
      if o_exclude opts child_rel \<or> o_exclude opts name then
        sbind count_excluded (\<lambda>_. entries_loop x w opts down dir src rel dest es taken)
      else
        (let host0 = host_name (ext_windows x) name;
             clash = (as_bytes host0 \<noteq> e_name e \<or> fold_name x host0 \<in> set taken);
             host = (if clash then fresh_name x taken host0 else host0);
             child_dest = path_join dest host in
         sbind (if clash then warn (WrittenAs child_src host) else sret ()) (\<lambda>_.
         sbind
           (if parent child_dest \<noteq> Some dest then
              sbind count_failure (\<lambda>_. warn (RefusedOutside child_src dest))
            else
              sbind (stry (copy_entry x w opts down e dir child_src child_rel child_dest)) (\<lambda>r.
              case r of
                Inl err \<Rightarrow> sbind count_failure (\<lambda>_. warn (EntryFailed child_src err))
              | Inr _ \<Rightarrow> sret ())) (\<lambda>_.
         entries_loop x w opts down dir src rel dest es (fold_name x host # taken)))))"

definition copy_dir_inner ::
  "ext \<Rightarrow> world \<Rightarrow> options \<Rightarrow> descent \<Rightarrow> loc \<Rightarrow> string \<Rightarrow> string \<Rightarrow> path \<Rightarrow> (copier, unit) eff" where
  "copy_dir_inner x w opts down dir src rel dest =
     sbind (stry (host w (SymlinkMetadata dest))) (\<lambda>m.
     if m = Inr True then sthrow (App (DestIsSymlink (display dest)))
     else
       sbind (scontext (''creating '' @ display dest) (host w (CreateDirAll dest))) (\<lambda>_.
       sbind (tell (\<lambda>r. r\<lparr>r_dirs := r_dirs r + 1\<rparr>)) (\<lambda>_.
       sbind (manifest x w opts dir src dest None) (\<lambda>_.
       sbind (with_fs (readdir x dir)) (\<lambda>es.
       sbind (entries_loop x w opts down dir src rel dest es []) (\<lambda>_.
       set_mtime x w dir dest))))))"

text \<open>The directories being descended into; one that is entered again is a loop.\<close>

definition within :: "loc \<Rightarrow> (copier, unit) eff \<Rightarrow> (copier, unit) eff" where
  "within dir m =
     (\<lambda>c. if dir \<in> set (cp_ancestors c) then (Inl (App (DirectoryLoop [])), c)
          else
            (case m (c\<lparr>cp_ancestors := dir # cp_ancestors c\<rparr>) of
               (r, t) \<Rightarrow> (r, t\<lparr>cp_ancestors := removeAll dir (cp_ancestors t)\<rparr>)))"

function copy_dir ::
  "ext \<Rightarrow> world \<Rightarrow> options \<Rightarrow> nat \<Rightarrow> loc \<Rightarrow> string \<Rightarrow> string \<Rightarrow> path \<Rightarrow> (copier, unit) eff" where
  "copy_dir x w opts depth dir src rel dest =
     (if MAX_DEPTH < depth then sthrow (App (NestingTooDeep MAX_DEPTH))
      else
        within dir
          (copy_dir_inner x w opts (\<lambda>l s r d. copy_dir x w opts (depth + 1) l s r d)
             dir src rel dest))"
  by pat_completeness auto
termination
  by (relation "measure (\<lambda>(x, w, opts, depth, dir, src, rel, dest). 257 - depth)") auto

declare copy_dir.simps [simp del]

definition copy :: "ext \<Rightarrow> world \<Rightarrow> options \<Rightarrow> loc \<Rightarrow> string \<Rightarrow> path \<Rightarrow> (copier, unit) eff" where
  "copy x w opts l src dest =
     sbind (with_fs (inode x l)) (\<lambda>i.
     if is_dir i then copy_dir x w opts 0 l (trim_end_matches (CHR ''/'') src) [] dest
     else
       sbind (stry (host w (IsDir dest))) (\<lambda>m.
       let dest' =
         (if m = Inr True
          then path_join dest (host_name (ext_windows x) (last (split_on (\<lambda>c. c = CHR ''/'') src)))
          else dest) in
       copy_leaf x w opts l src dest'))"

end
