(* ===== verification/Copy_Facts.thy ===== *)
theory Copy_Facts
  imports Copy Fs_Format
begin

text \<open>
  What a copy may do to the host, whatever the image and whatever the host: names are made
  safe, every path touched is below the destination, files are only written inside their
  partial names, and the report counts what happened.
\<close>

section \<open>Safe names\<close>

definition safe_name :: "string \<Rightarrow> bool" where
  "safe_name n \<longleftrightarrow>
     n \<noteq> [] \<and> CHR ''/'' \<notin> set n \<and> CHR 0x5C \<notin> set n \<and> n \<noteq> ''.'' \<and> n \<noteq> ''..''"

lemma safe_nameI:
  "c \<in> set n \<Longrightarrow> c \<noteq> CHR ''.'' \<Longrightarrow> CHR ''/'' \<notin> set n \<Longrightarrow> CHR 0x5C \<notin> set n \<Longrightarrow> safe_name n"
  by (auto simp: safe_name_def)

lemma sanitize_safe: "CHR ''/'' \<noteq> sanitize windows c" "CHR 0x5C \<noteq> sanitize windows c"
  by (auto simp: sanitize_def)

lemma host_name_safe: "safe_name (host_name windows name)"
proof -
  define a where "a = map (sanitize windows) name"
  define b where "b = (if a = [] \<or> list_all (\<lambda>c. c = CHR ''.'') a then CHR ''_'' # a else a)"
  define d where "d = (if last b \<in> {CHR ''.'', CHR '' ''} then b @ ''_'' else b)"
  have h: "host_name windows name = (if windows then if reserved d then CHR ''_'' # d else d else b)"
    by (simp only: host_name_def a_def b_def d_def Let_def)
  have "CHR ''/'' \<notin> set b" "CHR 0x5C \<notin> set b"
    by (auto simp: b_def a_def sanitize_safe)
  moreover have "\<exists>c \<in> set b. c \<noteq> CHR ''.''"
    by (auto simp: b_def list_all_iff)
  ultimately show ?thesis
    unfolding h by (auto simp: d_def intro: safe_nameI)
qed

lemma numbered_safe: "safe_name n \<Longrightarrow> safe_name (numbered n k)"
proof -
  assume n: "safe_name n"
  have "c \<noteq> CHR ''/'' \<and> c \<noteq> CHR 0x5C" if "c \<in> set (dec_string k)" for c
  proof -
    have "is_digit c" using dec_string_digits that by (auto simp: list_all_iff)
    then show ?thesis by (auto simp: is_digit_def)
  qed
  with n show ?thesis
    by (intro safe_nameI [of "CHR ''~''"]) (auto simp: numbered_def safe_name_def)
qed

lemma next_free_is:
  "\<exists>k \<le> fuel. next_free x fuel taken base n = numbered base (n + k)
     \<and> (\<forall>j < k. fold_name x (numbered base (n + j)) \<in> set taken)
     \<and> (k < fuel \<longrightarrow> fold_name x (numbered base (n + k)) \<notin> set taken)"
proof (induction x fuel taken base n rule: next_free.induct)
  case (2 x fuel taken base n)
  show ?case
  proof (cases "fold_name x (numbered base n) \<in> set taken")
    case True
    from "2.IH" [OF True] obtain k where "k \<le> fuel"
      "next_free x fuel taken base (n + 1) = numbered base (n + 1 + k)"
      "\<forall>j < k. fold_name x (numbered base (n + 1 + j)) \<in> set taken"
      "k < fuel \<longrightarrow> fold_name x (numbered base (n + 1 + k)) \<notin> set taken" by blast
    with True show ?thesis by (intro exI [of _ "Suc k"]) (auto simp: less_Suc_eq_0_disj)
  next
    case False
    then show ?thesis by (intro exI [of _ 0]) simp
  qed
qed simp

lemma fresh_name_is: "fresh_name x taken n = n \<or> (\<exists>k. fresh_name x taken n = numbered n k)"
  using next_free_is [of "length taken" x taken n 1] by (auto simp: fresh_name_def)

lemma fresh_name_safe: "safe_name n \<Longrightarrow> safe_name (fresh_name x taken n)"
  using fresh_name_is [of x taken n] by (auto simp: numbered_safe)

text \<open>
  What is relied on of \<open>to_lowercase\<close>: it does not confuse the names that differ in the number
  only (as it leaves digits alone).
\<close>

definition keeps_numbers :: "ext \<Rightarrow> bool" where
  "keeps_numbers x \<longleftrightarrow>
     (\<forall>base m n. fold_name x (numbered base m) = fold_name x (numbered base n) \<longrightarrow> m = n)"

lemma next_free_new:
  assumes "keeps_numbers x"
  shows "fold_name x (next_free x (length taken) taken base n) \<notin> set taken"
proof
  let ?f = "\<lambda>j. fold_name x (numbered base (n + j))"
  assume t: "fold_name x (next_free x (length taken) taken base n) \<in> set taken"
  obtain k where k: "k \<le> length taken" "next_free x (length taken) taken base n = numbered base (n + k)"
      "\<forall>j < k. ?f j \<in> set taken" "k < length taken \<longrightarrow> ?f k \<notin> set taken"
    using next_free_is [of "length taken" x taken base n] by blast
  with t have "k = length taken" by auto
  with k t have "?f ` {..length taken} \<subseteq> set taken" by (auto simp: le_less)
  moreover have "inj_on ?f {..length taken}"
    using assms unfolding inj_on_def keeps_numbers_def by (metis add_left_cancel)
  ultimately have "card {..length taken} \<le> card (set taken)"
    by (metis card_image card_mono List.finite_set)
  with card_length [of taken] show False by simp
qed

lemma fresh_name_new: "keeps_numbers x \<Longrightarrow> fold_name x (fresh_name x taken n) \<notin> set taken"
  by (simp add: fresh_name_def next_free_new)

text \<open>The replacement characters aside, lossy decoding adds nothing.\<close>

lemma set_utf8_lossy: "set (utf8_lossy b) \<subseteq> set b \<union> {0xEF, 0xBF, 0xBD}"
proof (induction b rule: utf8_lossy.induct)
  case (2 b r)
  obtain ok n where step: "utf8_step b r = (ok, n)" by (cases "utf8_step b r")
  have "set (take n r) \<subseteq> set r" "set (drop n r) \<subseteq> set r"
    by (rule set_take_subset, rule set_drop_subset)
  with 2 [OF step [symmetric] refl] step show ?case by (simp, blast)
qed simp

lemma from_utf8_lossy_clean:
  assumes "c \<notin> set n" and "(of_char c :: u8) < 0x80"
  shows "c \<notin> set (from_utf8_lossy (as_bytes n))"
proof
  assume "c \<in> set (from_utf8_lossy (as_bytes n))"
  then obtain b where b: "b \<in> set (utf8_lossy (as_bytes n))" and c: "c = char_of (unat b)"
    by (auto simp: from_utf8_lossy_def of_bytes_def)
  have "of_char c = b" using as_bytes_of_bytes [of "[b]"] by (simp add: as_bytes_def of_bytes_def c)
  with assms(2) have "b \<notin> {0xEF, 0xBF, 0xBD}" by auto
  with b set_utf8_lossy [of "as_bytes n"] have "b \<in> of_char ` set n"
    by (auto simp: as_bytes_def)
  then obtain d where d: "d \<in> set n" "b = of_char d" by blast
  then have "c = d" by (simp add: c unat_of_char)
  with d assms(1) show False by simp
qed

section \<open>Paths below the destination\<close>

lemma to_path_safe: "safe_name n \<Longrightarrow> to_path n = Path False [n]"
proof -
  assume n: "safe_name n"
  then have "split_on (\<lambda>c. c = CHR ''/'') n = [n]" by (intro split_on_clean) (auto simp: safe_name_def)
  moreover have "take 1 n \<noteq> ''/''" using n by (cases n) (auto simp: safe_name_def)
  ultimately show ?thesis using n by (simp add: to_path_def Let_def safe_name_def)
qed

lemma path_join_safe: "safe_name n \<Longrightarrow> path_join d n = Path (absolute d) (comps d @ [n])"
  using to_path_safe [of n] by (simp add: path_join_def safe_name_def Let_def)

lemma parent_join: "safe_name n \<Longrightarrow> parent (path_join d n) = Some d"
  by (simp add: path_join_safe parent_def)

definition partial_suffix :: string where
  "partial_suffix = ''.btrfs-peek-partial''"

lemma partial_join:
  assumes "safe_name n"
  shows "partial_name (path_join d n) = path_join d (from_utf8_lossy (as_bytes n) @ partial_suffix)"
    and "safe_name (from_utf8_lossy (as_bytes n) @ partial_suffix)"
proof -
  let ?m = "from_utf8_lossy (as_bytes n)"
  have "CHR ''/'' \<notin> set ?m" "CHR 0x5C \<notin> set ?m"
    using assms from_utf8_lossy_clean [of _ n] by (simp_all add: safe_name_def)
  then show "safe_name (?m @ partial_suffix)"
    by (intro safe_nameI [of "CHR ''b''"]) (auto simp: partial_suffix_def)
  have "file_name (path_join d n) = Some n"
    using assms by (simp add: path_join_safe file_name_def safe_name_def)
  then show "partial_name (path_join d n) = path_join d (?m @ partial_suffix)"
    using assms by (simp add: partial_name_def with_file_name_def path_join_safe
        partial_suffix_def [symmetric])
qed

definition inside :: "path \<Rightarrow> path \<Rightarrow> bool" where
  "inside dest p \<longleftrightarrow>
     absolute p = absolute dest \<and>
     (\<exists>rest. comps p = comps dest @ rest \<and> list_all safe_name rest)"

lemma inside_refl: "inside d d"
  by (simp add: inside_def)

lemma inside_trans: "inside d e \<Longrightarrow> inside e p \<Longrightarrow> inside d p"
  unfolding inside_def by (metis append.assoc list_all_append)

lemma inside_join: "safe_name n \<Longrightarrow> inside d (path_join d n)"
  by (simp add: inside_def path_join_safe)

section \<open>What a copy does to the host\<close>

fun op_paths :: "host_op \<Rightarrow> path list" where
  "op_paths (SymlinkMetadata p) = [p]"
| "op_paths (IsDir p) = [p]"
| "op_paths (CreateDirAll p) = [p]"
| "op_paths (RemoveFile p) = [p]"
| "op_paths (CreateFile p) = [p]"
| "op_paths (WriteAll p d) = [p]"
| "op_paths (SeekBy p n) = [p]"
| "op_paths (SetLen p n) = [p]"
| "op_paths (SetPermissions p n) = [p]"
| "op_paths (SyncAll p) = [p]"
| "op_paths (Rename p q) = [p, q]"
| "op_paths (Symlink t p) = [p]"
| "op_paths (SymlinkDir t p) = [p]"
| "op_paths (SymlinkFile t p) = [p]"
| "op_paths (SetMtime p a b) = [p]"
| "op_paths (WriteManifest l) = []"
| "op_paths WriteNewline = []"

text \<open>The file whose contents a call changes.\<close>

fun op_writes :: "host_op \<Rightarrow> path option" where
  "op_writes (CreateFile p) = Some p"
| "op_writes (WriteAll p d) = Some p"
| "op_writes (SeekBy p n) = Some p"
| "op_writes (SetLen p n) = Some p"
| "op_writes (SetPermissions p n) = Some p"
| "op_writes _ = None"

definition is_partial :: "path \<Rightarrow> bool" where
  "is_partial p \<longleftrightarrow> (\<exists>n. comps p \<noteq> [] \<and> last (comps p) = n @ partial_suffix)"

definition stays :: "path \<Rightarrow> host_op \<Rightarrow> bool" where
  "stays dest op \<longleftrightarrow>
     list_all (inside dest) (op_paths op)
     \<and> (case op_writes op of None \<Rightarrow> True | Some p \<Rightarrow> is_partial p)"

definition ops_extend :: "(host_op \<Rightarrow> bool) \<Rightarrow> host_op list \<Rightarrow> host_op list \<Rightarrow> bool" where
  "ops_extend P ops ops' \<longleftrightarrow> (\<exists>new. ops' = ops @ new \<and> list_all P new)"

text \<open>
  What a step of the copier may do: make calls with \<open>P\<close>, add to the report warnings and
  exactly the failures they stand for, and leave the directories being descended into as they
  were.
\<close>

fun is_failure :: "warning \<Rightarrow> bool" where
  "is_failure (EntryFailed s e) = True"
| "is_failure (RefusedOutside s p) = True"
| "is_failure _ = False"

definition only_inside :: "warning \<Rightarrow> bool" where
  "only_inside v \<longleftrightarrow> (\<forall>s p. v \<noteq> RefusedOutside s p)"

definition reports :: "report \<Rightarrow> report \<Rightarrow> bool" where
  "reports r r' \<longleftrightarrow>
     (\<exists>ws. r_warnings r' = r_warnings r @ ws \<and> list_all only_inside ws
        \<and> r_failures r' = r_failures r + word_of_nat (length (filter is_failure ws)))"

definition proceeds :: "(host_op \<Rightarrow> bool) \<Rightarrow> copier \<Rightarrow> copier \<Rightarrow> bool" where
  "proceeds P c c' \<longleftrightarrow>
     ops_extend P (cp_ops c) (cp_ops c') \<and> reports (cp_report c) (cp_report c')
     \<and> cp_ancestors c' = cp_ancestors c"

lemma reports_refl: "reports r r"
  by (simp add: reports_def)

lemma reports_trans: "reports r s \<Longrightarrow> reports s t \<Longrightarrow> reports r t"
proof -
  assume "reports r s" and "reports s t"
  then obtain a b where
    "r_warnings s = r_warnings r @ a" "list_all only_inside a"
    "r_failures s = r_failures r + word_of_nat (length (filter is_failure a))"
    "r_warnings t = r_warnings s @ b" "list_all only_inside b"
    "r_failures t = r_failures s + word_of_nat (length (filter is_failure b))"
    by (auto simp: reports_def)
  then show ?thesis
    by (auto simp: reports_def intro!: exI [of _ "a @ b"])
qed

lemma ops_extend_trans: "ops_extend P a b \<Longrightarrow> ops_extend P b c \<Longrightarrow> ops_extend P a c"
  by (auto simp: ops_extend_def)

interpretation ops: progress "ops_extend P" for P
  by unfold_locales (auto simp: ops_extend_def)

interpretation cop: progress "proceeds P" for P
  by unfold_locales
    (auto simp: proceeds_def reports_refl ops.refl intro: reports_trans ops_extend_trans)

lemma call_moves: "P op \<Longrightarrow> moves (ops_extend P) (call w op)"
  by (simp add: moves_def call_def ops_extend_def)

lemma host_moves: "P op \<Longrightarrow> moves (proceeds P) (host w op)"
  using call_moves [of P op w]
  by (simp add: moves_def host_def proceeds_def reports_refl split_beta)

lemma with_fs_moves: "moves (proceeds P) (with_fs m)"
  by (simp add: moves_def with_fs_def proceeds_def reports_refl ops.refl split_beta)

lemma tell_moves:
  "(\<And>r. r_warnings (f r) = r_warnings r \<and> r_failures (f r) = r_failures r) \<Longrightarrow>
     moves (proceeds P) (tell f)"
  by (simp add: moves_def tell_def proceeds_def reports_def ops.refl)

lemma warn_moves: "only_inside v \<Longrightarrow> \<not> is_failure v \<Longrightarrow> moves (proceeds P) (warn v)"
  by (simp add: moves_def warn_def tell_def proceeds_def reports_def ops.refl)

lemma failed_moves:
  "moves (proceeds P) (sbind count_failure (\<lambda>_. warn (EntryFailed src err)))"
  by (simp add: moves_def warn_def count_failure_def tell_def proceeds_def reports_def ops.refl
      sbind_def only_inside_def)

definition on_file :: "path \<Rightarrow> host_op \<Rightarrow> bool" where
  "on_file tmp op \<longleftrightarrow> op_paths op = [tmp] \<and> op_writes op = Some tmp"

lemma seek_loop_moves: "moves (ops_extend (on_file tmp)) (seek_loop w tmp left)"
proof (induction w tmp left rule: seek_loop.induct)
  case (1 w tmp left)
  then show ?case
    unfolding seek_loop.simps [of w tmp left]
    by (intro ops.moves_rules call_moves) (simp_all add: on_file_def)
qed

interpretation filed: sink_progress "ops_extend (on_file tmp)" "file_sink w tmp" for tmp w
proof unfold_locales
  fix piece
  show "moves (ops_extend (on_file tmp)) (file_sink w tmp piece)"
    by (cases piece)
      (auto simp: file_sink_def on_file_def intro!: ops.moves_bind call_moves seek_loop_moves
        intro: ops.moves_ret)
qed

lemma ops_extend_mono: "(\<And>op. P op \<Longrightarrow> Q op) \<Longrightarrow> ops_extend P a b \<Longrightarrow> ops_extend Q a b"
  unfolding ops_extend_def by (metis list.pred_mono_strong)

lemma proceeds_mono: "(\<And>op. P op \<Longrightarrow> Q op) \<Longrightarrow> moves (proceeds P) m \<Longrightarrow> moves (proceeds Q) m"
  unfolding moves_def proceeds_def by (metis ops_extend_mono)

lemma read_into_moves:
  assumes "\<And>op. on_file tmp op \<Longrightarrow> P op"
  shows "moves (proceeds P) (read_into x w l tmp)"
proof -
  have "ops_extend (on_file tmp) ops (snd (snd (read_range x l 0 (- 1) (file_sink w tmp) (s, ops))))"
    for s ops
    using filed.read_range_moves [of tmp x l 0 "- 1" w] by (simp add: moves_def sink_moves_def)
  from ops_extend_mono [OF assms this] show ?thesis
    by (simp add: moves_def read_into_def proceeds_def reports_refl split_beta)
qed

lemma stays_inside: "stays d op \<Longrightarrow> inside e d \<Longrightarrow> stays e op"
  unfolding stays_def by (auto simp: list_all_iff intro: inside_trans)

lemma stays_simps:
  "op_writes op = None \<Longrightarrow> stays d op \<longleftrightarrow> list_all (inside d) (op_paths op)"
  "op_writes op = Some p \<Longrightarrow> stays d op \<longleftrightarrow> list_all (inside d) (op_paths op) \<and> is_partial p"
  by (simp_all add: stays_def)

lemma manifest_moves:
  "(\<And>line. P (WriteManifest line)) \<Longrightarrow> P WriteNewline \<Longrightarrow>
     moves (proceeds P) (manifest x w opts l src dest target)"
  unfolding manifest_def by (intro cop.moves_rules with_fs_moves host_moves)

lemma set_mtime_moves:
  "(\<And>a b. P (SetMtime dest a b)) \<Longrightarrow> moves (proceeds P) (set_mtime x w l dest)"
  unfolding set_mtime_def by (intro cop.moves_rules with_fs_moves host_moves)

lemma write_file_moves:
  assumes "\<And>op. on_file tmp op \<Longrightarrow> P op" and "P (SyncAll tmp)"
  shows "moves (proceeds P) (write_file x w l i tmp)"
  unfolding write_file_def using assms
  by (intro cop.moves_rules host_moves read_into_moves) (simp_all add: on_file_def)

lemma stays_manifest: "stays d (WriteManifest line)" "stays d WriteNewline"
  by (simp_all add: stays_simps)

lemma stays_on_file: "inside d tmp \<Longrightarrow> is_partial tmp \<Longrightarrow> on_file tmp op \<Longrightarrow> stays d op"
  by (simp add: on_file_def stays_simps)

lemma clear_dest_moves: "inside d dest \<Longrightarrow> moves (proceeds (stays d)) (clear_dest w opts dest)"
  unfolding clear_dest_def
  by (intro cop.moves_rules host_moves) (simp_all add: stays_simps)

lemma symlink_moves:
  assumes "\<And>t. P (Symlink t dest)" "\<And>t. P (SymlinkDir t dest)" "\<And>t. P (SymlinkFile t dest)"
  shows "moves (proceeds P) (symlink x w target dest src)"
  unfolding symlink_def leads_to_dir_def Let_def using assms
  by (intro cop.moves_rules with_fs_moves host_moves) simp_all

lemma copy_symlink_moves:
  "inside d dest \<Longrightarrow> moves (proceeds (stays d)) (copy_symlink x w opts l src dest)"
  unfolding copy_symlink_def
  by (intro cop.moves_rules with_fs_moves symlink_moves manifest_moves warn_moves tell_moves
      stays_manifest) (simp_all add: stays_simps only_inside_def)

lemma copy_file_moves:
  assumes "inside d dest" and "inside d (partial_name dest)" and "is_partial (partial_name dest)"
  shows "moves (proceeds (stays d)) (copy_file x w opts l i src dest)"
  unfolding copy_file_def using assms
  by (intro cop.moves_rules with_fs_moves host_moves manifest_moves tell_moves write_file_moves
      set_mtime_moves stays_manifest) (auto simp: stays_simps intro: stays_on_file)

lemma copy_leaf_moves:
  assumes "safe_name n"
  shows "moves (proceeds (stays d)) (copy_leaf x w opts l src (path_join d n))"
proof -
  note p = partial_join [OF assms]
  then have "inside d (partial_name (path_join d n))" "is_partial (partial_name (path_join d n))"
    using inside_join [OF p(2), of d] by (simp_all add: is_partial_def path_join_safe)
  then show ?thesis
    unfolding copy_leaf_def using inside_join [OF assms, of d]
    by (intro cop.moves_rules with_fs_moves clear_dest_moves copy_symlink_moves copy_file_moves
        warn_moves) (simp_all add: only_inside_def)
qed

lemma copy_entry_moves:
  assumes down: "\<And>l s r d. moves (proceeds (stays d)) (down l s r d)" and n: "safe_name n"
  shows "moves (proceeds (stays d)) (copy_entry x w opts down e dir src rel (path_join d n))"
proof -
  have "moves (proceeds (stays d)) (down l src rel (path_join d n))" for l
    by (rule proceeds_mono [OF _ down]) (rule stays_inside [OF _ inside_join [OF n]])
  moreover have "moves (proceeds P) (skipped x opts e dir)" for P
    unfolding skipped_def by (intro cop.moves_rules with_fs_moves)
  ultimately show ?thesis
    unfolding copy_entry_def count_excluded_def
    by (intro cop.moves_rules with_fs_moves copy_leaf_moves tell_moves n) simp_all
qed

lemma entries_loop_moves:
  assumes down: "\<And>l s r d. moves (proceeds (stays d)) (down l s r d)"
  shows "moves (proceeds (stays d)) (entries_loop x w opts down dir src rel d es taken)"
proof (induction es arbitrary: taken)
  case Nil
  then show ?case by (simp only: entries_loop.simps cop.moves_ret)
next
  case (Cons e es)
  have safe: "safe_name (if b then fresh_name x taken (host_name (ext_windows x) nm)
      else host_name (ext_windows x) nm)" for b nm
    by (simp add: host_name_safe fresh_name_safe)
  show ?case
    unfolding entries_loop.simps Let_def count_excluded_def parent_join [OF safe]
    by (intro cop.moves_rules tell_moves warn_moves failed_moves copy_entry_moves [OF down safe]
        Cons.IH) (simp_all add: only_inside_def)
qed

lemma copy_dir_inner_moves:
  assumes down: "\<And>l s r d. moves (proceeds (stays d)) (down l s r d)"
  shows "moves (proceeds (stays d)) (copy_dir_inner x w opts down dir src rel d)"
  unfolding copy_dir_inner_def
  by (intro cop.moves_rules host_moves with_fs_moves tell_moves manifest_moves set_mtime_moves
      entries_loop_moves down stays_manifest) (simp_all add: stays_simps inside_refl)

lemma within_moves:
  assumes "moves (proceeds P) m"
  shows "moves (proceeds P) (within dir m)"
  unfolding moves_def
proof
  fix c :: copier
  show "proceeds P c (snd (within dir m c))"
  proof (cases "dir \<in> set (cp_ancestors c)")
    case True
    then show ?thesis by (simp add: within_def cop.refl)
  next
    case False
    let ?c = "c\<lparr>cp_ancestors := dir # cp_ancestors c\<rparr>"
    obtain r t where m: "m ?c = (r, t)" by (cases "m ?c")
    have "proceeds P ?c (snd (m ?c))" using assms by (simp add: moves_def)
    then have "ops_extend P (cp_ops c) (cp_ops t)" "reports (cp_report c) (cp_report t)"
        "cp_ancestors t = dir # cp_ancestors c"
      by (simp_all add: proceeds_def m)
    then show ?thesis using False by (simp add: within_def m proceeds_def removeAll_id)
  qed
qed

lemma copy_dir_moves: "moves (proceeds (stays dest)) (copy_dir x w opts depth dir src rel dest)"
proof (induction x w opts depth dir src rel dest rule: copy_dir.induct)
  case (1 x w opts depth dir src rel dest)
  show ?case
  proof (cases "MAX_DEPTH < depth")
    case True
    then show ?thesis by (simp only: copy_dir.simps [of x w opts depth] if_True cop.moves_throw)
  next
    case False
    from "1.IH" [OF False] show ?thesis
      unfolding copy_dir.simps [of x w opts depth dir] using False
      by (simp only: if_False) (intro within_moves copy_dir_inner_moves)
  qed
qed

section \<open>What a copy guarantees\<close>

lemma split_on_hd: "\<not> P c \<Longrightarrow> hd (split_on P (c # s)) = c # hd (split_on P s)"
  by (cases "split_on P s") simp_all

lemma reserved_underscore: "\<not> reserved (CHR ''_'' # n)"
proof -
  have up: "ascii_upper CHR ''_'' = CHR ''_''" by code_simp
  have no: "s \<notin> {''CON'', ''PRN'', ''AUX'', ''NUL'', ''CONIN$'', ''CONOUT$''}"
      "\<not> (length s = 4 \<and> (take 3 s = ''COM'' \<or> take 3 s = ''LPT'') \<and> is_digit (s ! 3))"
    if "hd s = CHR ''_''" for s :: string
    using that by (cases s; simp)+
  have "hd (split_on (\<lambda>c. c = CHR ''.'') (CHR ''_'' # n))
      = CHR ''_'' # hd (split_on (\<lambda>c. c = CHR ''.'') n)"
    by (rule split_on_hd) simp
  then have "hd (map ascii_upper (hd (split_on (\<lambda>c. c = CHR ''.'') (CHR ''_'' # n)))) = CHR ''_''"
    by (simp only: list.map list.sel up)
  from no [OF this] show ?thesis unfolding reserved_def Let_def by simp
qed

definition clean_name :: "string \<Rightarrow> bool" where
  "clean_name n \<longleftrightarrow>
     list_ex (\<lambda>c. c \<noteq> CHR ''.'') n \<and> list_all (\<lambda>c. sanitize False c = c) n"

lemma map_fixed_iff: "map f n = n \<longleftrightarrow> list_all (\<lambda>c. f c = c) n"
  by (induction n) auto

lemma host_name_clean: "host_name False n = n \<longleftrightarrow> clean_name n"
proof (cases "map (sanitize False) n = [] \<or> list_all (\<lambda>c. c = CHR ''.'') (map (sanitize False) n)")
  case True
  then have "host_name False n = CHR ''_'' # map (sanitize False) n"
    by (simp add: host_name_def)
  moreover have "CHR ''_'' # map (sanitize False) n \<noteq> n"
    by (metis impossible_Cons length_map order_refl)
  moreover have "\<not> clean_name n"
    using True by (auto simp: clean_name_def list_ex_iff list_all_iff)
  ultimately show ?thesis by simp
next
  case False
  then have "host_name False n = map (sanitize False) n" by (simp add: host_name_def)
  moreover have "list_ex (\<lambda>c. c \<noteq> CHR ''.'') n" if "list_all (\<lambda>c. sanitize False c = c) n"
    using False that by (auto simp: list_ex_iff list_all_iff)
  ultimately show ?thesis by (auto simp: clean_name_def map_fixed_iff)
qed

lemma hd_split_on: "hd (split_on P s) = takeWhile (\<lambda>c. \<not> P c) s"
  by (induction s) (auto split: list.splits)

text \<open>A number put after a name makes no device name of it.\<close>

lemma reserved_numbered: "reserved (numbered n k) \<Longrightarrow> reserved n"
proof -
  assume r: "reserved (numbered n k)"
  let ?P = "\<lambda>c. c \<noteq> CHR ''.''"
  show "reserved n"
  proof (cases "CHR ''.'' \<in> set n")
    case True
    then have "takeWhile ?P (numbered n k) = takeWhile ?P n"
      unfolding numbered_def by (intro takeWhile_append1) auto
    with r show ?thesis by (simp add: reserved_def hd_split_on)
  next
    case False
    moreover have "CHR ''.'' \<notin> set (dec_string k)"
      using dec_string_digits [of k] by (auto simp: list_all_iff is_digit_def)
    ultimately have "takeWhile ?P (numbered n k) = numbered n k"
      by (auto simp: numbered_def takeWhile_eq_all_conv)
    moreover have tilde: "ascii_upper CHR ''~'' = CHR ''~''" by code_simp
    then have "CHR ''~'' \<in> set (map ascii_upper (numbered n k))" by (simp add: numbered_def)
    moreover have "CHR ''~'' \<notin> set s" if "s \<in> {''CON'', ''PRN'', ''AUX'', ''NUL'', ''CONIN$'', ''CONOUT$''}
        \<or> length s = 4 \<and> (take 3 s = ''COM'' \<or> take 3 s = ''LPT'') \<and> is_digit (s ! 3)" for s
    proof (cases "length s = 4")
      case True
      then obtain a b c d where "s = [a, b, c, d]"
        by (auto simp: numeral_eq_Suc length_Suc_conv)
      with that show ?thesis by (auto simp: is_digit_def)
    qed (use that in auto)
    ultimately show ?thesis using r unfolding reserved_def hd_split_on Let_def by metis
  qed
qed

lemma last_numbered: "last (numbered n k) \<notin> {CHR ''.'', CHR '' ''}"
proof -
  have "is_digit (last (numbered n k))"
    using dec_string_digits [of k] last_in_set [of "dec_string k"]
    by (auto simp: numbered_def list_all_iff)
  then show ?thesis by (auto simp: is_digit_def)
qed

text \<open>
  C23: Whatever the bytes of a name in the image, on Unix and on Windows, the name it gets on
  the host is a single path component that is no navigation; on Windows it is no device name
  either and not ended by a dot or a space.  The same holds of a name made unique, and it
  differs from every name taken, on Windows in more than case, if lowercasing leaves numbers
  apart.  On Unix exactly the names that are clean already are left alone.
\<close>

theorem host_names_safe:
  assumes "keeps_numbers x"
  shows "safe_name (host_name windows n)
    \<and> \<not> reserved (host_name True n) \<and> last (host_name True n) \<notin> {CHR ''.'', CHR '' ''}
    \<and> safe_name (fresh_name x taken (host_name windows n))
    \<and> \<not> reserved (fresh_name x taken (host_name True n))
    \<and> last (fresh_name x taken (host_name True n)) \<notin> {CHR ''.'', CHR '' ''}
    \<and> fold_name x (fresh_name x taken (host_name windows n)) \<notin> set taken
    \<and> (host_name False n = n \<longleftrightarrow> clean_name n)"
proof (intro conjI)
  define a where "a = map (sanitize True) n"
  define b where "b = (if a = [] \<or> list_all (\<lambda>c. c = CHR ''.'') a then CHR ''_'' # a else a)"
  define d where "d = (if last b \<in> {CHR ''.'', CHR '' ''} then b @ ''_'' else b)"
  have h: "host_name True n = (if reserved d then CHR ''_'' # d else d)"
    by (simp only: host_name_def a_def b_def d_def Let_def if_True)
  show r: "\<not> reserved (host_name True n)" by (simp add: h reserved_underscore)
  have "d \<noteq> []" by (auto simp: d_def b_def)
  moreover have "last d \<notin> {CHR ''.'', CHR '' ''}" by (auto simp: d_def)
  ultimately show l: "last (host_name True n) \<notin> {CHR ''.'', CHR '' ''}" by (simp add: h)
  show "safe_name (fresh_name x taken (host_name windows n))"
    by (intro fresh_name_safe host_name_safe)
  show "\<not> reserved (fresh_name x taken (host_name True n))"
    using r fresh_name_is [of x taken "host_name True n"] reserved_numbered by metis
  show "last (fresh_name x taken (host_name True n)) \<notin> {CHR ''.'', CHR '' ''}"
    using l fresh_name_is [of x taken "host_name True n"] last_numbered by metis
qed (rule host_name_safe fresh_name_new [OF assms] host_name_clean)+

definition windows_ext :: ext where
  "windows_ext = sample_ext\<lparr>ext_windows := True, ext_lowercase := map ascii_lower\<rparr>"

lemma windows_keeps_numbers: "keeps_numbers windows_ext"
  by (simp add: keeps_numbers_def fold_name_def windows_ext_def numbered_def dec_string_lower)

theorem host_names_safe_witness:
  "fresh_name windows_ext [''nul_'', ''_nul.txt'', ''_nul.txt~1''] (host_name True ''NUL.txt'')
      = ''_NUL.txt~2''
   \<and> safe_name ''_NUL.txt~2'' \<and> \<not> reserved ''_NUL.txt~2''"
proof -
  have "host_name True ''NUL.txt'' = ''_NUL.txt''" by code_simp
  moreover have "fresh_name windows_ext [''nul_'', ''_nul.txt'', ''_nul.txt~1''] ''_NUL.txt''
      = ''_NUL.txt~2''" by code_simp
  ultimately show ?thesis
    using host_names_safe [OF windows_keeps_numbers, of True "''NUL.txt''"
        "[''nul_'', ''_nul.txt'', ''_nul.txt~1'']"] by simp
qed


text \<open>
  C22: After copying a directory with a new copier, the report's failure count is the number
  of its warnings that tell of a failed entry (as a 64-bit number), the refusal to write
  outside the destination never had to be used, and no directory is left marked as being
  descended into.
\<close>

theorem copy_reports_failures:
  "cp_ancestors (snd (copy_dir x w opts depth dir src rel dest (new_copier s))) = []
   \<and> list_all only_inside (r_warnings (cp_report (snd
        (copy_dir x w opts depth dir src rel dest (new_copier s)))))
   \<and> r_failures (cp_report (snd (copy_dir x w opts depth dir src rel dest (new_copier s))))
     = word_of_nat (length (filter is_failure (r_warnings (cp_report (snd
        (copy_dir x w opts depth dir src rel dest (new_copier s)))))))"
proof -
  define c' where "c' = snd (copy_dir x w opts depth dir src rel dest (new_copier s))"
  have "proceeds (stays dest) (new_copier s) c'"
    using copy_dir_moves [of dest x w opts depth dir src rel] by (simp add: moves_def c'_def)
  then show ?thesis
    unfolding c'_def [symmetric] by (auto simp: proceeds_def reports_def new_copier_def)
qed

end
