(* ===== verification/Copy_Host.thy ===== *)
theory Copy_Host
  imports Copy_Facts Fs_Facts
begin

text \<open>
  What the calls of a copy do to the files of the host.  A call that succeeds does what the
  operating system documents; one that fails may leave anything (\<open>junk\<close>) in the file it was
  changing, and nothing else.  Against this host a file appears under its own name in one step,
  complete, or not at all.
\<close>

section \<open>The files of the host\<close>

text \<open>The contents of a file and where the open handle stands in it.\<close>

type_synonym hfiles = "path \<Rightarrow> (bytes \<times> nat) option"

definition overwrite :: "bytes \<Rightarrow> nat \<Rightarrow> bytes \<Rightarrow> bytes" where
  "overwrite c pos d = take pos (c @ replicate (pos - length c) 0) @ d @ drop (pos + length d) c"

definition resized :: "nat \<Rightarrow> bytes \<Rightarrow> bytes" where
  "resized n c = take n c @ replicate (n - length c) 0"

fun host_step :: "host_op \<Rightarrow> hfiles \<Rightarrow> hfiles" where
  "host_step (CreateFile p) h = h(p \<mapsto> ([], 0))"
| "host_step (WriteAll p d) h =
     h(p := map_option (\<lambda>(c, pos). (overwrite c pos d, pos + length d)) (h p))"
| "host_step (SeekBy p n) h = h(p := map_option (\<lambda>(c, pos). (c, pos + unat n)) (h p))"
| "host_step (SetLen p n) h = h(p := map_option (\<lambda>(c, pos). (resized (unat n) c, pos)) (h p))"
| "host_step (RemoveFile p) h = h(p := None)"
| "host_step (Rename p q) h = (h(p := None))(q := h p)"
| "host_step _ h = h"

type_synonym junk = "host_op list \<Rightarrow> (bytes \<times> nat) option"

definition host_effect :: "world \<Rightarrow> junk \<Rightarrow> host_op list \<Rightarrow> host_op \<Rightarrow> hfiles \<Rightarrow> hfiles" where
  "host_effect w junk ops op h =
     (case w ops op of
        Inr b \<Rightarrow> host_step op h
      | Inl e \<Rightarrow> (case op_writes op of None \<Rightarrow> h | Some p \<Rightarrow> h(p := junk ops)))"

fun run_from :: "world \<Rightarrow> junk \<Rightarrow> host_op list \<Rightarrow> host_op list \<Rightarrow> hfiles \<Rightarrow> hfiles" where
  "run_from w junk made [] h = h"
| "run_from w junk made (op # ops) h =
     run_from w junk (made @ [op]) ops (host_effect w junk made op h)"

definition files :: "world \<Rightarrow> junk \<Rightarrow> hfiles \<Rightarrow> host_op list \<Rightarrow> hfiles" where
  "files w junk h ops = run_from w junk [] ops h"

lemma run_from_append:
  "run_from w junk d (a @ b) h = run_from w junk (d @ a) b (run_from w junk d a h)"
  by (induction a arbitrary: d h) simp_all

lemma files_snoc [simp]:
  "files w junk h (ops @ [op]) = host_effect w junk ops op (files w junk h ops)"
  by (simp add: files_def run_from_append)

section \<open>Calls that leave a file alone\<close>

fun op_replaces :: "host_op \<Rightarrow> path list" where
  "op_replaces (RemoveFile p) = [p]"
| "op_replaces (Rename p q) = [p, q]"
| "op_replaces op = (case op_writes op of None \<Rightarrow> [] | Some p \<Rightarrow> [p])"

definition spares :: "path \<Rightarrow> host_op \<Rightarrow> bool" where
  "spares p op \<longleftrightarrow> p \<notin> set (op_replaces op)"

lemma host_effect_spares: "spares p op \<Longrightarrow> host_effect w junk ops op h p = h p"
  by (cases op) (auto simp: spares_def host_effect_def split: sum.splits)

lemma files_spared:
  "list_all (spares p) new \<Longrightarrow> files w junk h (ops @ new) p = files w junk h ops p"
proof (induction new rule: rev_induct)
  case (snoc op new)
  then have "spares p op" by simp
  then have "files w junk h ((ops @ new) @ [op]) p = files w junk h (ops @ new) p"
    by (simp only: files_snoc host_effect_spares)
  with snoc show ?case by simp
qed simp

definition contents :: "world \<Rightarrow> junk \<Rightarrow> hfiles \<Rightarrow> host_op list \<Rightarrow> path \<Rightarrow> bytes option" where
  "contents w junk h ops p = map_option fst (files w junk h ops p)"

text \<open>At every moment of a run of calls, \<open>p\<close> holds one of the contents \<open>H\<close>.\<close>

definition holds :: "world \<Rightarrow> junk \<Rightarrow> hfiles \<Rightarrow> path \<Rightarrow> bytes option set \<Rightarrow> host_op list \<Rightarrow> host_op list \<Rightarrow> bool" where
  "holds w junk h p H ops ops' \<longleftrightarrow>
     (\<exists>new. ops' = ops @ new
        \<and> (\<forall>k. contents w junk h (ops @ take k new) p \<in> H))"

lemma holds_spared:
  assumes "ops_extend (spares p) ops ops'" and "contents w junk h ops p \<in> H"
  shows "holds w junk h p H ops ops'"
    and "files w junk h ops' p = files w junk h ops p"
proof -
  obtain new where new: "ops' = ops @ new" "list_all (spares p) new"
    using assms(1) by (auto simp: ops_extend_def)
  then have "list_all (spares p) (take k new)" for k
    by (meson in_set_takeD list_all_iff)
  from files_spared [OF this] assms(2) new(1) show "holds w junk h p H ops ops'"
    by (auto simp: holds_def contents_def)
  from files_spared [OF new(2)] new(1) show "files w junk h ops' p = files w junk h ops p"
    by simp
qed

lemma holds_trans:
  assumes "holds w junk h p H a b" and "holds w junk h p H b c"
  shows "holds w junk h p H a c"
proof -
  obtain m n where m: "b = a @ m" "\<forall>k. contents w junk h (a @ take k m) p \<in> H"
      and n: "c = b @ n" "\<forall>k. contents w junk h (b @ take k n) p \<in> H"
    using assms by (auto simp: holds_def)
  have "contents w junk h (a @ take k (m @ n)) p \<in> H" for k
  proof (cases "k \<le> length m")
    case True
    then show ?thesis using m(2) by simp
  next
    case False
    then show ?thesis using n(2) m(1) by simp
  qed
  then show ?thesis using m(1) n(1) by (auto simp: holds_def)
qed

section \<open>Writing the contents\<close>

text \<open>
  The file at \<open>tmp\<close> holds \<open>v\<close> up to the handle's position, trailing zeros not yet written.
  Writing to it follows writing to memory.
\<close>

definition holds_vec :: "world \<Rightarrow> junk \<Rightarrow> hfiles \<Rightarrow> path \<Rightarrow> host_op list \<Rightarrow> bytes \<Rightarrow> bool" where
  "holds_vec w junk h tmp ops v \<longleftrightarrow>
     (\<exists>c pos. files w junk h ops tmp = Some (c, pos) \<and> length c \<le> pos
        \<and> v = c @ replicate (pos - length c) 0)"

lemma call_Inr: "call w op ops = (Inr b, ops') \<longleftrightarrow> w ops op = Inr b \<and> ops' = ops @ [op]"
  by (auto simp: call_def split: sum.splits)

lemma seek_loop_holds:
  assumes "seek_loop w tmp n ops = (Inr (), ops')" and "files w junk h ops tmp = Some (c, pos)"
  shows "files w junk h ops' tmp = Some (c, pos + unat n)"
  using assms
proof (induction w tmp n arbitrary: ops pos rule: seek_loop.induct)
  case (1 w tmp left)
  show ?case
  proof (cases "0 < left")
    case False
    then show ?thesis using 1(2,3) by (simp add: word_gt_0 seek_loop.simps [of w tmp 0])
  next
    case True
    define step where "step = min left 0x7FFFFFFFFFFFFFFF"
    note n = seek_step [OF True, folded step_def]
    from 1(2) True obtain b where b: "w ops (SeekBy tmp step) = Inr b"
        and rest: "seek_loop w tmp (left - step) (ops @ [SeekBy tmp step]) = (Inr (), ops')"
      by (auto simp: seek_loop.simps [of w tmp left] step_def [symmetric] sbind_Inr_iff call_Inr
          Let_def)
    have "files w junk h (ops @ [SeekBy tmp step]) tmp = Some (c, pos + unat step)"
      using b 1(3) by (simp add: host_effect_def)
    from 1(1) [OF True step_def rest this] n show ?thesis by simp
  qed
qed

lemma file_sink_holds:
  "follows (holds_vec w junk h tmp) (file_sink w tmp piece) (vec_sink piece)"
proof (cases piece)
  case (Data d)
  have "holds_vec w junk h tmp (ops @ [WriteAll tmp d]) (v @ d)"
    if v: "holds_vec w junk h tmp ops v" and ok: "w ops (WriteAll tmp d) = Inr b" for ops v b
  proof -
    from v obtain c pos where "files w junk h ops tmp = Some (c, pos)" "length c \<le> pos"
        "v = c @ replicate (pos - length c) 0"
      by (auto simp: holds_vec_def)
    with ok show ?thesis
      by (auto simp: holds_vec_def host_effect_def overwrite_def)
  qed
  then show ?thesis
    unfolding Data follows_def
    by (auto simp: file_sink_def vec_sink_def piece_bytes_def sbind_Inr_iff call_Inr)
next
  case (Zeros n)
  have "holds_vec w junk h tmp ops' (v @ replicate (unat n) 0)"
    if v: "holds_vec w junk h tmp ops v" and ok: "seek_loop w tmp n ops = (Inr (), ops')" for ops v ops'
  proof -
    from v obtain c pos where c: "files w junk h ops tmp = Some (c, pos)" "length c \<le> pos"
        "v = c @ replicate (pos - length c) 0"
      by (auto simp: holds_vec_def)
    from seek_loop_holds [OF ok c(1)] c(2,3) show ?thesis
      by (auto simp: holds_vec_def replicate_add [symmetric] intro: exI [of _ c])
  qed
  then show ?thesis
    unfolding Zeros follows_def by (auto simp: file_sink_def vec_sink_def piece_bytes_def)
qed

interpretation to_file: matched_sinks "holds_vec w junk h tmp" "file_sink w tmp" vec_sink
  for w junk h tmp
  by unfold_locales (rule file_sink_holds)

lemma resized_zeros: "resized n (c @ replicate k 0) = resized n c"
proof (cases "n \<le> length c")
  case False
  then have "replicate (min k (n - length c)) 0 @ replicate (n - length c - k) (0 :: u8)
      = replicate (n - length c) 0"
    by (simp add: replicate_add [symmetric] min_def)
  with False show ?thesis by (simp add: resized_def min.commute)
qed (simp add: resized_def)

lemma host_Inr:
  "host w op c = (Inr b, c') \<longleftrightarrow> w (cp_ops c) op = Inr b \<and> c' = c\<lparr>cp_ops := cp_ops c @ [op]\<rparr>"
  by (auto simp: host_def call_def split: sum.splits)

text \<open>What is in a file once it has been written: all that a read of it delivers.\<close>

definition whole :: "ext \<Rightarrow> loc \<Rightarrow> inode \<Rightarrow> fs \<Rightarrow> bytes \<Rightarrow> fs \<Rightarrow> bool" where
  "whole x l i s d t \<longleftrightarrow>
     (\<exists>v. read_range x l 0 (- 1) vec_sink (s, []) = (Inr (), (t, v)) \<and> d = resized (unat (i_size i)) v)"

lemma write_file_whole:
  assumes "write_file x w l i tmp c = (Inr (), c')"
  shows "\<exists>d. whole x l i (cp_fs c) d (cp_fs c')
     \<and> contents w junk h (cp_ops c') tmp = Some d"
proof -
  let ?ops = "cp_ops c @ [CreateFile tmp]" and ?n = "i_size i"
  let ?perm = "if ext_windows x then [] else [SetPermissions tmp (i_mode i AND 0xFFF)]"
  from assms obtain b1 b2 b4 s ops where
      create: "w (cp_ops c) (CreateFile tmp) = Inr b1"
      and read: "read_range x l 0 (- 1) (file_sink w tmp) (cp_fs c, ?ops) = (Inr (), (s, ops))"
      and len: "w ops (SetLen tmp ?n) = Inr b2"
      and perm: "\<forall>op \<in> set ?perm. is_ok (w (ops @ [SetLen tmp ?n]) op)"
      and sync: "w ((ops @ [SetLen tmp ?n]) @ ?perm) (SyncAll tmp) = Inr b4"
      and c': "cp_fs c' = s" "cp_ops c' = ((ops @ [SetLen tmp ?n]) @ ?perm) @ [SyncAll tmp]"
    by (cases "ext_windows x") (auto simp: write_file_def sbind_Inr_iff scontext_Inr_iff host_Inr
        read_into_def split: prod.splits)
  have "holds_vec w junk h tmp ?ops []"
    using create by (simp add: holds_vec_def host_effect_def)
  then have "with_same (holds_vec w junk h tmp) (cp_fs c, ?ops) (cp_fs c, [])"
    by (simp add: with_same_def)
  from followsD [OF to_file.read_range_follows this read]
  obtain v where v: "read_range x l 0 (- 1) vec_sink (cp_fs c, []) = (Inr (), (s, v))"
      and "holds_vec w junk h tmp ops v"
    by (auto simp: with_same_def)
  then obtain d pos where d: "files w junk h ops tmp = Some (d, pos)"
      "v = d @ replicate (pos - length d) 0"
    by (auto simp: holds_vec_def)
  have "files w junk h (ops @ [SetLen tmp ?n]) tmp = Some (resized (unat ?n) v, pos)"
    unfolding files_snoc host_effect_def len by (simp add: d resized_zeros)
  then have "files w junk h ((ops @ [SetLen tmp ?n]) @ ?perm) tmp = Some (resized (unat ?n) v, pos)"
    using perm by (cases "ext_windows x")
      (auto simp: host_effect_def files_snoc simp del: append_assoc split: sum.splits)
  then have "contents w junk h (cp_ops c') tmp = Some (resized (unat ?n) v)"
    unfolding contents_def c'(2) files_snoc host_effect_def sync by simp
  with v c'(1) show ?thesis by (auto simp: whole_def)
qed

section \<open>A file appears complete or not at all\<close>

definition done_with :: "ext \<Rightarrow> loc \<Rightarrow> inode \<Rightarrow> fs \<Rightarrow> bytes option set" where
  "done_with x l i s = {Some d | d. \<exists>t. whole x l i s d t}"

lemma holds_one:
  "contents w junk h ops p \<in> H \<Longrightarrow> contents w junk h (ops @ [op]) p \<in> H \<Longrightarrow>
     holds w junk h p H ops (ops @ [op])"
proof -
  assume a: "contents w junk h ops p \<in> H" "contents w junk h (ops @ [op]) p \<in> H"
  have "contents w junk h (ops @ take k [op]) p \<in> H" for k
    using a by (cases k) simp_all
  then show ?thesis by (auto simp: holds_def)
qed

lemma rename_contents:
  assumes "contents w junk h ops tmp = Some d" and "tmp \<noteq> dest"
  shows "contents w junk h (ops @ [Rename tmp dest]) dest
    = (if is_ok (w ops (Rename tmp dest)) then Some d else contents w junk h ops dest)"
  using assms by (auto simp: contents_def host_effect_def split: sum.splits)

lemma spares_write_file:
  assumes "tmp \<noteq> dest"
  shows "moves (proceeds (spares dest)) (write_file x w l i tmp)"
proof -
  have "spares dest op" if "on_file tmp op" for op
    using that assms by (cases op) (auto simp: on_file_def spares_def)
  moreover have "spares dest (SyncAll tmp)" by (simp add: spares_def)
  ultimately show ?thesis by (rule write_file_moves [where P = "spares dest"])
qed

lemma spares_after:
  "moves (proceeds (spares dest)) (sbind (set_mtime x w l dest) (\<lambda>_. sbind (tell f) (\<lambda>_.
     manifest x w opts l src dest target)))"
  if "\<And>r. r_warnings (f r) = r_warnings r \<and> r_failures (f r) = r_failures r"
  by (intro cop.moves_bind set_mtime_moves tell_moves manifest_moves that) (simp_all add: spares_def)

lemma holds_step:
  assumes "moves (proceeds (spares p)) m" and "m c = (r, c')"
    and "contents w junk h (cp_ops c) p \<in> H"
  shows "holds w junk h p H (cp_ops c) (cp_ops c')
    \<and> contents w junk h (cp_ops c') p = contents w junk h (cp_ops c) p"
proof -
  have "proceeds (spares p) c (snd (m c))" using assms(1) by (simp add: moves_def)
  then have "ops_extend (spares p) (cp_ops c) (cp_ops c')" by (simp add: proceeds_def assms(2))
  from holds_spared [OF this assms(3)] show ?thesis by (simp add: contents_def)
qed

lemma copy_file_holds:
  assumes other: "partial_name dest \<noteq> dest"
    and run: "copy_file x w opts l i src dest c = (r, c')"
    and H: "contents w junk h (cp_ops c) dest \<in> H" "done_with x l i (cp_fs c) \<subseteq> H"
  shows "holds w junk h dest H (cp_ops c) (cp_ops c')
    \<and> (r = Inr () \<longrightarrow> contents w junk h (cp_ops c') dest \<in> done_with x l i (cp_fs c))"
proof -
  let ?tmp = "partial_name dest" and ?C = "contents w junk h"
  let ?H = "holds w junk h dest H" and ?D = "done_with x l i (cp_fs c)"
  let ?ren = "Rename (partial_name dest) dest"
  obtain q c1 where wrote: "write_file x w l i ?tmp c = (q, c1)"
    by (cases "write_file x w l i ?tmp c")
  note c1 = holds_step [OF spares_write_file [OF other] wrote H(1)]
  with H(1) have H1: "?C (cp_ops c1) dest \<in> H" by simp
  show ?thesis
  proof (cases q)
    case (Inl e)
    obtain u c2 where c2: "host w (RemoveFile ?tmp) c1 = (u, c2)"
      by (cases "host w (RemoveFile ?tmp) c1")
    with run wrote Inl have "r = Inl e" "c' = c2"
      by (auto simp: copy_file_def Let_def sbind_def stry_def)
    moreover have "moves (proceeds (spares dest)) (host w (RemoveFile ?tmp))"
      using other by (intro host_moves) (simp add: spares_def)
    from holds_step [OF this c2 H1] c1 have "?H (cp_ops c) (cp_ops c2)"
      by (auto intro: holds_trans)
    ultimately show ?thesis by simp
  next
    case (Inr u)
    let ?c2 = "c1\<lparr>cp_ops := cp_ops c1 @ [?ren]\<rparr>"
    from Inr wrote have "write_file x w l i ?tmp c = (Inr (), c1)" by simp
    from write_file_whole [OF this] obtain d where d: "whole x l i (cp_fs c) d (cp_fs c1)"
      "?C (cp_ops c1) ?tmp = Some d" by blast
    then have D: "Some d \<in> ?D" by (auto simp: done_with_def)
    have H2: "?C (cp_ops ?c2) dest \<in> H"
      using rename_contents [OF d(2) other] D H(2) H1 by auto
    have "?H (cp_ops c1) (cp_ops ?c2)" using holds_one [OF H1] H2 by simp
    with c1 have step: "?H (cp_ops c) (cp_ops ?c2)" by (blast intro: holds_trans)
    let ?rest = "sbind (set_mtime x w l dest) (\<lambda>_. sbind (tell (\<lambda>r. r\<lparr>r_files := r_files r + 1,
      r_bytes := r_bytes r + i_size i\<rparr>)) (\<lambda>_. manifest x w opts l src dest None))"
    show ?thesis
    proof (cases "w (cp_ops c1) ?ren")
      case (Inl e)
      with run wrote Inr have "r \<noteq> Inr ()" "c' = ?c2"
        by (auto simp: copy_file_def Let_def sbind_def stry_def scontext_def host_def call_def)
      with step show ?thesis by simp
    next
      case (Inr b)
      then have "?C (cp_ops ?c2) dest = Some d"
        using rename_contents [OF d(2) other] by simp
      moreover have "?rest ?c2 = (r, c')"
        using run wrote \<open>q = Inr u\<close> Inr
        by (simp add: copy_file_def Let_def sbind_def stry_def scontext_def host_def call_def)
      from holds_step [OF spares_after this H2] step
      have "?H (cp_ops c) (cp_ops c')" "?C (cp_ops c') dest = ?C (cp_ops ?c2) dest"
        by (auto intro: holds_trans)
      ultimately show ?thesis using D by simp
    qed
  qed
qed

text \<open>The name of a partial file is never shorter than the file's own.\<close>

lemma utf8_tail_length: "utf8_tail ps r = (ok, n) \<Longrightarrow> n \<le> length ps \<and> (\<not> ok \<longrightarrow> n < length ps)"
  by (induction ps r arbitrary: ok n rule: utf8_tail.induct) (auto split: if_splits prod.splits)

lemma utf8_step_length: "utf8_step b r = (False, n) \<Longrightarrow> n \<le> 2"
  by (auto simp: utf8_step_def utf8_expect_def split: if_splits option.splits dest!: utf8_tail_length)

lemma length_utf8_lossy: "length b \<le> length (utf8_lossy b)"
proof (induction b rule: utf8_lossy.induct)
  case (2 b r)
  obtain ok n where step: "utf8_step b r = (ok, n)" by (cases "utf8_step b r")
  with "2.IH" have rest: "length r - n \<le> length (utf8_lossy (drop n r))" by simp
  show ?case
  proof (cases ok)
    case True
    with rest step show ?thesis by simp
  next
    case False
    with step have "n \<le> 2" by (simp add: utf8_step_length)
    with rest step False show ?thesis by simp
  qed
qed simp

lemma partial_differs:
  assumes "safe_name n"
  shows "partial_name (path_join d n) \<noteq> path_join d n"
proof -
  let ?m = "from_utf8_lossy (as_bytes n) @ partial_suffix"
  have "length n < length ?m"
    using length_utf8_lossy [of "as_bytes n"]
    by (simp add: from_utf8_lossy_def of_bytes_def as_bytes_def partial_suffix_def)
  then have "?m \<noteq> n" by (metis less_irrefl)
  moreover have "partial_name (path_join d n) = Path (absolute d) (comps d @ [?m])"
    by (rule trans [OF partial_join(1) path_join_safe [OF partial_join(2)]]) (rule assms)+
  ultimately show ?thesis by (simp only: path_join_safe [OF assms]) simp
qed

section \<open>A readable file arrives\<close>

text \<open>Steps that succeed and keep a property of the file system.\<close>

definition returns :: "('s \<Rightarrow> bool) \<Rightarrow> ('s, 'a) eff \<Rightarrow> bool" where
  "returns P m \<longleftrightarrow> (\<forall>s. P s \<longrightarrow> (\<exists>y t. m s = (Inr y, t) \<and> P t))"

lemma returnsD: "returns P m \<Longrightarrow> P s \<Longrightarrow> \<exists>y t. m s = (Inr y, t) \<and> P t"
  by (simp add: returns_def)

lemma returns_ret: "returns P (sret y)"
  by (simp add: returns_def)

lemma returns_bind: "returns P m \<Longrightarrow> (\<And>y. returns P (f y)) \<Longrightarrow> returns P (sbind m f)"
  unfolding returns_def sbind_def by (metis (no_types, lifting) case_prod_conv old.sum.simps(6))

lemma returns_if: "(b \<Longrightarrow> returns P m) \<Longrightarrow> (\<not> b \<Longrightarrow> returns P n) \<Longrightarrow> returns P (if b then m else n)"
  by simp

lemma returns_context: "returns P m \<Longrightarrow> returns P (scontext c m)"
  unfolding returns_def scontext_def by fastforce

lemma returns_try: "(\<And>s. P s \<Longrightarrow> P (snd (m s))) \<Longrightarrow> returns P (stry m)"
  by (simp add: returns_def stry_def split_beta)

lemma returns_case_sum:
  "(\<And>e. returns P (f e)) \<Longrightarrow> (\<And>y. returns P (g y)) \<Longrightarrow>
     returns P (case v of Inl e \<Rightarrow> f e | Inr y \<Rightarrow> g y)"
  by (cases v) simp_all

text \<open>The copier's file system is sound and shows the image \<open>co\<close>.\<close>

definition shows_image :: "ext \<Rightarrow> fs \<Rightarrow> copier \<Rightarrow> bool" where
  "shows_image x co c \<longleftrightarrow> caches_ok x (cp_fs c) \<and> core (cp_fs c) = co"

lemma shows_image_steady:
  assumes "steady (alike x co) m" and "shows_image x co c"
  shows "shows_image x co (snd (with_fs m c))"
proof -
  have "alike x co (cp_fs c) (cp_fs c)" using assms(2) by (simp add: alike_iff shows_image_def)
  with assms(1) have "alike x co (snd (m (cp_fs c))) (snd (m (cp_fs c)))" by (simp add: steady_def)
  then show ?thesis by (simp add: with_fs_def split_beta shows_image_def alike_iff)
qed

lemma returns_inode:
  assumes "file_at x s l i es" and "core s = co"
  shows "returns (shows_image x co) (with_fs (inode x l))"
  unfolding returns_def
proof (intro allI impI)
  fix c assume c: "shows_image x co c"
  then have "view x co (sound_roots x co (\<lambda>_. True)) (cp_fs c)"
    by (simp add: shows_image_def view_sound)
  from computesD [OF file_at_computes(1) [OF assms] this]
  have "fst (with_fs (inode x l) c) = Inr i" by (simp add: with_fs_def split_beta)
  with shows_image_steady [OF inode_alike c]
  show "\<exists>y t. with_fs (inode x l) c = (Inr y, t) \<and> shows_image x co t"
    by (metis prod.collapse)
qed

lemma host_image: "shows_image x co c \<Longrightarrow> shows_image x co (snd (host w op c))"
  by (simp add: shows_image_def host_def split_beta)

definition accepts :: "world \<Rightarrow> host_op \<Rightarrow> bool" where
  "accepts w op \<longleftrightarrow> (\<forall>ops. is_ok (w ops op))"

lemma returns_host: "accepts w op \<Longrightarrow> returns (shows_image x co) (host w op)"
  unfolding returns_def
proof (intro allI impI)
  fix c assume "accepts w op" and c: "shows_image x co c"
  then obtain b where "w (cp_ops c) op = Inr b"
    by (cases "w (cp_ops c) op") (auto simp: accepts_def dest: spec [of _ "cp_ops c"])
  then have "host w op c = (Inr b, c\<lparr>cp_ops := cp_ops c @ [op]\<rparr>)" by (simp add: host_Inr)
  with c show "\<exists>y t. host w op c = (Inr y, t) \<and> shows_image x co t" by (auto simp: shows_image_def)
qed

lemma returns_set_mtime: "returns (shows_image x co) (set_mtime x w l dest)"
  unfolding set_mtime_def
  by (intro returns_bind returns_try shows_image_steady inode_alike host_image returns_case_sum
      returns_ret)

lemma returns_manifest:
  assumes "file_at x s l i es" and "core s = co"
    and "\<And>line. accepts w (WriteManifest line)" and "accepts w WriteNewline"
  shows "returns (shows_image x co) (manifest x w opts l src dest target)"
  unfolding manifest_def
  by (intro returns_if returns_ret returns_bind returns_inode [OF assms(1,2)] returns_host assms)

definition writable :: "world \<Rightarrow> path \<Rightarrow> bool" where
  "writable w tmp \<longleftrightarrow> (\<forall>d. accepts w (WriteAll tmp d)) \<and> (\<forall>n. accepts w (SeekBy tmp n))"

lemma call_accepted: "accepts w op \<Longrightarrow> \<exists>b. call w op ops = (Inr b, ops @ [op])"
  by (cases "w ops op") (auto simp: accepts_def call_def dest: spec [of _ ops])

lemma seek_loop_returns: "writable w tmp \<Longrightarrow> \<exists>ops'. seek_loop w tmp n ops = (Inr (), ops')"
proof (induction w tmp n arbitrary: ops rule: seek_loop.induct)
  case (1 w tmp left)
  show ?case
  proof (cases "0 < left")
    case False
    then show ?thesis by (simp add: word_gt_0 seek_loop.simps [of w tmp 0])
  next
    case True
    define step where "step = min left 0x7FFFFFFFFFFFFFFF"
    obtain b where "call w (SeekBy tmp step) ops = (Inr b, ops @ [SeekBy tmp step])"
      using call_accepted [of w "SeekBy tmp step" ops] "1.prems" by (auto simp: writable_def)
    with "1.IH" [OF True step_def "1.prems"] True show ?thesis
      by (simp add: seek_loop.simps [of w tmp left] step_def [symmetric] sbind_def Let_def)
  qed
qed

lemma file_sink_returns: "writable w tmp \<Longrightarrow> \<exists>ops'. file_sink w tmp piece ops = (Inr (), ops')"
proof (cases piece)
  case (Data d)
  assume "writable w tmp"
  then obtain b where "call w (WriteAll tmp d) ops = (Inr b, ops @ [WriteAll tmp d])"
    using call_accepted [of w "WriteAll tmp d" ops] by (auto simp: writable_def)
  then show ?thesis by (simp add: Data file_sink_def sbind_def)
qed (simp add: file_sink_def seek_loop_returns)

interpretation from_vec: matched_sinks "\<lambda>v ops. writable w tmp" vec_sink "file_sink w tmp"
  for w tmp
proof unfold_locales
  fix piece
  show "follows (\<lambda>v ops. writable w tmp) (vec_sink piece) (file_sink w tmp piece)"
    using file_sink_returns [of w tmp piece] by (auto simp: follows_def)
qed

lemma write_file_returns:
  assumes l: "file_at x s0 l i es" "core s0 = co" "coherent es"
      "\<forall>e \<in> set es. readable x co disk e"
    and s: "view x co (sound_roots x co (last_ok x co es)) (cp_fs c)"
    and works: "\<And>op. op \<noteq> SymlinkMetadata dest \<Longrightarrow> accepts w op"
  shows "\<exists>c'. write_file x w l i tmp c = (Inr (), c') \<and> shows_image x co c'"
proof -
  have w: "writable w tmp" by (auto simp: writable_def intro: works)
  let ?c1 = "c\<lparr>cp_ops := cp_ops c @ [CreateFile tmp]\<rparr>"
  have create: "\<exists>b. host w (CreateFile tmp) c = (Inr b, ?c1)"
    using call_accepted [OF works, of "CreateFile tmp" "cp_ops c"] by (auto simp: host_def)
  obtain t v where v: "read_range x l 0 (- 1) vec_sink (cp_fs c, []) = (Inr (), (t, v))"
    using file_delivers [OF l s, of 0 "- 1"] by blast
  have "with_same (\<lambda>v ops. writable w tmp) (cp_fs c, []) (cp_fs ?c1, cp_ops ?c1)"
    using w by (simp add: with_same_def)
  from followsD [OF from_vec.read_range_follows this v]
  obtain ops where read: "read_into x w l tmp ?c1 = (Inr (), ?c1\<lparr>cp_fs := t, cp_ops := ops\<rparr>)"
    by (auto simp: read_into_def with_same_def)
  have "alike x co (cp_fs c) (cp_fs c)"
    using view_caches_ok [OF s] by (simp add: alike_iff)
  then have "both x co (cp_fs c, [] :: bytes) (cp_fs c, [])" by (simp add: both_def)
  with read_range_steady [of x co l 0 "- 1" vec_sink] v have "alike x co t t"
    by (auto simp: steady_def both_def dest!: spec [of _ "cp_fs c"] spec [of _ "[] :: bytes"])
  then have "shows_image x co (?c1\<lparr>cp_fs := t, cp_ops := ops\<rparr>)"
    by (simp add: shows_image_def alike_iff)
  moreover have "returns (shows_image x co) (sbind (host w (SetLen tmp (i_size i))) (\<lambda>_.
     sbind (if ext_windows x then sret True
       else host w (SetPermissions tmp (i_mode i AND 0xFFF))) (\<lambda>_.
     sbind (scontext (''flushing '' @ display tmp) (host w (SyncAll tmp))) (\<lambda>_. sret ()))))"
    by (intro returns_bind returns_if returns_host returns_context returns_ret works) simp_all
  ultimately show ?thesis
    using returnsD create read
    by (fastforce simp: write_file_def sbind_def scontext_def)
qed

lemma copy_file_returns:
  assumes l: "file_at x s0 l i es" "core s0 = co" "coherent es"
      "\<forall>e \<in> set es. readable x co disk e"
    and s: "view x co (sound_roots x co (last_ok x co es)) (cp_fs c)"
    and works: "\<And>op. op \<noteq> SymlinkMetadata dest \<Longrightarrow> accepts w op"
  shows "\<exists>c'. copy_file x w opts l i src dest c = (Inr (), c')"
proof -
  obtain c1 where wrote: "write_file x w l i (partial_name dest) c = (Inr (), c1)"
      and c1: "shows_image x co c1"
    using write_file_returns [OF l s works, of dest] by blast
  have "returns (shows_image x co)
     (sbind (scontext (''moving the finished file into '' @ display dest)
        (host w (Rename (partial_name dest) dest))) (\<lambda>_.
      sbind (set_mtime x w l dest) (\<lambda>_.
      sbind (tell (\<lambda>r. r\<lparr>r_files := r_files r + 1, r_bytes := r_bytes r + i_size i\<rparr>)) (\<lambda>_.
      manifest x w opts l src dest None))))"
    by (intro returns_bind returns_context returns_host returns_set_mtime
        returns_manifest [OF l(1,2)] works)
      (simp_all add: returns_def tell_def shows_image_def)
  from returnsD [OF this c1] show ?thesis
    using wrote by (auto simp: copy_file_def Let_def sbind_def stry_def)
qed

lemma file_not_symlink: "is_file i \<Longrightarrow> \<not> is_symlink i"
  by (simp add: is_file_def is_symlink_def)

lemma copy_leaf_delivers:
  assumes caches: "caches_ok x (cp_fs c)" and l: "file_at x (cp_fs c) l i es" "is_file i"
    and es: "coherent es" "last_ok x (core (cp_fs c)) es (fs_last_extent (cp_fs c))"
      "\<forall>e \<in> set es. readable x (core (cp_fs c)) disk e"
    and n: "safe_name n"
    and works: "\<forall>ops op. is_ok (w ops op) \<longleftrightarrow> op \<noteq> SymlinkMetadata (path_join d n)"
  shows "\<exists>c'. copy_leaf x w opts l src (path_join d n) c = (Inr (), c')
     \<and> contents w junk h (cp_ops c') (path_join d n)
       = Some (map (file_byte x (core (cp_fs c)) disk es) [0 ..< unat (i_size i)])"
proof -
  let ?dest = "path_join d n" and ?co = "core (cp_fs c)"
  let ?I = "view x ?co (sound_roots x ?co (last_ok x ?co es))"
  have "?I (cp_fs c)" using caches es(2) by (auto simp: caches_ok_def view_def sound_roots_def)
  from computesD [OF file_at_computes(1) [OF l(1) refl] this]
  obtain s1 where s1: "inode x l (cp_fs c) = (Inr i, s1)" "?I s1" by (metis prod.collapse)
  obtain e where no: "w (cp_ops c) (SymlinkMetadata ?dest) = Inl e"
    using works by (metis is_ok_simps(1) sum.exhaust)
  let ?c2 = "c\<lparr>cp_fs := s1, cp_ops := cp_ops c @ [SymlinkMetadata ?dest]\<rparr>"
  have "copy_leaf x w opts l src ?dest c = copy_file x w opts l i src ?dest ?c2"
    using s1(1) no l(2) file_not_symlink [OF l(2)]
    by (simp add: copy_leaf_def clear_dest_def sbind_def stry_def with_fs_def host_def call_def)
  moreover have "?I (cp_fs ?c2)" using s1(2) by simp
  then have "\<exists>c'. copy_file x w opts l i src ?dest ?c2 = (Inr (), c')"
    by (rule copy_file_returns [OF l(1) refl es(1,3)]) (simp add: accepts_def works)
  then obtain c' where run: "copy_file x w opts l i src ?dest ?c2 = (Inr (), c')" ..
  obtain t dat v where
      "contents w junk h (cp_ops c') ?dest = Some dat" "dat = resized (unat (i_size i)) v"
      "read_range x l 0 (- 1) vec_sink (s1, []) = (Inr (), (t, v))"
    using copy_file_holds [OF partial_differs [OF n] run, where junk = junk and h = h and H = UNIV]
    by (auto simp: done_with_def whole_def)
  moreover have "\<exists>t. read_range x l 0 (- 1) vec_sink (s1, [])
      = (Inr (), (t, map (file_byte x ?co disk es) [0 ..< unat (i_size i)]))"
    using file_delivers [OF l(1) refl es(1,3) s1(2), of 0 "- 1"] by simp
  ultimately show ?thesis using run by (auto simp: resized_def)
qed

section \<open>What a copied file holds\<close>

text \<open>
  C20: A regular file of the image never shows up half-written on the host, whatever errors the
  image and the host have ready: while one is copied, its name holds at every moment either
  what it held before or the whole file, that is, all a read of it delivers; and when the copy
  reports success, the whole file.
\<close>

theorem copy_file_atomic:
  assumes "safe_name n"
    and "copy_file x w opts l i src (path_join d n) c = (r, c')"
  shows "holds w junk h (path_join d n)
      (insert (contents w junk h (cp_ops c) (path_join d n)) (done_with x l i (cp_fs c)))
      (cp_ops c) (cp_ops c')
    \<and> (r = Inr () \<longrightarrow>
         contents w junk h (cp_ops c') (path_join d n) \<in> done_with x l i (cp_fs c))"
  by (rule copy_file_holds [OF partial_differs [OF assms(1)] assms(2)]) auto

text \<open>A host on which nothing is at the destination yet and every other call succeeds.\<close>

definition demo_dest :: path where
  "demo_dest = path_join (Path True [''out'']) ''a''"

definition demo_world :: world where
  "demo_world ops op = (if op = SymlinkMetadata demo_dest then Inl (IoError IoNotFound []) else Inr False)"

definition demo_options :: options where
  "demo_options = \<lparr>o_exclude = (\<lambda>_. False), o_force = False, o_one_subvolume = False,
     o_no_snapshots = False, o_manifest = True\<rparr>"

lemma safe_a: "safe_name ''a''"
  by (simp add: safe_name_def)

theorem copy_file_atomic_witness:
  "holds demo_world (\<lambda>_. None) (\<lambda>_. None) demo_dest
     (insert None (done_with sample_ext (Loc 5 257) (demo_inode 6 0x81A4) demo)) []
     (cp_ops (snd (copy_file sample_ext demo_world demo_options (Loc 5 257) (demo_inode 6 0x81A4)
        ''/a'' demo_dest (new_copier demo))))"
  using copy_file_atomic [OF safe_a prod.collapse [symmetric], where d = "Path True [''out'']"
      and c = "new_copier demo" and h = "\<lambda>_. None"]
  by (simp add: new_copier_def contents_def files_def demo_dest_def [symmetric])

text \<open>
  C19: On a host where the name is free and calls succeed, copying a regular file whose extents
  are readable succeeds, and the host's file holds exactly the bytes of the file: the holes
  that were seeked over and the extents that were written, up to its size.
\<close>

theorem copy_leaf_exact:
  assumes "caches_ok x (cp_fs c)" and "file_at x (cp_fs c) l i es" and "is_file i"
    and "coherent es" and "last_ok x (core (cp_fs c)) es (fs_last_extent (cp_fs c))"
    and "\<forall>e \<in> set es. readable x (core (cp_fs c)) disk e"
    and "safe_name n"
    and "\<forall>ops op. is_ok (w ops op) \<longleftrightarrow> op \<noteq> SymlinkMetadata (path_join d n)"
  shows "\<exists>c'. copy_leaf x w opts l src (path_join d n) c = (Inr (), c')
     \<and> contents w junk h (cp_ops c') (path_join d n)
       = Some (map (file_byte x (core (cp_fs c)) disk es) [0 ..< unat (i_size i)])"
  by (rule copy_leaf_delivers [OF assms])

theorem copy_leaf_exact_witness:
  "\<exists>c'. copy_leaf sample_ext demo_world demo_options (Loc 5 257) ''/a'' demo_dest (new_copier demo)
       = (Inr (), c')
     \<and> contents demo_world (\<lambda>_. None) (\<lambda>_. None) (cp_ops c') demo_dest
       = Some [10, 11, 12, 13, 14, 15]"
proof -
  have c: "cp_fs (new_copier demo) = demo" by (simp add: new_copier_def)
  have "coherent [demo_file]" "last_ok sample_ext (core demo) [demo_file] (fs_last_extent demo)"
    "\<forall>e \<in> set [demo_file]. readable sample_ext (core demo) demo_disk e"
    using demo_readable by (simp_all add: coherent_single last_ok_def demo_fields)
  moreover have "is_file (demo_inode 6 0x81A4)"
    by (simp add: demo_inode_def is_file_def)
  moreover have "\<forall>ops op. is_ok (demo_world ops op) \<longleftrightarrow> op \<noteq> SymlinkMetadata demo_dest"
    by (simp add: demo_world_def)
  ultimately obtain c' where
      run: "copy_leaf sample_ext demo_world demo_options (Loc 5 257) ''/a'' demo_dest (new_copier demo)
        = (Inr (), c')"
    and "contents demo_world (\<lambda>_. None) (\<lambda>_. None) (cp_ops c') demo_dest
      = Some (map (file_byte sample_ext demo demo_disk [demo_file]) [0 ..< 6])"
    using copy_leaf_exact [of sample_ext "new_copier demo" "Loc 5 257" "demo_inode 6 0x81A4"
        "[demo_file]" demo_disk "''a''" demo_world "Path True [''out'']"
        demo_options "''/a''" "\<lambda>_. None" "\<lambda>_. None"]
      demo_caches demo_file_at(1) safe_a
    unfolding c demo_dest_def [symmetric] by (auto simp: demo_fields demo_inode_def)
  moreover have "[0 ..< 6] = [0, 1, 2, 3, 4, 5 :: nat]" by (simp add: upt_rec)
  ultimately show ?thesis by (simp add: demo_bytes)
qed

section \<open>The partial name is not kept free\<close>

text \<open>
  The name a file is written under is not among the names taken in its directory.  An entry of
  the image that has this name and comes first is copied, reported as copied, and then gone.
\<close>

lemma partial_is_gone:
  assumes n: "safe_name n" and run: "copy_file x w opts l i src (path_join d n) c = (Inr (), c')"
  shows "contents w junk h (cp_ops c') (partial_name (path_join d n)) = None"
proof -
  let ?dest = "path_join d n" and ?tmp = "partial_name (path_join d n)"
  obtain c1 where wrote: "write_file x w l i ?tmp c = (Inr (), c1)"
    using run by (auto simp: copy_file_def Let_def sbind_def stry_def split: prod.splits sum.splits)
  let ?c2 = "c1\<lparr>cp_ops := cp_ops c1 @ [Rename ?tmp ?dest]\<rparr>"
  let ?rest = "sbind (set_mtime x w l ?dest) (\<lambda>_. sbind (tell (\<lambda>r. r\<lparr>r_files := r_files r + 1,
      r_bytes := r_bytes r + i_size i\<rparr>)) (\<lambda>_. manifest x w opts l src ?dest None))"
  obtain b where b: "w (cp_ops c1) (Rename ?tmp ?dest) = Inr b"
    using run wrote by (cases "w (cp_ops c1) (Rename ?tmp ?dest)")
      (auto simp: copy_file_def Let_def sbind_def stry_def scontext_def host_def call_def)
  then have rest: "?rest ?c2 = (Inr (), c')"
    using run wrote
    by (simp add: copy_file_def Let_def sbind_def stry_def scontext_def host_def call_def)
  have "contents w junk h (cp_ops ?c2) ?tmp = None"
    using b partial_differs [OF n, of d] by (simp add: contents_def host_effect_def)
  moreover have "moves (proceeds (spares ?tmp)) ?rest"
    by (intro cop.moves_bind set_mtime_moves tell_moves manifest_moves) (simp_all add: spares_def)
  from holds_step [OF this rest, where H = UNIV]
  have "contents w junk h (cp_ops c') ?tmp = contents w junk h (cp_ops ?c2) ?tmp" by simp
  ultimately show ?thesis by simp
qed

lemma partial_name_clash:
  "partial_name (path_join d (host_name False ''x''))
    = path_join d (host_name False ''x.btrfs-peek-partial'')"
proof -
  have "clean_name ''x''" "clean_name ''x.btrfs-peek-partial''"
    by code_simp+
  moreover have "from_utf8_lossy (as_bytes ''x'') = ''x''" by code_simp
  moreover have "safe_name ''x''" by (simp add: safe_name_def)
  ultimately show ?thesis
    using partial_join(1) [of "''x''" d] by (simp add: host_name_clean [THEN iffD2] partial_suffix_def)
qed

end
