(* ===== verification/Update.thy ===== *)
theory Update
  imports Text Effects
begin

text \<open>
  What the helper service accepts as an update of itself (src/helper/update.rs): versions, the
  replies that name them, and the checks on a signed release.  The minisign library is the
  record \<open>minisign\<close> of functions; what it promises is not used here.
\<close>

section \<open>Versions\<close>

datatype (plugins only: code size) version = Version (v_major: u64) (v_minor: u64) (v_patch: u64)

instantiation version :: linorder
begin

definition less_eq_version :: "version \<Rightarrow> version \<Rightarrow> bool" where
  "less_eq_version a b \<longleftrightarrow>
     v_major a < v_major b \<or> v_major a = v_major b \<and>
       (v_minor a < v_minor b \<or> v_minor a = v_minor b \<and> v_patch a \<le> v_patch b)"

definition less_version :: "version \<Rightarrow> version \<Rightarrow> bool" where
  "less_version a b \<longleftrightarrow>
     v_major a < v_major b \<or> v_major a = v_major b \<and>
       (v_minor a < v_minor b \<or> v_minor a = v_minor b \<and> v_patch a < v_patch b)"

instance
  by standard (auto simp: less_eq_version_def less_version_def intro: version.expand)

end

text \<open>The closure of \<open>Version::parse\<close>: the next part, if it is a number in canonical form.\<close>

definition next_part :: "string list \<Rightarrow> (u64 \<times> string list) option" where
  "next_part parts =
     (case parts of
        [] \<Rightarrow> None
      | p # rest \<Rightarrow>
          if p \<noteq> [] \<and> length p \<le> 19 \<and> list_all is_digit p \<and> (p = ''0'' \<or> hd p \<noteq> CHR ''0'')
          then map_option (\<lambda>n. (n, rest)) (parse_u64 p)
          else None)"

definition version_parse :: "string \<Rightarrow> version option" where
  "version_parse s =
     Option.bind (next_part (split_on (\<lambda>c. c = CHR ''.'') s)) (\<lambda>(major, r1).
     Option.bind (next_part r1) (\<lambda>(minor, r2).
     Option.bind (next_part r2) (\<lambda>(patch, r3).
       if r3 = [] then Some (Version major minor patch) else None)))"

definition version_show :: "version \<Rightarrow> string" where
  "version_show v = show_u64 (v_major v) @ ''.'' @ show_u64 (v_minor v) @ ''.'' @ show_u64 (v_patch v)"

text \<open>\<open>CARGO_PKG_VERSION\<close>, of Cargo.toml\<close>

definition VERSION :: string where "VERSION = ''0.3.2''"

text \<open>\<open>Version::running\<close>; \<open>None\<close> would be its panic, which \<open>running_parses\<close> rules out.\<close>

definition running_version :: "version option" where
  "running_version = version_parse VERSION"

text \<open>The versions \<open>parse\<close> accepts: at most nineteen digits each.\<close>

definition version_ok :: "version \<Rightarrow> bool" where
  "version_ok v \<longleftrightarrow>
     unat (v_major v) < 10 ^ 19 \<and> unat (v_minor v) < 10 ^ 19 \<and> unat (v_patch v) < 10 ^ 19"

section \<open>Updates and replies\<close>

datatype (plugins only: code size) update = UpToDate version | Installed version

definition UPDATED_TO :: string where
  "UPDATED_TO = ''updated to ''"

fun update_show :: "update \<Rightarrow> string" where
  "update_show (UpToDate v) = ''up to date ('' @ version_show v @ '')''"
| "update_show (Installed v) = UPDATED_TO @ version_show v @ ''; restarting when idle''"

definition installed_version :: "string \<Rightarrow> version option" where
  "installed_version reply =
     Option.bind (strip_prefix UPDATED_TO reply) (\<lambda>r.
     Option.bind (split_once '';'' r) (\<lambda>(v, _). version_parse v))"

section \<open>Signed releases\<close>

definition TARGET :: string where
  "TARGET = ''windows-x86_64''"

text \<open>The key file update-key.pub, and its last line that is not blank; it is ASCII.\<close>

definition RELEASE_KEY_FILE :: string where
  "RELEASE_KEY_FILE =
     ''untrusted comment: minisign public key: 66FF264573F4AE39'' @ [CHR 0x0A]
     @ ''RWQ5rvRzRSb/Zgq2f/7NOM1j81uGcUPUoNSNxl1HUnqWFafv1xuhkRV5'' @ [CHR 0x0A]"

definition is_space :: "char \<Rightarrow> bool" where
  "is_space c \<longleftrightarrow> c \<in> {CHR '' '', CHR 0x09, CHR 0x0A, CHR 0x0B, CHR 0x0C, CHR 0x0D}"

definition trim :: "string \<Rightarrow> string" where
  "trim s = rev (dropWhile is_space (rev (dropWhile is_space s)))"

definition release_key :: string where
  "release_key =
     (case find (\<lambda>l. l \<noteq> []) (rev (map trim (split_on (\<lambda>c. c = CHR 0x0A) RELEASE_KEY_FILE))) of
        Some l \<Rightarrow> l | None \<Rightarrow> [])"

text \<open>The errors, all of the kind \<open>InvalidData\<close>, with what their messages print.\<close>

datatype (plugins only: code size) update_error =
    KeyMalformed string
  | SigMalformed string
  | DoesNotVerify string
  | WrongComment string
  | NotNewer version version

record ('key, 'sig) minisign =
  key_from_base64 :: "string \<Rightarrow> string + 'key"
  sig_decode :: "string \<Rightarrow> string + 'sig"
  trusted_comment :: "'sig \<Rightarrow> string"
  key_verify :: "'key \<Rightarrow> bytes \<Rightarrow> 'sig \<Rightarrow> bool \<Rightarrow> string + unit"

definition comment_version :: "string \<Rightarrow> version option" where
  "comment_version comment =
     Option.bind (strip_prefix ''btrfs-peek '' comment) (\<lambda>r.
     Option.bind (split_once '' '' r) (\<lambda>(v, target).
       if target \<noteq> TARGET then None else version_parse v))"

definition map_err :: "('e \<Rightarrow> 'f) \<Rightarrow> 'e + 'a \<Rightarrow> 'f + 'a" where
  "map_err f r = (case r of Inl e \<Rightarrow> Inl (f e) | Inr x \<Rightarrow> Inr x)"

definition decode_sig :: "('key, 'sig) minisign \<Rightarrow> string \<Rightarrow> update_error + 'sig" where
  "decode_sig m sig = map_err SigMalformed (sig_decode m sig)"

definition comment_or_wrong :: "('key, 'sig) minisign \<Rightarrow> 'sig \<Rightarrow> update_error + version" where
  "comment_or_wrong m sig =
     (case comment_version (trusted_comment m sig) of
        Some v \<Rightarrow> Inr v | None \<Rightarrow> Inl (WrongComment (trusted_comment m sig)))"

definition announced :: "('key, 'sig) minisign \<Rightarrow> string \<Rightarrow> update_error + version" where
  "announced m sig = rbind (decode_sig m sig) (comment_or_wrong m)"

definition verify_update ::
  "('key, 'sig) minisign \<Rightarrow> string \<Rightarrow> bytes \<Rightarrow> string \<Rightarrow> version \<Rightarrow> update_error + version" where
  "verify_update m public_key exe sig running =
     rbind (map_err KeyMalformed (key_from_base64 m public_key)) (\<lambda>key.
     rbind (decode_sig m sig) (\<lambda>s.
     rbind (map_err DoesNotVerify (key_verify m key exe s False)) (\<lambda>_.
     rbind (comment_or_wrong m s) (\<lambda>v.
       if v \<le> running then Inl (NotNewer v running) else Inr v))))"

section \<open>Lemmas\<close>

lemma release_key_value: "release_key = ''RWQ5rvRzRSb/Zgq2f/7NOM1j81uGcUPUoNSNxl1HUnqWFafv1xuhkRV5''"
  by code_simp

lemma map_err_Inr_iff [result_simps]: "map_err f r = Inr x \<longleftrightarrow> r = Inr x"
  by (cases r) (simp_all add: map_err_def)

lemma next_part_Some:
  "next_part parts = Some (n, rest) \<longleftrightarrow> parts = show_u64 n # rest \<and> unat n < 10 ^ 19"
proof -
  have can: "p \<noteq> [] \<and> length p \<le> 19 \<and> list_all is_digit p \<and> (p = ''0'' \<or> hd p \<noteq> CHR ''0'')
      \<longleftrightarrow> canonical p \<and> length p \<le> 19" for p
    by (auto simp: canonical_def)
  have "(if canonical p \<and> length p \<le> 19 then map_option (\<lambda>n. (n, rest')) (parse_u64 p) else None)
        = Some (n, rest) \<longleftrightarrow> p = show_u64 n \<and> rest' = rest \<and> unat n < 10 ^ 19" for p rest'
  proof (cases "canonical p \<and> length p \<le> 19")
    case True
    then obtain k where p: "p = dec_string k" by (auto simp: canonical_iff)
    with True have k: "k < 10 ^ 19" using length_dec_string [of 19 k] by simp
    then have "k < 2 ^ 64" by simp
    then have "parse_u64 p = Some (word_of_nat k)" "unat (word_of_nat k :: u64) = k"
      using parse_u64_digits [OF dec_string_digits, of k] p by (simp_all add: unat_of_nat_u64)
    with True p k show ?thesis
      by (auto simp: show_u64_def)
  next
    case False
    then show ?thesis
      using dec_string_canonical [of "unat n"] length_dec_string [of 19 "unat n"]
      by (auto simp: show_u64_def)
  qed
  then show ?thesis
    unfolding next_part_def can by (cases parts) simp_all
qed

lemma show_u64_clean: "c \<in> set (show_u64 n) \<Longrightarrow> is_digit c"
  using dec_string_digits by (auto simp: show_u64_def list_all_iff)

lemma digit_not_punct: "\<not> is_digit (CHR ''.'')" "\<not> is_digit (CHR '';'')" "\<not> is_digit (CHR '' '')"
  by (simp_all add: is_digit_def)

lemma split_version:
  "split_on (\<lambda>c. c = CHR ''.'') s = [show_u64 a, show_u64 b, show_u64 c]
     \<longleftrightarrow> s = version_show (Version a b c)"
proof
  assume "split_on (\<lambda>c. c = CHR ''.'') s = [show_u64 a, show_u64 b, show_u64 c]"
  with split_on_join [of "CHR ''.''" s] show "s = version_show (Version a b c)"
    by (simp add: version_show_def)
next
  have clean: "\<forall>d \<in> set (show_u64 n). d \<noteq> CHR ''.''" for n
    using show_u64_clean digit_not_punct by blast
  assume "s = version_show (Version a b c)"
  then show "split_on (\<lambda>c. c = CHR ''.'') s = [show_u64 a, show_u64 b, show_u64 c]"
    using clean by (simp add: version_show_def split_on_append split_on_clean)
qed

lemma version_parse_Some:
  "version_parse s = Some v \<longleftrightarrow> version_ok v \<and> s = version_show v"
proof -
  obtain a b c where v: "v = Version a b c" by (cases v)
  have "version_parse s = Some v \<longleftrightarrow>
      split_on (\<lambda>c. c = CHR ''.'') s = [show_u64 a, show_u64 b, show_u64 c] \<and> version_ok v"
    unfolding version_parse_def v
    by (auto simp: Option.bind_eq_Some_conv next_part_Some version_ok_def split: if_splits)
  then show ?thesis unfolding split_version v by blast
qed

lemma running_parses: "running_version = Some (Version 0 3 2)"
proof -
  have "dec_string 0 = ''0''" "dec_string 3 = ''3''" "dec_string 2 = ''2''" by code_simp+
  then show ?thesis
    by (simp add: running_version_def version_parse_Some version_ok_def version_show_def
        show_u64_def VERSION_def)
qed

interpretation ver: text_codec version_show version_parse version_ok
  by unfold_locales (simp_all add: version_parse_Some)

definition comment_show :: "version \<Rightarrow> string" where
  "comment_show v = ''btrfs-peek '' @ version_show v @ '' '' @ TARGET"

lemma version_show_clean:
  "c \<in> set (version_show v) \<Longrightarrow> is_digit c \<or> c = CHR ''.''"
  using show_u64_clean by (auto simp: version_show_def)

lemma version_show_no: "CHR '' '' \<notin> set (version_show v)" "CHR '';'' \<notin> set (version_show v)"
  using version_show_clean digit_not_punct by force+

lemma comment_version_Some:
  "comment_version c = Some v \<longleftrightarrow> version_ok v \<and> c = comment_show v"
  unfolding comment_version_def comment_show_def
  by (auto simp: Option.bind_eq_Some_conv strip_prefix_Some split_once_char version_parse_Some
      version_show_no split: if_splits)

interpretation comment: text_codec comment_show comment_version version_ok
  by unfold_locales (simp_all add: comment_version_Some)

lemma installed_version_Some:
  "installed_version r = Some v \<longleftrightarrow>
     version_ok v \<and> (\<exists>rest. r = UPDATED_TO @ version_show v @ '';'' @ rest)"
  unfolding installed_version_def
  by (auto simp: Option.bind_eq_Some_conv strip_prefix_Some split_once_char version_parse_Some
      version_show_no)

section \<open>Properties\<close>

text \<open>
  A version has exactly one spelling: a string parses as a version if and only if it is
  the version's own printed form with at most nineteen digits in each part; so no prefix,
  suffix, sign or leading zero is accepted.
\<close>

theorem version_spelling:
  "version_parse s = Some v \<longleftrightarrow> version_ok v \<and> s = version_show v"
  by (rule ver.parse_iff)

text \<open>
  The client reads the installed version back out of the service's reply, and out of the
  up-to-date reply none.
\<close>

theorem replies_read_back:
  assumes "version_ok v"
  shows "installed_version (update_show (Installed v)) = Some v
    \<and> installed_version (update_show (UpToDate v)) = None"
proof -
  have "strip_prefix UPDATED_TO (update_show (UpToDate v)) = None"
    by (simp add: UPDATED_TO_def strip_prefix_def)
  then have "installed_version (update_show (UpToDate v)) = None"
    by (simp add: installed_version_def del: update_show.simps)
  moreover have "installed_version (update_show (Installed v)) = Some v"
    using assms by (simp add: installed_version_Some)
  ultimately show ?thesis by blast
qed

theorem replies_read_back_witness:
  "installed_version ''updated to 0.4.10; restarting when idle'' = Some (Version 0 4 10)
   \<and> installed_version ''up to date (0.4.10)'' = None"
proof -
  have show_it: "version_show (Version 0 4 10) = ''0.4.10''" by code_simp
  have "version_ok (Version 0 4 10)" by (simp add: version_ok_def)
  from replies_read_back [OF this] show ?thesis
    by (simp add: show_it UPDATED_TO_def)
qed

text \<open>
  C24: An update is accepted exactly when the key and the signature decode, the signature
  verifies over these very bytes with the legacy algorithm refused, the trusted comment is
  \<open>btrfs-peek X.Y.Z windows-x86_64\<close> and nothing else, and that version is strictly newer
  than the one running; the version returned is the one in the signed comment.
\<close>

theorem verify_update_accepts:
  "verify_update m public_key exe sig running = Inr v \<longleftrightarrow>
     (\<exists>key s. key_from_base64 m public_key = Inr key \<and> sig_decode m sig = Inr s
        \<and> key_verify m key exe s False = Inr ()
        \<and> trusted_comment m s = ''btrfs-peek '' @ version_show v @ '' windows-x86_64''
        \<and> version_ok v \<and> running < v)"
proof -
  have comment: "comment_or_wrong m s = Inr v \<longleftrightarrow>
      trusted_comment m s = ''btrfs-peek '' @ version_show v @ '' windows-x86_64'' \<and> version_ok v" for s
    using comment_version_Some [of "trusted_comment m s" v]
    by (auto simp: comment_or_wrong_def comment_show_def TARGET_def split: option.split)
  have last: "(\<exists>w. r = Inr w \<and> (if w \<le> running then Inl (NotNewer w running) else Inr w) = Inr v)
      \<longleftrightarrow> r = Inr v \<and> running < v" for r :: "update_error + version"
    by (cases r) (auto simp: not_le)
  have unit: "(\<exists>u :: unit. r = Inr u \<and> P) \<longleftrightarrow> r = Inr () \<and> P" for r :: "'e + unit" and P
    by simp
  show ?thesis
    unfolding verify_update_def decode_sig_def rbind_Inr_iff map_err_Inr_iff unit last comment
    by blast
qed

end
