(* ===== verification/Helper.thy ===== *)
theory Helper
  imports Update Sinks Device Disk
begin

text \<open>
  The helper's protocol (src/helper.rs): the service's side and the client's, over a stream
  of bytes, and what the service opens.  The stream is what the two sides make of it: the
  events its reads meet, and the bytes written.  Whether a write fails is up to a parameter.
\<close>

section \<open>Constants\<close>

definition PROTOCOL :: u8 where [simp]: "PROTOCOL = 1"

definition OPEN :: u8 where [simp]: "OPEN = 1"
definition READ :: u8 where [simp]: "READ = 2"
definition UPDATE :: u8 where [simp]: "UPDATE = 3"

definition OK :: u8 where [simp]: "OK = 0"
definition NOT_FOUND :: u8 where [simp]: "NOT_FOUND = 1"
definition REFUSED :: u8 where [simp]: "REFUSED = 2"
definition ERROR :: u8 where [simp]: "ERROR = 3"

definition MAX_PATH :: nat where [simp]: "MAX_PATH = 1024"
definition MAX_READ :: nat where [simp]: "MAX_READ = 4194304"
definition MAX_MESSAGE :: nat where [simp]: "MAX_MESSAGE = 65536"

section \<open>What may be asked for\<close>

definition number_ok :: "string \<Rightarrow> bool" where
  "number_ok n \<longleftrightarrow>
     1 \<le> length n \<and> length n \<le> 3 \<and> list_all is_digit n \<and> (n = ''0'' \<or> take 1 n \<noteq> ''0'')"

text \<open>The prefix is \<open>\\.\harddisk\<close>; a backslash is written by its code.\<close>

definition HARDDISK :: string where
  "HARDDISK = [CHR 0x5C, CHR 0x5C, CHR ''.'', CHR 0x5C] @ ''harddisk''"

definition partition_path_ok :: "string \<Rightarrow> bool" where
  "partition_path_ok p =
     (case strip_prefix HARDDISK (map ascii_lower p) of
        None \<Rightarrow> False
      | Some rest \<Rightarrow>
          (case split_once ''partition'' rest of
             None \<Rightarrow> False
           | Some (dsk, part) \<Rightarrow> number_ok dsk \<and> number_ok part \<and> part \<noteq> ''0''))"

definition sid_ok :: "string \<Rightarrow> bool" where
  "sid_ok sid \<longleftrightarrow>
     length sid < 200 \<and> 4 < length sid \<and> take 4 sid = ''S-1-''
     \<and> list_all (\<lambda>c. is_digit c \<or> c = CHR ''-'') (drop 4 sid)"

datatype (plugins only: code size) refusal = NotFound string | Refused string | Failed string

fun refusal_status :: "refusal \<Rightarrow> u8" where
  "refusal_status (NotFound m) = NOT_FOUND"
| "refusal_status (Refused m) = REFUSED"
| "refusal_status (Failed m) = ERROR"

fun refusal_message :: "refusal \<Rightarrow> string" where
  "refusal_message (NotFound m) = m"
| "refusal_message (Refused m) = m"
| "refusal_message (Failed m) = m"

text \<open>
  The superblock is read in as many pieces as the system gives it in; every call spends a
  unit of fuel, and \<open>None\<close> is having been interrupted more often than that.
\<close>

fun super_loop :: "nat \<Rightarrow> reader \<Rightarrow> nat \<Rightarrow> bytes \<Rightarrow> (io_error + bytes) option" where
  "super_loop fuel rd k got =
     (if length got < SUPER_SIZE then
        (case fuel of
           0 \<Rightarrow> None
         | Suc fuel' \<Rightarrow>
             (case rd k (SUPER_OFFSET + word_of_nat (length got)) (SUPER_SIZE - length got) of
                Inr [] \<Rightarrow> Some (Inr got)
              | Inr (b # bs) \<Rightarrow> super_loop fuel' rd (Suc k) (got @ b # bs)
              | Inl e \<Rightarrow>
                  if io_kind e = IoInterrupted then super_loop fuel' rd (Suc k) got
                  else Some (Inl e)))
      else Some (Inr got))"

declare super_loop.simps [simp del]

text \<open>
  The error for \<open>None\<close> is the model's: the source would go on asking a system that interrupts
  every call.
\<close>

definition open_partition ::
  "(bytes \<Rightarrow> u32) \<Rightarrow> nat \<Rightarrow> (string \<Rightarrow> io_error + reader) \<Rightarrow> string \<Rightarrow> refusal + reader" where
  "open_partition crc retries file_open path =
     (if \<not> partition_path_ok path then
        Inl (Refused (path @ '': the helper opens only partitions named ''
        @ [CHR 0x5C, CHR 0x5C, CHR ''.'', CHR 0x5C] @ ''HarddiskNPartitionM (M >= 1)''))
      else
        (case file_open path of
           Inl e \<Rightarrow>
             Inl (if io_kind e = IoNotFound then NotFound (path @ '': no such partition'')
                  else Failed (path @ '': '' @ io_message e))
         | Inr file \<Rightarrow>
             (case super_loop (SUPER_SIZE + retries) file 0 [] of
                None \<Rightarrow> Inl (Failed (path @ '': interrupted''))
              | Some (Inl e) \<Rightarrow> Inl (Failed (path @ '': '' @ io_message e))
              | Some (Inr sb) \<Rightarrow>
                  if length sb < SUPER_SIZE \<or> \<not> is_ok (superblock_parse crc sb) then
                    Inl (Refused (path @ '': not a btrfs partition''))
                  else Inr file)))"

section \<open>The stream\<close>

datatype (plugins only: code size) event = Byte u8 | Interrupted | Broken io_error

text \<open>What is to be read, up to the other side's hanging up, and what has been written.\<close>

record conn =
  cn_in :: "event list"
  cn_out :: bytes

text \<open>Given what was written so far and what is to be, the error if it fails.\<close>

type_synonym writer = "bytes \<Rightarrow> bytes \<Rightarrow> io_error option"

definition write_all :: "writer \<Rightarrow> bytes \<Rightarrow> ('z conn_scheme, unit) eff" where
  "write_all wr msg =
     (\<lambda>c. case wr (cn_out c) msg of
        None \<Rightarrow> (Inr (), c\<lparr>cn_out := cn_out c @ msg\<rparr>)
      | Some e \<Rightarrow> (Inl (Io e), c))"

definition respond :: "writer \<Rightarrow> u8 \<Rightarrow> bytes \<Rightarrow> ('z conn_scheme, unit) eff" where
  "respond wr status payload =
     write_all wr (status # to_le_bytes (word_of_nat (length payload) :: u32) @ payload)"

fun next_byte :: "event list \<Rightarrow> (err + u8 option) \<times> event list" where
  "next_byte [] = (Inr None, [])"
| "next_byte (Byte b # es) = (Inr (Some b), es)"
| "next_byte (Interrupted # es) = next_byte es"
| "next_byte (Broken e # es) = (Inl (Io e), es)"

definition read_byte :: "('z conn_scheme, u8 option) eff" where
  "read_byte = (\<lambda>c. case next_byte (cn_in c) of (r, es) \<Rightarrow> (r, c\<lparr>cn_in := es\<rparr>))"

definition hung_up :: io_error where
  "hung_up = IoError IoUnexpectedEof ''failed to fill whole buffer''"

text \<open>\<open>Read::read_exact\<close>\<close>

fun next_bytes :: "nat \<Rightarrow> event list \<Rightarrow> (err + bytes) \<times> event list" where
  "next_bytes 0 es = (Inr [], es)"
| "next_bytes (Suc n) [] = (Inl (Io hung_up), [])"
| "next_bytes (Suc n) (Byte b # es) =
     (case next_bytes n es of
        (Inl e, es') \<Rightarrow> (Inl e, es')
      | (Inr bs, es') \<Rightarrow> (Inr (b # bs), es'))"
| "next_bytes (Suc n) (Interrupted # es) = next_bytes (Suc n) es"
| "next_bytes (Suc n) (Broken e # es) = (Inl (Io e), es)"

definition read_exact :: "nat \<Rightarrow> ('z conn_scheme, bytes) eff" where
  "read_exact n = (\<lambda>c. case next_bytes n (cn_in c) of (r, es) \<Rightarrow> (r, c\<lparr>cn_in := es\<rparr>))"

definition read_u32 :: "('z conn_scheme, u32) eff" where
  "read_u32 = sbind (read_exact 4) (\<lambda>b. sret (from_le_bytes b))"

definition read_u64 :: "('z conn_scheme, u64) eff" where
  "read_u64 = sbind (read_exact 8) (\<lambda>b. sret (from_le_bytes b))"

section \<open>The service's side\<close>

datatype (plugins only: code size) ended = Closed | Updated

record handlers =
  h_open :: "string \<Rightarrow> refusal + reader"
  h_update :: "nat \<Rightarrow> io_error + update"   \<comment> \<open>given the updates asked for before\<close>

record server = conn +
  sv_file :: "reader option"
  sv_reads :: nat
  sv_updates :: nat

definition accepted :: "event list \<Rightarrow> server" where
  "accepted es = \<lparr>cn_in = es, cn_out = [], sv_file = None, sv_reads = 0, sv_updates = 0\<rparr>"

type_synonym 'a serving = "(server, 'a) eff"

definition answer :: "writer \<Rightarrow> u8 \<Rightarrow> string \<Rightarrow> ended option serving" where
  "answer wr status msg = sbind (respond wr status (as_bytes msg)) (\<lambda>_. sret None)"

definition answer_and_close :: "writer \<Rightarrow> string \<Rightarrow> ended option serving" where
  "answer_and_close wr msg = sbind (respond wr ERROR (as_bytes msg)) (\<lambda>_. sret (Some Closed))"

definition serve_open :: "writer \<Rightarrow> handlers \<Rightarrow> ended option serving" where
  "serve_open wr h =
     sbind read_u32 (\<lambda>n.
     let len = unat n in
     if MAX_PATH < len then
       answer_and_close wr (''path longer than '' @ dec_string MAX_PATH @ '' bytes'')
     else
       sbind (read_exact len) (\<lambda>path.
       sbind (sget sv_file) (\<lambda>file.
       case file of
         Some _ \<Rightarrow> answer wr ERROR ''a device is already open on this connection''
       | None \<Rightarrow>
           (case from_utf8 path of
              None \<Rightarrow> answer wr ERROR ''the path is not UTF-8''
            | Some p \<Rightarrow>
                (case h_open h p of
                   Inr f \<Rightarrow>
                     sbind (smodify (\<lambda>s. s\<lparr>sv_file := Some f\<rparr>)) (\<lambda>_. answer wr OK [])
                 | Inl r \<Rightarrow> answer wr (refusal_status r) (refusal_message r))))))"

definition serve_read :: "writer \<Rightarrow> ended option serving" where
  "serve_read wr =
     sbind read_u64 (\<lambda>off.
     sbind read_u32 (\<lambda>n.
     let len = unat n in
     if MAX_READ < len then
       answer wr ERROR (''reads are at most '' @ dec_string MAX_READ @ '' bytes'')
     else
       sbind (sget (\<lambda>s. (sv_file s, sv_reads s))) (\<lambda>(file, k).
       case file of
         None \<Rightarrow> answer wr ERROR ''READ before OPEN''
       | Some f \<Rightarrow>
           sbind (smodify (\<lambda>s. s\<lparr>sv_reads := Suc k\<rparr>)) (\<lambda>_.
           case f k off len of
             Inr dat \<Rightarrow>
               sbind (write_all wr (OK # to_le_bytes (word_of_nat (length dat) :: u32))) (\<lambda>_.
               sbind (write_all wr dat) (\<lambda>_. sret None))
           | Inl e \<Rightarrow> answer wr ERROR (io_message e)))))"

definition serve_update :: "writer \<Rightarrow> handlers \<Rightarrow> ended option serving" where
  "serve_update wr h =
     sbind (sget sv_updates) (\<lambda>k.
     sbind (smodify (\<lambda>s. s\<lparr>sv_updates := Suc k\<rparr>)) (\<lambda>_.
     case h_update h k of
       Inr u \<Rightarrow>
         sbind (respond wr OK (as_bytes (update_show u))) (\<lambda>_.
         sret (case u of Installed _ \<Rightarrow> Some Updated | UpToDate _ \<Rightarrow> None))
     | Inl e \<Rightarrow> answer wr ERROR (io_message e)))"

definition serve_op :: "writer \<Rightarrow> handlers \<Rightarrow> u8 \<Rightarrow> ended option serving" where
  "serve_op wr h op =
     (if op = OPEN then serve_open wr h
      else if op = READ then serve_read wr
      else if op = UPDATE then serve_update wr h
      else answer_and_close wr (''unknown operation '' @ dec_string (unat op)))"

text \<open>Every operation only takes from what is to be read, so the loop ends.\<close>

definition reads_on :: "server \<Rightarrow> server \<Rightarrow> bool" where
  "reads_on s t \<longleftrightarrow> length (cn_in t) \<le> length (cn_in s)"

interpretation reads_on: progress reads_on
  by unfold_locales (simp_all add: reads_on_def)

lemma next_bytes_length: "length (snd (next_bytes n es)) \<le> length es"
  by (induction n es rule: next_bytes.induct) (auto split: prod.splits sum.splits)

lemma next_byte_length: "next_byte es = (Inr (Some b), es') \<Longrightarrow> length es' < length es"
  by (induction es rule: next_byte.induct) auto

lemma reads_on_read_exact: "moves reads_on (read_exact n)"
  using next_bytes_length [of n] by (simp add: moves_def read_exact_def reads_on_def split_beta)

lemma reads_on_write_all: "moves reads_on (write_all wr msg)"
  by (simp add: moves_def write_all_def reads_on_def split: option.split)

lemma reads_on_answer: "moves reads_on (answer wr st msg)" "moves reads_on (answer_and_close wr msg)"
  unfolding answer_def answer_and_close_def respond_def
  by (intro reads_on.moves_rules reads_on_write_all)+

lemma reads_on_op: "moves reads_on (serve_op wr h op)"
  unfolding serve_op_def serve_open_def serve_read_def serve_update_def read_u32_def read_u64_def
    respond_def
  by (intro reads_on.moves_rules reads_on.moves_modify reads_on_read_exact reads_on_write_all
      reads_on_answer) (simp_all add: reads_on_def)

function serve_loop :: "writer \<Rightarrow> handlers \<Rightarrow> server \<Rightarrow> (err + ended) \<times> server" where
  "serve_loop wr h s =
     (case read_byte s of
        (Inl e, s1) \<Rightarrow> (Inl e, s1)
      | (Inr None, s1) \<Rightarrow> (Inr Closed, s1)
      | (Inr (Some op), s1) \<Rightarrow>
          (case serve_op wr h op s1 of
             (Inl e, s2) \<Rightarrow> (Inl e, s2)
           | (Inr (Some ended), s2) \<Rightarrow> (Inr ended, s2)
           | (Inr None, s2) \<Rightarrow> serve_loop wr h s2))"
  by pat_completeness auto
termination
proof (relation "measure (\<lambda>(wr, h, s). length (cn_in s))")
  fix wr :: writer and h :: handlers and s s1 s2 :: server and op x y z u v
  assume "(x, s1) = read_byte s" and "x = Inr y" and "y = Some op"
    and "(z, s2) = serve_op wr h op s1" and "z = Inr u" and "u = None"
  then have "length (cn_in s1) < length (cn_in s)"
    by (auto simp: read_byte_def split: prod.splits dest!: next_byte_length)
  moreover have "reads_on s1 s2"
    using reads_on_op [of wr h op] \<open>(z, s2) = serve_op wr h op s1\<close> by (metis moves_def snd_conv)
  ultimately show "((wr, h, s2), wr, h, s) \<in> measure (\<lambda>(wr, h, s). length (cn_in s))"
    by (simp add: reads_on_def)
qed simp

declare serve_loop.simps [simp del]

definition serve_client :: "writer \<Rightarrow> handlers \<Rightarrow> ended serving" where
  "serve_client wr h =
     sbind read_byte (\<lambda>p.
     case p of
       None \<Rightarrow> sret Closed
     | Some proto \<Rightarrow>
         if proto \<noteq> PROTOCOL then
           sbind (respond wr ERROR
             (as_bytes (''this helper speaks protocol '' @ dec_string (unat PROTOCOL)
                @ '', the client '' @ dec_string (unat proto)
                @ '': install the helper again with the same btrfs-peek''))) (\<lambda>_. sret Closed)
         else sbind (respond wr OK (as_bytes VERSION)) (\<lambda>_. serve_loop wr h))"

section \<open>The client's side\<close>

definition status_error :: "u8 \<Rightarrow> string \<Rightarrow> io_error" where
  "status_error status msg =
     (if status = NOT_FOUND then IoError IoNotFound msg
      else if status = REFUSED then IoError IoInvalidData (''the helper refused: '' @ msg)
      else if status = ERROR then IoError IoOther msg
      else IoError IoInvalidData (''the helper sent an unknown status '' @ dec_string (unat status)))"

definition header :: "('z conn_scheme, u8 \<times> nat) eff" where
  "header =
     sbind (read_exact 5) (\<lambda>h.
     sret (hd h, unat (from_le_bytes (take 4 (drop 1 h)) :: u32)))"

definition message :: "nat \<Rightarrow> ('z conn_scheme, string) eff" where
  "message n =
     (if MAX_MESSAGE < n then
        sthrow (Io (IoError IoInvalidData (''the helper sent a '' @ dec_string n @ ''-byte message'')))
      else sbind (read_exact n) (\<lambda>b. sret (from_utf8_lossy b)))"

definition reply :: "('z conn_scheme, bytes) eff" where
  "reply =
     sbind header (\<lambda>(status, n).
     sbind (message n) (\<lambda>msg.
     if status \<noteq> OK then sthrow (Io (status_error status msg)) else sret (as_bytes msg)))"

definition session_start :: "writer \<Rightarrow> ('z conn_scheme, string) eff" where
  "session_start wr =
     sbind (write_all wr [PROTOCOL]) (\<lambda>_.
     sbind reply (\<lambda>version. sret (from_utf8_lossy version)))"

definition session_open :: "writer \<Rightarrow> string \<Rightarrow> ('z conn_scheme, unit) eff" where
  "session_open wr path =
     (if MAX_PATH < length path then
        sthrow (Io (IoError IoInvalidInput (''path longer than '' @ dec_string MAX_PATH @ '' bytes'')))
      else
        sbind (write_all wr
          (OPEN # to_le_bytes (word_of_nat (length path) :: u32) @ as_bytes path)) (\<lambda>_.
        sbind reply (\<lambda>_. sret ())))"

text \<open>The result is what is put at the head of a buffer of \<open>buf_len\<close> bytes.\<close>

definition session_read_at :: "writer \<Rightarrow> nat \<Rightarrow> u64 \<Rightarrow> ('z conn_scheme, bytes) eff" where
  "session_read_at wr buf_len off =
     (let len = min buf_len MAX_READ in
      sbind (write_all wr (READ # to_le_bytes off @ to_le_bytes (word_of_nat len :: u32))) (\<lambda>_.
      sbind header (\<lambda>(status, n).
      if status \<noteq> OK then sbind (message n) (\<lambda>msg. sthrow (Io (status_error status msg)))
      else if len < n then
        sthrow (Io (IoError IoInvalidData
          (''the helper sent '' @ dec_string n @ '' bytes for a read of '' @ dec_string len)))
      else read_exact n)))"

definition session_update ::
  "writer \<Rightarrow> string \<Rightarrow> ('z conn_scheme, string \<times> version option) eff" where
  "session_update wr version =
     sbind (write_all wr [UPDATE]) (\<lambda>_.
     sbind (stry reply) (\<lambda>r.
     case r of
       Inr b \<Rightarrow> (let text = from_utf8_lossy b in sret (text, installed_version text))
     | Inl (Io e) \<Rightarrow>
         if io_message e = ''unknown operation '' @ dec_string (unat UPDATE) then
           sthrow (Io (IoError IoOther (''this helper ('' @ version
             @ '') predates self-update; run `btrfs-peek helper install` from an elevated terminal once more'')))
         else sthrow (Io e)
     | Inl e \<Rightarrow> sthrow e))"

end
