(* ===== verification/Helper_Facts.thy ===== *)
theory Helper_Facts
  imports Helper
begin

text \<open>
  What the helper gives its client: exactly the partitions that may be named, and over the
  stream what the service would give it directly, request for request.
\<close>

section \<open>Partition paths\<close>

lemma number_ok_iff: "number_ok n \<longleftrightarrow> (\<exists>k < 1000. n = dec_string k)"
proof -
  have one: "take 1 n = ''0'' \<longleftrightarrow> n \<noteq> [] \<and> hd n = CHR ''0''" by (cases n) auto
  have "number_ok n \<longleftrightarrow> canonical n \<and> length n \<le> 3"
    unfolding number_ok_def canonical_def one by (cases n) auto
  also have "\<dots> \<longleftrightarrow> (\<exists>k < 1000. n = dec_string k)"
    using length_dec_string [of 3] by (auto simp: canonical_iff)
  finally show ?thesis .
qed

lemma split_once_digits:
  assumes "list_all is_digit d" and "sep \<noteq> []" and "\<not> is_digit (hd sep)"
  shows "split_once sep (d @ sep @ r) = Some (d, r)"
  using assms(1)
proof (induction d)
  case Nil
  obtain c cs where "sep = c # cs" using assms(2) by (cases sep) auto
  moreover have "strip_prefix sep (sep @ r) = Some r" by (simp add: strip_prefix_Some)
  ultimately show ?case by simp
next
  case (Cons c d)
  have "strip_prefix sep (c # d @ sep @ r) = None"
  proof (rule ccontr)
    assume "strip_prefix sep (c # d @ sep @ r) \<noteq> None"
    then obtain t where "c # d @ sep @ r = sep @ t" by (auto simp: strip_prefix_Some)
    with assms(2,3) Cons.prems show False by (cases sep) auto
  qed
  with Cons show ?case by simp
qed

lemma split_partition: "list_all is_digit d \<Longrightarrow> split_once ''partition'' (d @ ''partition'' @ r) = Some (d, r)"
  by (rule split_once_digits) (simp_all add: is_digit_def)

text \<open>
  C28: The service opens exactly the paths that, letter case aside, are
  \<open>\\.\harddisk\<close>\<open>d\<close>\<open>partition\<close>\<open>m\<close> for decimal numbers \<open>d\<close> below 1000 and \<open>m\<close> from 1 to 999 in
  their usual spelling: never a whole disk (partition 0), and nothing before, between or after.
\<close>

theorem partition_paths:
  "partition_path_ok p \<longleftrightarrow>
     (\<exists>d m. d < 1000 \<and> 0 < m \<and> m < 1000
        \<and> map ascii_lower p = HARDDISK @ dec_string d @ ''partition'' @ dec_string m)"
proof
  assume "partition_path_ok p"
  then obtain rest dsk part where
      "map ascii_lower p = HARDDISK @ rest" "split_once ''partition'' rest = Some (dsk, part)"
      "number_ok dsk" "number_ok part" "part \<noteq> ''0''"
    by (auto simp: partition_path_ok_def strip_prefix_Some split: option.splits)
  moreover then obtain d m where "dsk = dec_string d" "part = dec_string m" "d < 1000" "m < 1000"
    by (auto simp: number_ok_iff)
  moreover then have "0 < m" using \<open>part \<noteq> ''0''\<close> dec_string_zero by (cases m) auto
  ultimately show "\<exists>d m. d < 1000 \<and> 0 < m \<and> m < 1000
      \<and> map ascii_lower p = HARDDISK @ dec_string d @ ''partition'' @ dec_string m"
    using split_once_Some [of "''partition''" rest dsk part]
    by (intro exI [of _ d] exI [of _ m]) simp
next
  assume "\<exists>d m. d < 1000 \<and> 0 < m \<and> m < 1000
      \<and> map ascii_lower p = HARDDISK @ dec_string d @ ''partition'' @ dec_string m"
  then obtain d m where dm: "d < 1000" "0 < m" "m < 1000"
      "map ascii_lower p = HARDDISK @ dec_string d @ ''partition'' @ dec_string m"
    by blast
  then have "strip_prefix HARDDISK (map ascii_lower p) = Some (dec_string d @ ''partition'' @ dec_string m)"
    by (simp only: strip_prefix_Some)
  moreover have "dec_string m \<noteq> ''0''" using dm(2) dec_string_zero dec_string_inject [of m 0] by auto
  ultimately show "partition_path_ok p"
    using dm(1,3) split_partition [OF dec_string_digits]
    by (auto simp: partition_path_ok_def number_ok_iff)
qed

section \<open>The stream\<close>

lemma next_bytes_Byte: "next_bytes (length b) (map Byte b @ es) = (Inr b, es)"
  by (induction b) simp_all

lemma read_exact_Byte:
  "cn_in c = map Byte b @ es \<Longrightarrow> length b = n \<Longrightarrow> read_exact n c = (Inr b, c\<lparr>cn_in := es\<rparr>)"
  using next_bytes_Byte [of b es] by (auto simp: read_exact_def)

lemma read_u32_Byte:
  "cn_in c = map Byte (to_le_bytes (w :: u32)) @ es \<Longrightarrow> read_u32 c = (Inr w, c\<lparr>cn_in := es\<rparr>)"
  by (simp add: read_u32_def sbind_def read_exact_Byte [of c "to_le_bytes w"] le32.dec_enc)

lemma read_u64_Byte:
  "cn_in c = map Byte (to_le_bytes (w :: u64)) @ es \<Longrightarrow> read_u64 c = (Inr w, c\<lparr>cn_in := es\<rparr>)"
  by (simp add: read_u64_def sbind_def read_exact_Byte [of c "to_le_bytes w"] le64.dec_enc)

lemma read_byte_Byte: "cn_in c = Byte b # es \<Longrightarrow> read_byte c = (Inr (Some b), c\<lparr>cn_in := es\<rparr>)"
  by (simp add: read_byte_def)

lemma read_byte_Nil: "cn_in c = [] \<Longrightarrow> read_byte c = (Inr None, c)"
  by (simp add: read_byte_def)

text \<open>A stream whose writes succeed.\<close>

definition clear :: writer where
  "clear out msg = None"

lemma write_all_clear: "write_all clear msg c = (Inr (), c\<lparr>cn_out := cn_out c @ msg\<rparr>)"
  by (simp add: write_all_def clear_def)

section \<open>Requests and responses\<close>

datatype (plugins only: code size) request = Open string | Read u64 nat | Update

fun encode_request :: "request \<Rightarrow> bytes" where
  "encode_request (Open p) = OPEN # to_le_bytes (word_of_nat (length p) :: u32) @ as_bytes p"
| "encode_request (Read off n) =
     READ # to_le_bytes off @ to_le_bytes (word_of_nat (min n MAX_READ) :: u32)"
| "encode_request Update = [UPDATE]"

fun encode_response :: "u8 \<times> bytes \<Rightarrow> bytes" where
  "encode_response (status, b) = status # to_le_bytes (word_of_nat (length b) :: u32) @ b"

text \<open>What a client of the service's own process would get: no stream, no encoding.\<close>

datatype (plugins only: code size) outcome = Opened | Got bytes | Told string "version option"

definition other :: "string \<Rightarrow> err" where
  "other msg = Io (IoError IoOther msg)"

fun refusal_error :: "refusal \<Rightarrow> err" where
  "refusal_error (NotFound m) = Io (IoError IoNotFound m)"
| "refusal_error (Refused m) = Io (IoError IoInvalidData (''the helper refused: '' @ m))"
| "refusal_error (Failed m) = other m"

fun direct :: "handlers \<Rightarrow> request \<Rightarrow> server \<Rightarrow> (err + outcome) \<times> server" where
  "direct h (Open p) s =
     (case sv_file s of
        Some f \<Rightarrow> (Inl (other ''a device is already open on this connection''), s)
      | None \<Rightarrow>
          (case h_open h p of
             Inl r \<Rightarrow> (Inl (refusal_error r), s)
           | Inr f \<Rightarrow> (Inr Opened, s\<lparr>sv_file := Some f\<rparr>)))"
| "direct h (Read off n) s =
     (case sv_file s of
        None \<Rightarrow> (Inl (other ''READ before OPEN''), s)
      | Some f \<Rightarrow>
          (case f (sv_reads s) off (min n MAX_READ) of
             Inl e \<Rightarrow> (Inl (other (io_message e)), s\<lparr>sv_reads := Suc (sv_reads s)\<rparr>)
           | Inr d \<Rightarrow> (Inr (Got d), s\<lparr>sv_reads := Suc (sv_reads s)\<rparr>)))"
| "direct h Update s =
     (case h_update h (sv_updates s) of
        Inl e \<Rightarrow> (Inl (other (io_message e)), s\<lparr>sv_updates := Suc (sv_updates s)\<rparr>)
      | Inr u \<Rightarrow>
          (Inr (Told (update_show u) (installed_version (update_show u))),
           s\<lparr>sv_updates := Suc (sv_updates s)\<rparr>))"

fun direct_all :: "handlers \<Rightarrow> request list \<Rightarrow> server \<Rightarrow> (err + outcome) list" where
  "direct_all h [] s = []"
| "direct_all h (rq # rqs) s = (case direct h rq s of (r, s') \<Rightarrow> r # direct_all h rqs s')"

text \<open>A client: its request as the session's operation.\<close>

fun ask :: "string \<Rightarrow> request \<Rightarrow> (conn, outcome) eff" where
  "ask v (Open p) = sbind (session_open clear p) (\<lambda>_. sret Opened)"
| "ask v (Read off n) = sbind (session_read_at clear n off) (\<lambda>d. sret (Got d))"
| "ask v Update = sbind (session_update clear v) (\<lambda>(t, w). sret (Told t w))"

definition client :: "request list \<Rightarrow> (conn, (err + outcome) list) eff" where
  "client rqs = sbind (session_start clear) (\<lambda>v. smapM (\<lambda>rq. stry (ask v rq)) rqs)"

section \<open>One exchange\<close>

definition text_ok :: "string \<Rightarrow> bool" where
  "text_ok m \<longleftrightarrow> is_utf8 (as_bytes m) \<and> length m \<le> MAX_MESSAGE"

definition reader_ok :: "reader \<Rightarrow> bool" where
  "reader_ok f \<longleftrightarrow>
     (\<forall>k off n. case f k off n of Inr d \<Rightarrow> length d \<le> n | Inl e \<Rightarrow> text_ok (io_message e))"

text \<open>
  What the protocol needs of the handlers: messages are short text, a read returns no more
  than was asked for, and an update that fails says so in words of its own.
\<close>

definition handlers_ok :: "handlers \<Rightarrow> bool" where
  "handlers_ok h \<longleftrightarrow>
     (\<forall>p. is_utf8 (as_bytes p) \<and> length p \<le> MAX_PATH \<longrightarrow>
        (case h_open h p of Inr f \<Rightarrow> reader_ok f | Inl r \<Rightarrow> text_ok (refusal_message r)))
     \<and> (\<forall>k. case h_update h k of
           Inr u \<Rightarrow> (\<exists>v. u = UpToDate v)
         | Inl e \<Rightarrow> text_ok (io_message e) \<and> io_message e \<noteq> ''unknown operation 3'')"

fun request_ok :: "request \<Rightarrow> bool" where
  "request_ok (Open p) \<longleftrightarrow> is_utf8 (as_bytes p) \<and> length p \<le> MAX_PATH"
| "request_ok _ \<longleftrightarrow> True"

lemma reader_okD:
  assumes "reader_ok f"
  shows "f k off n = Inl e \<Longrightarrow> text_ok (io_message e)" and "f k off n = Inr d \<Longrightarrow> length d \<le> n"
  using assms unfolding reader_ok_def by (metis old.sum.simps(5), metis old.sum.simps(6))

lemma lossy_text: "is_utf8 (as_bytes m) \<Longrightarrow> from_utf8_lossy (as_bytes m) = m"
  by (simp add: from_utf8_lossy_def utf8_lossy_id)

lemma from_utf8_text: "is_utf8 (as_bytes m) \<Longrightarrow> from_utf8 (as_bytes m) = Some m"
  by (simp add: from_utf8_def)

lemma text_ok_ascii:
  assumes "list_all (\<lambda>c. (of_char c :: nat) < 128) m" and "length m \<le> MAX_MESSAGE"
  shows "text_ok m"
proof -
  have "(b :: u8) < 0x80" if "b \<in> set (as_bytes m)" for b
  proof -
    from that obtain c where "c \<in> set m" "b = of_char c" by (auto simp: as_bytes_def)
    with assms(1) show ?thesis by (auto simp: list_all_iff word_less_nat_alt unat_of_char)
  qed
  then show ?thesis using assms(2) by (simp add: text_ok_def is_utf8_ascii)
qed

lemma show_u64_text: "list_all (\<lambda>c. (of_char c :: nat) < 128) (show_u64 n)" "length (show_u64 n) \<le> 20"
proof -
  have "is_digit c \<Longrightarrow> (of_char c :: nat) < 128" for c by (simp add: is_digit_def)
  then show "list_all (\<lambda>c. (of_char c :: nat) < 128) (show_u64 n)"
    using show_u64_clean by (auto simp: list_all_iff)
  have "unat n < 10 ^ 20" by (rule less_trans [OF unat_u64_lt]) simp
  then show "length (show_u64 n) \<le> 20" by (simp add: show_u64_def length_dec_string)
qed

lemma update_text: "text_ok (update_show u)"
proof -
  have len: "length (version_show v) \<le> 62" for v
    using show_u64_text(2) [of "v_major v"] show_u64_text(2) [of "v_minor v"]
      show_u64_text(2) [of "v_patch v"] by (simp add: version_show_def)
  have "list_all (\<lambda>c. (of_char c :: nat) < 128) (version_show v)" for v
    using show_u64_text(1) by (simp add: version_show_def)
  with len show ?thesis
    by (cases u) (intro text_ok_ascii; auto simp: UPDATED_TO_def intro: le_trans [OF len])+
qed

lemma header_Byte:
  assumes "cn_in c = map Byte (encode_response (st, b)) @ es" and "length b < 2 ^ 32"
  shows "header c = (Inr (st, length b), c\<lparr>cn_in := map Byte b @ es\<rparr>)"
proof -
  let ?h = "st # to_le_bytes (word_of_nat (length b) :: u32)"
  have "read_exact 5 c = (Inr ?h, c\<lparr>cn_in := map Byte b @ es\<rparr>)"
    using assms(1) by (intro read_exact_Byte) simp_all
  moreover have "unat (word_of_nat (length b) :: u32) = length b"
    using assms(2) by (simp add: unat_of_nat)
  ultimately show ?thesis by (simp add: header_def sbind_def le32.dec_enc)
qed

lemma reply_Byte:
  assumes "cn_in c = map Byte (encode_response (st, as_bytes m)) @ es" and "text_ok m"
  shows "reply c = (if st = OK then Inr (as_bytes m) else Inl (Io (status_error st m)),
    c\<lparr>cn_in := es\<rparr>)"
proof -
  have m: "length m \<le> MAX_MESSAGE" "is_utf8 (as_bytes m)" using assms(2) by (simp_all add: text_ok_def)
  have "header c = (Inr (st, length m), c\<lparr>cn_in := map Byte (as_bytes m) @ es\<rparr>)"
    using header_Byte [OF assms(1)] m(1) by simp
  moreover have "message (length m) (c\<lparr>cn_in := map Byte (as_bytes m) @ es\<rparr>)
      = (Inr m, c\<lparr>cn_in := es\<rparr>)"
    using m read_exact_Byte [of "c\<lparr>cn_in := map Byte (as_bytes m) @ es\<rparr>" "as_bytes m" es]
    by (simp add: message_def sbind_def lossy_text)
  ultimately show ?thesis by (simp add: reply_def sbind_def)
qed

lemma respond_clear:
  "respond clear st b c = (Inr (), c\<lparr>cn_out := cn_out c @ encode_response (st, b)\<rparr>)"
  by (simp add: respond_def write_all_clear)

lemma answer_clear:
  "answer clear st m s = (Inr None, s\<lparr>cn_out := cn_out s @ encode_response (st, as_bytes m)\<rparr>)"
  by (simp add: answer_def sbind_def respond_clear)

text \<open>What the service writes for a request.\<close>

fun response :: "handlers \<Rightarrow> request \<Rightarrow> server \<Rightarrow> u8 \<times> bytes" where
  "response h (Open p) s =
     (case sv_file s of
        Some f \<Rightarrow> (ERROR, as_bytes ''a device is already open on this connection'')
      | None \<Rightarrow>
          (case h_open h p of
             Inl r \<Rightarrow> (refusal_status r, as_bytes (refusal_message r))
           | Inr f \<Rightarrow> (OK, [])))"
| "response h (Read off n) s =
     (case sv_file s of
        None \<Rightarrow> (ERROR, as_bytes ''READ before OPEN'')
      | Some f \<Rightarrow>
          (case f (sv_reads s) off (min n MAX_READ) of
             Inl e \<Rightarrow> (ERROR, as_bytes (io_message e))
           | Inr d \<Rightarrow> (OK, d)))"
| "response h Update s =
     (case h_update h (sv_updates s) of
        Inl e \<Rightarrow> (ERROR, as_bytes (io_message e))
      | Inr u \<Rightarrow> (OK, as_bytes (update_show u)))"

definition file_ok :: "server \<Rightarrow> bool" where
  "file_ok s \<longleftrightarrow> (\<forall>f. sv_file s = Some f \<longrightarrow> reader_ok f)"

lemma direct_file_ok:
  "handlers_ok h \<Longrightarrow> request_ok rq \<Longrightarrow> file_ok s \<Longrightarrow> file_ok (snd (direct h rq s))"
  by (cases rq) (auto simp: file_ok_def handlers_ok_def split: option.splits sum.splits)

lemma direct_conn:
  "direct h rq (s\<lparr>cn_in := i, cn_out := out\<rparr>)
     = (fst (direct h rq s), (snd (direct h rq s))\<lparr>cn_in := i, cn_out := out\<rparr>)"
  "cn_out (snd (direct h rq s)) = cn_out s"
  by (cases rq; simp split: option.split sum.split)+

lemma min_read_u32: "unat (word_of_nat (min n MAX_READ) :: u32) = min n MAX_READ"
  by (simp add: unat_of_nat)

lemma serve_open_clear:
  assumes "request_ok (Open p)" and "cn_in s = map Byte (tl (encode_request (Open p))) @ es"
  shows "serve_op clear h OPEN s = (Inr None,
    (snd (direct h (Open p) s))\<lparr>cn_in := es, cn_out := cn_out s @ encode_response (response h (Open p) s)\<rparr>)"
proof -
  have p: "is_utf8 (as_bytes p)" "length p \<le> 1024" using assms(1) by simp_all
  then have len: "unat (word_of_nat (length p) :: u32) = length p" by (simp add: unat_of_nat)
  let ?s1 = "s\<lparr>cn_in := map Byte (as_bytes p) @ es\<rparr>"
  have "read_u32 s = (Inr (word_of_nat (length p)), ?s1)"
    using assms(2) by (intro read_u32_Byte) simp
  moreover have "read_exact (length p) ?s1 = (Inr (as_bytes p), s\<lparr>cn_in := es\<rparr>)"
    using read_exact_Byte [of ?s1 "as_bytes p" es] by simp
  ultimately show ?thesis
    using p by (simp add: serve_op_def serve_open_def sbind_def Let_def len from_utf8_text
        answer_clear split: option.split sum.split)
      (simp add: as_bytes_def)
qed

lemma serve_read_clear:
  assumes "file_ok s" and "cn_in s = map Byte (tl (encode_request (Read off n))) @ es"
  shows "serve_op clear h READ s = (Inr None,
    (snd (direct h (Read off n) s))\<lparr>cn_in := es, cn_out := cn_out s @ encode_response (response h (Read off n) s)\<rparr>)"
proof -
  let ?n = "word_of_nat (min n MAX_READ) :: u32"
  have "read_u64 s = (Inr off, s\<lparr>cn_in := map Byte (to_le_bytes ?n) @ es\<rparr>)"
    using assms(2) by (intro read_u64_Byte) simp
  moreover have "read_u32 (s\<lparr>cn_in := map Byte (to_le_bytes ?n) @ es\<rparr>) = (Inr ?n, s\<lparr>cn_in := es\<rparr>)"
    using read_u32_Byte [of "s\<lparr>cn_in := map Byte (to_le_bytes ?n) @ es\<rparr>" ?n es] by simp
  moreover have "\<not> MAX_READ < min n MAX_READ" by simp
  ultimately show ?thesis
    unfolding serve_op_def serve_read_def
    by (simp add: sbind_def Let_def min_read_u32 [simplified] answer_clear write_all_clear
        split: option.split sum.split)
qed

lemma serve_update_clear:
  assumes "handlers_ok h" and "cn_in s = es"
  shows "serve_op clear h UPDATE s = (Inr None,
    (snd (direct h Update s))\<lparr>cn_in := es, cn_out := cn_out s @ encode_response (response h Update s)\<rparr>)"
proof (cases "h_update h (sv_updates s)")
  case (Inl e)
  then show ?thesis
    using assms(2) by (simp add: serve_op_def serve_update_def sbind_def answer_clear)
next
  case (Inr u)
  moreover then obtain w where "u = UpToDate w"
    using assms(1) by (auto simp: handlers_ok_def dest!: spec [of _ "sv_updates s"])
  ultimately show ?thesis
    using assms(2) by (simp add: serve_op_def serve_update_def sbind_def respond_clear
        del: update_show.simps)
qed

lemma serve_op_clear:
  assumes "handlers_ok h" and "request_ok rq" and "file_ok s"
    and "cn_in s = map Byte (tl (encode_request rq)) @ es"
  shows "serve_op clear h (hd (encode_request rq)) s = (Inr None,
    (snd (direct h rq s))\<lparr>cn_in := es, cn_out := cn_out s @ encode_response (response h rq s)\<rparr>)"
proof (cases rq)
  case (Open p)
  with serve_open_clear [of p s es h] assms show ?thesis by simp
next
  case (Read off n)
  with serve_read_clear [of s off n es h] assms show ?thesis by simp
next
  case Update
  with serve_update_clear [of h s es] assms show ?thesis by simp
qed

lemma literal_texts:
  "text_ok ''a device is already open on this connection''" "text_ok ''READ before OPEN''" "text_ok []"
  by (intro text_ok_ascii; simp)+

lemma refusal_status_error:
  "refusal_status r \<noteq> OK" "Io (status_error (refusal_status r) (refusal_message r)) = refusal_error r"
  by (cases r; simp add: status_error_def other_def)+

lemma error_other: "Io (status_error ERROR m) = other m"
  by (simp add: status_error_def other_def)

lemma open_payload:
  assumes "handlers_ok h" and "request_ok (Open p)"
  obtains st m where "response h (Open p) s = (st, as_bytes m)" "text_ok m"
    "(if st = OK then Inr Opened else Inl (Io (status_error st m))) = fst (direct h (Open p) s)"
proof (cases "sv_file s")
  case (Some f)
  then show ?thesis
    by (intro that [of ERROR "''a device is already open on this connection''"])
      (simp_all add: literal_texts error_other [simplified])
next
  case None
  show ?thesis
  proof (cases "h_open h p")
    case (Inl r)
    with assms have "text_ok (refusal_message r)"
      by (auto simp: handlers_ok_def dest!: spec [of _ p])
    with Inl None show ?thesis
      by (intro that [of "refusal_status r" "refusal_message r"])
        (simp_all add: refusal_status_error del: OK_def)
  next
    case (Inr f)
    with None show ?thesis
      by (intro that [of OK "[]"]) (simp_all add: literal_texts as_bytes_def)
  qed
qed

lemma ask_open:
  assumes "handlers_ok h" and "request_ok (Open p)"
    and "cn_in c = map Byte (encode_response (response h (Open p) s)) @ t"
  shows "ask v (Open p) c = (fst (direct h (Open p) s),
    c\<lparr>cn_in := t, cn_out := cn_out c @ encode_request (Open p)\<rparr>)"
proof -
  obtain st m where r: "response h (Open p) s = (st, as_bytes m)" "text_ok m"
    "(if st = OK then Inr Opened else Inl (Io (status_error st m))) = fst (direct h (Open p) s)"
    using open_payload [OF assms(1,2)] .
  have "reply (c\<lparr>cn_out := cn_out c @ encode_request (Open p)\<rparr>)
      = (if st = OK then Inr (as_bytes m) else Inl (Io (status_error st m)),
         c\<lparr>cn_in := t, cn_out := cn_out c @ encode_request (Open p)\<rparr>)"
    using reply_Byte [of "c\<lparr>cn_out := cn_out c @ encode_request (Open p)\<rparr>" st m t] r(2) assms(3)
    unfolding r(1) by simp
  then show ?thesis
    using assms(2) unfolding r(3) [symmetric]
    by (simp add: session_open_def sbind_def write_all_clear)
qed

lemma ask_read:
  assumes "file_ok s" and "cn_in c = map Byte (encode_response (response h (Read off n) s)) @ t"
  shows "ask v (Read off n) c = (fst (direct h (Read off n) s),
    c\<lparr>cn_in := t, cn_out := cn_out c @ encode_request (Read off n)\<rparr>)"
proof -
  let ?c = "c\<lparr>cn_out := cn_out c @ encode_request (Read off n)\<rparr>"
  have failed: ?thesis
    if r: "response h (Read off n) s = (ERROR, as_bytes m)" "text_ok m"
      "fst (direct h (Read off n) s) = Inl (other m)" for m
  proof -
    have m: "is_utf8 (as_bytes m)" "length m \<le> MAX_MESSAGE" using r(2) by (simp_all add: text_ok_def)
    have "header ?c = (Inr (ERROR, length m), ?c\<lparr>cn_in := map Byte (as_bytes m) @ t\<rparr>)"
      using header_Byte [of ?c ERROR "as_bytes m" t] assms(2) m(2) unfolding r(1) by simp
    moreover have "message (length m) (?c\<lparr>cn_in := map Byte (as_bytes m) @ t\<rparr>)
        = (Inr m, ?c\<lparr>cn_in := t\<rparr>)"
      using m read_exact_Byte [of "?c\<lparr>cn_in := map Byte (as_bytes m) @ t\<rparr>" "as_bytes m" t]
      by (simp add: message_def sbind_def lossy_text)
    ultimately show ?thesis
      using r(3) error_other [of m]
      by (simp add: session_read_at_def sbind_def write_all_clear Let_def)
  qed
  show ?thesis
  proof (cases "sv_file s")
    case None
    then show ?thesis by (intro failed [OF _ literal_texts(2)]) simp_all
  next
    case (Some f)
    then have f: "reader_ok f" using assms(1) by (simp add: file_ok_def)
    show ?thesis
    proof (cases "f (sv_reads s) off (min n MAX_READ)")
      case (Inl e)
      then have "text_ok (io_message e)"
        using reader_okD(1) [OF f] by blast
      with Some Inl show ?thesis by (intro failed [of "io_message e"]) simp_all
    next
      case (Inr d)
      then have len: "length d \<le> min n MAX_READ"
        using reader_okD(2) [OF f] by blast
      have r: "response h (Read off n) s = (OK, d)" using Some Inr by simp
      have "header ?c = (Inr (OK, length d), ?c\<lparr>cn_in := map Byte d @ t\<rparr>)"
        using header_Byte [of ?c OK d t] assms(2) len unfolding r by simp
      moreover have "read_exact (length d) (?c\<lparr>cn_in := map Byte d @ t\<rparr>) = (Inr d, ?c\<lparr>cn_in := t\<rparr>)"
        using read_exact_Byte [of "?c\<lparr>cn_in := map Byte d @ t\<rparr>" d t] by simp
      ultimately show ?thesis
        using Some Inr len
        by (simp add: session_read_at_def sbind_def write_all_clear Let_def min_less_iff_disj not_less)
    qed
  qed
qed

lemma ask_update:
  assumes "handlers_ok h" and "cn_in c = map Byte (encode_response (response h Update s)) @ t"
  shows "ask v Update c = (fst (direct h Update s),
    c\<lparr>cn_in := t, cn_out := cn_out c @ encode_request Update\<rparr>)"
proof (cases "h_update h (sv_updates s)")
  case (Inl e)
  then have e: "text_ok (io_message e)" "io_message e \<noteq> ''unknown operation 3''"
    using assms(1) by (auto simp: handlers_ok_def dest!: spec [of _ "sv_updates s"])
  have three: "dec_string 3 = ''3''" by code_simp
  have "reply (c\<lparr>cn_out := cn_out c @ [UPDATE]\<rparr>) = (Inl (other (io_message e)),
      c\<lparr>cn_in := t, cn_out := cn_out c @ [UPDATE]\<rparr>)"
    using reply_Byte [of "c\<lparr>cn_out := cn_out c @ [UPDATE]\<rparr>" ERROR "io_message e" t] e(1)
      assms(2) Inl error_other [of "io_message e"] by simp
  then show ?thesis
    using Inl e(2) by (simp add: session_update_def sbind_def stry_def write_all_clear other_def three)
next
  case (Inr u)
  have u: "from_utf8_lossy (as_bytes (update_show u)) = update_show u"
    using update_text [of u] by (simp add: text_ok_def lossy_text del: update_show.simps)
  have "reply (c\<lparr>cn_out := cn_out c @ [UPDATE]\<rparr>) = (Inr (as_bytes (update_show u)),
      c\<lparr>cn_in := t, cn_out := cn_out c @ [UPDATE]\<rparr>)"
    using reply_Byte [of "c\<lparr>cn_out := cn_out c @ [UPDATE]\<rparr>" OK "update_show u" t] update_text
      assms(2) Inr by (simp del: update_show.simps)
  then show ?thesis
    using Inr u by (simp add: session_update_def sbind_def stry_def write_all_clear Let_def
        del: update_show.simps)
qed

lemma ask_clear:
  assumes "handlers_ok h" and "request_ok rq" and "file_ok s"
    and "cn_in c = map Byte (encode_response (response h rq s)) @ t"
  shows "stry (ask v rq) c = (Inr (fst (direct h rq s)),
    c\<lparr>cn_in := t, cn_out := cn_out c @ encode_request rq\<rparr>)"
proof -
  have "ask v rq c = (fst (direct h rq s), c\<lparr>cn_in := t, cn_out := cn_out c @ encode_request rq\<rparr>)"
    using ask_open [of h _ c s t v] ask_read [of s c h _ _ t v] ask_update [of h c s t v] assms
    by (cases rq) (simp_all del: ask.simps direct.simps encode_request.simps response.simps)
  then show ?thesis by (simp only: stry_def prod.case)
qed

section \<open>A whole session\<close>

lemma serve_loop_clear:
  assumes "handlers_ok h" and "request_ok rq" and "file_ok s"
    and "cn_in s = map Byte (encode_request rq) @ es"
  shows "serve_loop clear h s = serve_loop clear h
    ((snd (direct h rq s))\<lparr>cn_in := es, cn_out := cn_out s @ encode_response (response h rq s)\<rparr>)"
proof -
  obtain b bs where e: "encode_request rq = b # bs" by (cases rq) auto
  let ?s = "s\<lparr>cn_in := map Byte bs @ es\<rparr>"
  have "read_byte s = (Inr (Some b), ?s)"
    using assms(4) e by (intro read_byte_Byte) simp
  moreover have "serve_op clear h b ?s = (Inr None, (snd (direct h rq ?s))
      \<lparr>cn_in := es, cn_out := cn_out ?s @ encode_response (response h rq ?s)\<rparr>)"
    using serve_op_clear [OF assms(1,2), of ?s es] assms(3) e by (simp add: file_ok_def)
  moreover have "response h rq ?s = response h rq s" by (cases rq) (simp_all split: option.split sum.split)
  moreover have "snd (direct h rq ?s) = (snd (direct h rq s))\<lparr>cn_in := map Byte bs @ es\<rparr>"
    by (cases rq) (simp_all split: option.split sum.split)
  ultimately show ?thesis by (subst serve_loop.simps) simp
qed

lemma direct_all_conn: "direct_all h rqs (s\<lparr>cn_in := i, cn_out := out\<rparr>) = direct_all h rqs s"
  by (induction rqs arbitrary: s) (simp_all add: direct_conn(1) split_beta)

lemma session_loop:
  assumes "handlers_ok h" and "list_all request_ok rqs" and "file_ok s"
    and "cn_in s = map Byte (concat (map encode_request rqs))"
  shows "\<exists>a s'. serve_loop clear h s = (Inr Closed, s') \<and> cn_out s' = cn_out s @ a
    \<and> (\<forall>c t. cn_in c = map Byte a @ t \<longrightarrow>
         smapM (\<lambda>rq. stry (ask v rq)) rqs c = (Inr (direct_all h rqs s),
           c\<lparr>cn_in := t, cn_out := cn_out c @ concat (map encode_request rqs)\<rparr>))"
  using assms(2-)
proof (induction rqs arbitrary: s)
  case Nil
  then have "serve_loop clear h s = (Inr Closed, s)"
    by (subst serve_loop.simps) (simp add: read_byte_Nil)
  then show ?case by simp
next
  case (Cons rq rqs)
  let ?es = "map Byte (concat (map encode_request rqs))"
  let ?r = "encode_response (response h rq s)"
  let ?s = "(snd (direct h rq s))\<lparr>cn_in := ?es, cn_out := cn_out s @ ?r\<rparr>"
  have rq: "request_ok rq" "list_all request_ok rqs" using Cons.prems by simp_all
  have step: "serve_loop clear h s = serve_loop clear h ?s"
    using serve_loop_clear [OF assms(1) rq(1) Cons.prems(2), of ?es] Cons.prems(3) by simp
  have "file_ok ?s" using direct_file_ok [OF assms(1) rq(1) Cons.prems(2)] by (simp add: file_ok_def)
  from Cons.IH [OF rq(2) this] obtain a s' where
      a: "serve_loop clear h ?s = (Inr Closed, s')" "cn_out s' = cn_out s @ ?r @ a"
    and asked: "cn_in c = map Byte a @ t \<Longrightarrow> smapM (\<lambda>rq. stry (ask v rq)) rqs c
      = (Inr (direct_all h rqs ?s), c\<lparr>cn_in := t, cn_out := cn_out c @ concat (map encode_request rqs)\<rparr>)"
      for c t
    by auto
  have same: "direct_all h (rq # rqs) s = fst (direct h rq s) # direct_all h rqs ?s"
    by (simp add: direct_all_conn split_beta)
  have "smapM (\<lambda>rq. stry (ask v rq)) (rq # rqs) c = (Inr (direct_all h (rq # rqs) s),
      c\<lparr>cn_in := t, cn_out := cn_out c @ concat (map encode_request (rq # rqs))\<rparr>)"
    if c: "cn_in c = map Byte (?r @ a) @ t" for c t
  proof -
    let ?c = "c\<lparr>cn_in := map Byte a @ t, cn_out := cn_out c @ encode_request rq\<rparr>"
    have "stry (ask v rq) c = (Inr (fst (direct h rq s)), ?c)"
      using ask_clear [OF assms(1) rq(1) Cons.prems(2), of c "map Byte a @ t" v] c by simp
    with asked [of ?c t] show ?thesis
      unfolding same by (simp add: sbind_def del: direct_all.simps)
  qed
  with a step show ?case by (intro exI [of _ "?r @ a"] exI [of _ s']) simp
qed

text \<open>The greeting.\<close>

lemma greeting: "text_ok VERSION"
  by (intro text_ok_ascii) (simp_all add: VERSION_def)

lemma session_answers:
  assumes "handlers_ok h" and "list_all request_ok rqs"
  shows "\<exists>s c. serve_client clear h (accepted (map Byte (PROTOCOL # concat (map encode_request rqs))))
       = (Inr Closed, s)
     \<and> client rqs \<lparr>cn_in = map Byte (cn_out s), cn_out = []\<rparr>
       = (Inr (direct_all h rqs (accepted [])), c)
     \<and> cn_in c = [] \<and> cn_out c = PROTOCOL # concat (map encode_request rqs)"
proof -
  let ?rqs = "concat (map encode_request rqs)" and ?hello = "encode_response (OK, as_bytes VERSION)"
  let ?s = "(accepted [])\<lparr>cn_in := map Byte ?rqs, cn_out := ?hello\<rparr>"
  have "serve_client clear h (accepted (map Byte (PROTOCOL # ?rqs))) = serve_loop clear h ?s"
    by (simp add: serve_client_def accepted_def sbind_def read_byte_def respond_clear)
  moreover have "file_ok ?s" by (simp add: file_ok_def accepted_def)
  from session_loop [OF assms this, of VERSION] obtain a s' where
      a: "serve_loop clear h ?s = (Inr Closed, s')" "cn_out s' = ?hello @ a"
    and asked: "cn_in c = map Byte a @ t \<Longrightarrow> smapM (\<lambda>rq. stry (ask VERSION rq)) rqs c
      = (Inr (direct_all h rqs ?s), c\<lparr>cn_in := t, cn_out := cn_out c @ ?rqs\<rparr>)" for c t
    by auto
  let ?c = "\<lparr>cn_in = map Byte (?hello @ a), cn_out = []\<rparr>"
  have "reply (?c\<lparr>cn_out := [PROTOCOL]\<rparr>)
      = (Inr (as_bytes VERSION), \<lparr>cn_in = map Byte a, cn_out = [PROTOCOL]\<rparr>)"
    using reply_Byte [of "?c\<lparr>cn_out := [PROTOCOL]\<rparr>" OK VERSION "map Byte a"] greeting by simp
  then have "session_start clear ?c = (Inr VERSION, \<lparr>cn_in = map Byte a, cn_out = [PROTOCOL]\<rparr>)"
    using greeting
    by (simp add: session_start_def sbind_def write_all_clear text_ok_def lossy_text)
  with asked [of "\<lparr>cn_in = map Byte a, cn_out = [PROTOCOL]\<rparr>" "[]"]
  have "client rqs ?c = (Inr (direct_all h rqs ?s), \<lparr>cn_in = [], cn_out = [PROTOCOL] @ ?rqs\<rparr>)"
    by (simp add: client_def sbind_def)
  ultimately show ?thesis using a by (simp add: direct_all_conn)
qed


section \<open>The service's own handlers\<close>

text \<open>\<open>SERVICE_HANDLERS\<close> of the Windows side: partitions only.\<close>

definition service_handlers ::
  "(bytes \<Rightarrow> u32) \<Rightarrow> nat \<Rightarrow> (string \<Rightarrow> io_error + reader) \<Rightarrow> (nat \<Rightarrow> io_error + update)
     \<Rightarrow> handlers" where
  "service_handlers crc retries file_open upd =
     \<lparr>h_open = open_partition crc retries file_open, h_update = upd\<rparr>"

definition os_text :: "string \<Rightarrow> bool" where
  "os_text m \<longleftrightarrow> is_utf8 (as_bytes m) \<and> length m \<le> 32768"

definition os_reader :: "reader \<Rightarrow> bool" where
  "os_reader f \<longleftrightarrow>
     (\<forall>k off n. case f k off n of Inr d \<Rightarrow> length d \<le> n | Inl e \<Rightarrow> os_text (io_message e))"

lemma os_reader_ok: "os_reader f \<Longrightarrow> reader_ok f"
  unfolding os_reader_def reader_ok_def os_text_def text_ok_def
  by (fastforce split: sum.splits)

lemma is_utf8_append: "is_utf8 a \<Longrightarrow> is_utf8 b \<Longrightarrow> is_utf8 (a @ b)"
proof (induction a rule: is_utf8.induct)
  case (2 x r)
  obtain n where step: "utf8_step x r = (True, n)"
    using "2.prems"(1) by (auto split: prod.splits)
  then have "is_utf8 (drop n r @ b)" using 2 by simp
  moreover have "take n r @ drop n r @ b = r @ b" by (metis append.assoc append_take_drop_id)
  ultimately show ?case using is_utf8_cons_append [OF step, of "drop n r @ b"] by (metis append_Cons)
qed simp

lemma os_readerD:
  assumes "os_reader f"
  shows "f k off n = Inl e \<Longrightarrow> os_text (io_message e)"
  using assms unfolding os_reader_def by (metis old.sum.simps(5))

lemma super_loop_error:
  "os_reader f \<Longrightarrow> super_loop fuel f k got = Some (Inl e) \<Longrightarrow> os_text (io_message e)"
proof (induction fuel f k got rule: super_loop.induct)
  case (1 fuel rd k got)
  show ?case
  proof (cases "length got < SUPER_SIZE \<and> fuel \<noteq> 0")
    case False
    with "1.prems"(2) show ?thesis
      by (subst (asm) super_loop.simps) (auto split: if_splits nat.splits)
  next
    case True
    then obtain n where n: "fuel = Suc n" by (cases fuel) auto
    show ?thesis
    proof (cases "rd k (SUPER_OFFSET + word_of_nat (length got)) (SUPER_SIZE - length got)")
      case (Inl e')
      with "1.prems" "1.IH" True n os_readerD [OF "1.prems"(1) Inl] show ?thesis
        by (subst (asm) super_loop.simps) (auto split: if_splits)
    next
      case (Inr b)
      with "1.prems" "1.IH" True n show ?thesis
        by (subst (asm) super_loop.simps) (auto split: if_splits list.splits)
    qed
  qed
qed

lemma path_message:
  assumes "is_utf8 (as_bytes p) \<and> length p \<le> MAX_PATH" and "os_text m"
  shows "text_ok (p @ m)"
  using assms is_utf8_append [of "as_bytes p" "as_bytes m"] by (simp add: text_ok_def os_text_def)

lemma os_text_ascii: "list_all (\<lambda>c. (of_char c :: nat) < 128) m \<Longrightarrow> length m \<le> 100 \<Longrightarrow> os_text m"
  using text_ok_ascii [of m] by (simp add: text_ok_def os_text_def)

lemma path_error:
  assumes p: "is_utf8 (as_bytes p) \<and> length p \<le> MAX_PATH" and "os_text m"
  shows "text_ok (p @ '': '' @ m)"
proof -
  have "is_utf8 (as_bytes ('': '' @ m))"
    unfolding as_bytes_append using assms(2) os_text_ascii [of "'': ''"]
    by (intro is_utf8_append) (simp_all add: os_text_def)
  then have "is_utf8 (as_bytes (p @ '': '' @ m))"
    using p is_utf8_append [of "as_bytes p" "as_bytes ('': '' @ m)"] by simp
  then show ?thesis using assms by (simp add: text_ok_def os_text_def)
qed

text \<open>With a system whose messages are short text, the service's handlers are fit for it.\<close>

lemma service_handlers_ok:
  assumes os: "\<And>p. case file_open p of Inr f \<Rightarrow> os_reader f | Inl e \<Rightarrow> os_text (io_message e)"
    and upd: "\<And>k. case upd k of Inr u \<Rightarrow> (\<exists>v. u = UpToDate v)
      | Inl e \<Rightarrow> text_ok (io_message e) \<and> io_message e \<noteq> ''unknown operation 3''"
  shows "handlers_ok (service_handlers crc retries file_open upd)"
proof -
  have "case open_partition crc retries file_open p of
      Inr f \<Rightarrow> reader_ok f | Inl r \<Rightarrow> text_ok (refusal_message r)"
    if p: "is_utf8 (as_bytes p) \<and> length p \<le> MAX_PATH" for p
  proof -
    note msg = path_message [OF p os_text_ascii]
    have loop: "text_ok (p @ '': '' @ io_message e)"
      if "file_open p = Inr f" "super_loop n f k got = Some (Inl e)" for f n k got e
      using os [of p] that path_error [OF p super_loop_error [OF _ that(2)]] by simp
    have "text_ok (p @ '': '' @ io_message e)" if "file_open p = Inl e" for e
      using os [of p] that path_error [OF p] by simp
    with os [of p] loop show ?thesis
      unfolding open_partition_def
      by (auto simp: Let_def os_reader_ok intro!: msg split: option.splits sum.splits)
  qed
  with upd show ?thesis by (simp add: handlers_ok_def service_handlers_def)
qed

text \<open>A service that reads one partition, and a session with it.\<close>

definition demo_reader :: reader where
  "demo_reader k off n = Inr (take n (drop (unat off) [1, 2, 3, 4]))"

definition demo_handlers :: handlers where
  "demo_handlers =
     \<lparr>h_open = (\<lambda>p. if p = ''x'' then Inr demo_reader else Inl (NotFound ''gone'')),
      h_update = (\<lambda>k. Inr (UpToDate (Version 0 3 2)))\<rparr>"

definition demo_requests :: "request list" where
  "demo_requests = [Read 0 1, Open ''y'', Open ''x'', Read 1 2, Read 3 9]"

lemma demo_handlers_ok: "handlers_ok demo_handlers" "list_all request_ok demo_requests"
proof -
  have "text_ok ''gone''" by (intro text_ok_ascii) simp_all
  then show "handlers_ok demo_handlers"
    by (simp add: handlers_ok_def demo_handlers_def reader_ok_def demo_reader_def)
  have "is_utf8 (as_bytes ''x'')" "is_utf8 (as_bytes ''y'')" by code_simp+
  then show "list_all request_ok demo_requests" by (simp add: demo_requests_def)
qed


section \<open>Only partitions are read\<close>

text \<open>What may happen to the open file: nothing, or from none to one the handler granted.\<close>

definition grants :: "handlers \<Rightarrow> server \<Rightarrow> server \<Rightarrow> bool" where
  "grants h s t \<longleftrightarrow>
     (case sv_file s of
        Some f \<Rightarrow> sv_file t = Some f
      | None \<Rightarrow> (\<forall>f. sv_file t = Some f \<longrightarrow> (\<exists>p. h_open h p = Inr f)))"

interpretation grants: progress "grants h" for h
  by unfold_locales (auto simp: grants_def split: option.splits)

lemma grants_conn:
  "moves (grants h) (write_all wr msg)" "moves (grants h) (read_exact n)" "moves (grants h) read_byte"
  by (simp_all add: moves_def grants_def write_all_def read_exact_def read_byte_def split_beta
      split: option.split)

lemma grants_answer: "moves (grants h) (answer wr st msg)" "moves (grants h) (answer_and_close wr msg)"
  unfolding answer_def answer_and_close_def respond_def
  by (intro grants.moves_rules grants_conn)+

lemma grants_open_file:
  assumes "sv_file s = None" and "h_open h p = Inr f"
  shows "grants h s (snd (sbind (smodify (\<lambda>s. s\<lparr>sv_file := Some f\<rparr>)) (\<lambda>_. answer wr OK []) s))"
proof -
  have "grants h s (s\<lparr>sv_file := Some f\<rparr>)" using assms by (auto simp: grants_def)
  moreover have "grants h (s\<lparr>sv_file := Some f\<rparr>) (snd (answer wr OK [] (s\<lparr>sv_file := Some f\<rparr>)))"
    using grants_answer(1) by (simp add: moves_def)
  ultimately show ?thesis by (simp add: sbind_def) (rule grants.trans)
qed

lemma grants_open_path:
  "moves (grants h) (sbind (sget sv_file) (\<lambda>file.
     case file of
       Some _ \<Rightarrow> answer wr ERROR m
     | None \<Rightarrow>
         (case from_utf8 path of
            None \<Rightarrow> answer wr ERROR m'
          | Some p \<Rightarrow>
              (case h_open h p of
                 Inr f \<Rightarrow> sbind (smodify (\<lambda>s. s\<lparr>sv_file := Some f\<rparr>)) (\<lambda>_. answer wr OK [])
               | Inl r \<Rightarrow> answer wr (refusal_status r) (refusal_message r)))))"
  unfolding moves_def
proof
  fix s :: server
  have a: "grants h s (snd (answer wr st m s))" for st m using grants_answer(1) by (simp add: moves_def)
  show "grants h s (snd (sbind (sget sv_file) (\<lambda>file.
     case file of
       Some _ \<Rightarrow> answer wr ERROR m
     | None \<Rightarrow>
         (case from_utf8 path of
            None \<Rightarrow> answer wr ERROR m'
          | Some p \<Rightarrow>
              (case h_open h p of
                 Inr f \<Rightarrow> sbind (smodify (\<lambda>s. s\<lparr>sv_file := Some f\<rparr>)) (\<lambda>_. answer wr OK [])
               | Inl r \<Rightarrow> answer wr (refusal_status r) (refusal_message r)))) s))"
    using a grants_open_file [of s h _ _ wr] by (auto simp del: OK_def split: option.split sum.split)
qed

lemma grants_op: "moves (grants h) (serve_op wr h op)"
proof -
  have "moves (grants h) (serve_open wr h)"
    unfolding serve_open_def read_u32_def Let_def
    by (intro grants.moves_bind grants.moves_if grants.moves_ret grants_answer grants_conn
        grants_open_path)
  moreover have "moves (grants h) (serve_read wr)"
    unfolding serve_read_def read_u32_def read_u64_def
    by (intro grants.moves_rules grants.moves_modify grants_answer grants_conn)
      (simp add: grants_def split: option.split)
  moreover have "moves (grants h) (serve_update wr h)"
    unfolding serve_update_def respond_def
    by (intro grants.moves_rules grants.moves_modify grants_answer grants_conn)
      (simp add: grants_def split: option.split)
  ultimately show ?thesis
    unfolding serve_op_def by (intro grants.moves_if grants_answer)
qed

lemma grants_loop: "moves (grants h) (serve_loop wr h)"
  unfolding moves_def
proof
  fix s show "grants h s (snd (serve_loop wr h s))"
  proof (induction wr h s rule: serve_loop.induct)
    case (1 wr h s)
    obtain r s1 where b: "read_byte s = (r, s1)" by (cases "read_byte s")
    have s1: "grants h s s1" using grants_conn(3) [of h] b by (simp add: moves_def) (metis snd_conv)
    show ?case
    proof (cases "\<exists>op. r = Inr (Some op)")
      case False
      with b s1 show ?thesis
        by (subst serve_loop.simps) (auto split: sum.split option.split)
    next
      case True
      then obtain op where op: "r = Inr (Some op)" ..
      obtain q s2 where q: "serve_op wr h op s1 = (q, s2)" by (cases "serve_op wr h op s1")
      have "grants h s1 s2" using grants_op [of h wr op] q by (simp add: moves_def) (metis snd_conv)
      with s1 have s2: "grants h s s2" by (rule grants.trans)
      show ?thesis
      proof (cases "q = Inr None")
        case True
        from "1.IH" [OF b [symmetric] op refl q [symmetric] True refl] s2
        have "grants h s (snd (serve_loop wr h s2))" by (rule grants.trans [rotated])
        with True b op q show ?thesis by (subst serve_loop.simps) simp
      next
        case False
        with b op q s2 show ?thesis
          by (subst serve_loop.simps) (auto split: sum.split option.split)
      qed
    qed
  qed
qed

lemma grants_client: "moves (grants h) (serve_client wr h)"
  unfolding serve_client_def respond_def
  by (intro grants.moves_rules grants_conn grants_loop)

definition btrfs_partition ::
  "(bytes \<Rightarrow> u32) \<Rightarrow> nat \<Rightarrow> (string \<Rightarrow> io_error + reader) \<Rightarrow> string \<Rightarrow> reader \<Rightarrow> bool" where
  "btrfs_partition crc retries file_open p f \<longleftrightarrow>
     partition_path_ok p \<and> file_open p = Inr f
     \<and> (\<exists>sb. super_loop (SUPER_SIZE + retries) f 0 [] = Some (Inr sb) \<and> SUPER_SIZE \<le> length sb
          \<and> is_ok (superblock_parse crc sb))"

lemma open_partition_sound:
  "open_partition crc retries file_open p = Inr f \<Longrightarrow> btrfs_partition crc retries file_open p f"
  by (auto simp: open_partition_def btrfs_partition_def not_less
      split: if_splits sum.splits option.splits)

text \<open>
  C27: Whatever bytes a client sends, however the stream fails: the file a session of the
  service reads from is a partition it may open, opened under its name, whose superblock was
  read and parses; and once one is open, no operation puts another in its place.
\<close>

theorem service_reads_partitions_only:
  "(case sv_file (snd (serve_client wr (service_handlers crc retries file_open upd) (accepted es))) of
      None \<Rightarrow> True
    | Some f \<Rightarrow> (\<exists>p. btrfs_partition crc retries file_open p f))
   \<and> (case sv_file s of
        None \<Rightarrow> True
      | Some f \<Rightarrow> sv_file (snd (serve_op wr (service_handlers crc retries file_open upd) op s)) = Some f)"
proof -
  let ?h = "service_handlers crc retries file_open upd"
  have granted: "\<exists>p. open_partition crc retries file_open p = Inr f \<Longrightarrow>
      \<exists>p. btrfs_partition crc retries file_open p f" for f
    using open_partition_sound by blast
  have "grants ?h (accepted es) (snd (serve_client wr ?h (accepted es)))"
    using grants_client [of ?h wr] by (simp add: moves_def)
  moreover have "grants ?h s (snd (serve_op wr ?h op s))"
    using grants_op [of ?h wr op] by (simp add: moves_def)
  ultimately show ?thesis
    using granted
    by (auto simp: grants_def accepted_def service_handlers_def split: option.splits)
qed

end
