(* ===== verification/Helper_Device.thy ===== *)
theory Helper_Device
  imports Helper_Facts
begin

text \<open>
  A device that is read through the helper (src/dev.rs over both sides of src/helper.rs): what
  the client's session answers to reads is itself a reader, and a device backed by it reads
  the contents of the partition the service opened.
\<close>

section \<open>The reader a session is\<close>

text \<open>
  Reads are cut to what the protocol carries, and an error keeps its message only, so that a
  read the system interrupted is not tried again.
\<close>

definition through_helper :: "reader \<Rightarrow> reader" where
  "through_helper f k off want =
     map_err (\<lambda>e. IoError IoOther (io_message e)) (f k off (min want MAX_READ))"

definition got :: "io_error + bytes \<Rightarrow> err + outcome" where
  "got r = (case r of Inl e \<Rightarrow> Inl (Io e) | Inr d \<Rightarrow> Inr (Got d))"

definition reads :: "(u64 \<times> nat) list \<Rightarrow> request list" where
  "reads rs = map (\<lambda>(off, n). Read off n) rs"

lemma direct_reads:
  "sv_file s = Some f \<Longrightarrow>
     direct_all h (reads rs) s
     = map (\<lambda>(k, off, n). got (through_helper f k off n)) (enumerate (sv_reads s) rs)"
proof (induction rs arbitrary: s)
  case (Cons r rs)
  obtain off n where r: "r = (off, n)" by (cases r)
  let ?s = "s\<lparr>sv_reads := Suc (sv_reads s)\<rparr>"
  have "direct h (Read off n) s = (got (through_helper f (sv_reads s) off n), ?s)"
    using Cons.prems
    by (simp add: through_helper_def got_def map_err_def other_def split: sum.split)
  with Cons.IH [of ?s] Cons.prems show ?case by (simp add: r reads_def del: direct.simps)
qed (simp add: reads_def)

text \<open>What serving contents comes to when nothing is interrupted.\<close>

definition answers_from :: "reader \<Rightarrow> bytes \<Rightarrow> bool" where
  "answers_from f img \<longleftrightarrow>
     (\<forall>k off want. 0 < want \<longrightarrow>
        (\<exists>xs. f k off want = Inr xs \<and> length xs \<le> want \<and> xs = take (length xs) (drop (unat off) img)
           \<and> (xs = [] \<longrightarrow> length img \<le> unat off)))"

lemma serves_iff:
  assumes "dev_retries d = 0"
  shows "serves d img \<longleftrightarrow>
     length img + 8192 < 2 ^ 64 \<and> answers_from (backing_read_at (dev_backing d)) img"
proof -
  have "(\<exists>K. finite K \<and> card K \<le> 0 \<and> P K) \<longleftrightarrow> P {}" for P :: "nat set \<Rightarrow> bool"
    by (metis card.empty card_0_eq finite.emptyI le_zero_eq)
  moreover have "(case r of Inl e \<Rightarrow> k \<in> {} \<and> io_kind e = IoInterrupted | Inr xs \<Rightarrow> Q xs)
      \<longleftrightarrow> (\<exists>xs. r = Inr xs \<and> Q xs)" for r :: "io_error + bytes" and k :: nat and Q
    by (cases r) simp_all
  ultimately show ?thesis
    unfolding serves_def answers_from_def assms by (simp only:)
qed

lemma through_helper_answers:
  assumes "answers_from f img"
  shows "answers_from (through_helper f) img"
  unfolding answers_from_def
proof (intro allI impI)
  fix k :: nat and off :: u64 and want :: nat
  assume "0 < want"
  then have "0 < min want MAX_READ" by simp
  with assms obtain xs where "f k off (min want MAX_READ) = Inr xs" "length xs \<le> min want MAX_READ"
      "xs = take (length xs) (drop (unat off) img)" "xs = [] \<longrightarrow> length img \<le> unat off"
    unfolding answers_from_def by blast
  then show "\<exists>xs. through_helper f k off want = Inr xs \<and> length xs \<le> want
      \<and> xs = take (length xs) (drop (unat off) img) \<and> (xs = [] \<longrightarrow> length img \<le> unat off)"
    by (simp add: through_helper_def map_err_def)
qed

lemma backing_eta: "backing_read_at (File f) = f" "backing_read_at (Helper f) = f"
  by (intro ext, simp)+

lemma through_helper_serves:
  "serves \<lparr>dev_backing = File f, dev_path = p, dev_retries = 0\<rparr> img \<Longrightarrow>
     serves \<lparr>dev_backing = Helper (through_helper f), dev_path = p, dev_retries = 0\<rparr> img"
  using through_helper_answers [of f img] by (simp add: serves_iff backing_eta)

section \<open>Reading through the helper\<close>


text \<open>The demonstration's service, whose partition holds four bytes.\<close>

lemma demo_reader_serves:
  "serves \<lparr>dev_backing = File demo_reader, dev_path = ''x'', dev_retries = 0\<rparr> [1, 2, 3, 4]"
  unfolding serves_def
  by (intro conjI exI [of _ "{}"] allI impI) (auto simp: demo_reader_def min_def)


end
