(* ===== verification/Cli.thy ===== *)
theory Cli
  imports Copy Fs_Open
begin

text \<open>
  The commands (src/main.rs): how times, modes and ids are printed, searching, showing and
  copying, and the exit code an error gives.  What clap parses and serde prints is left out:
  a command is the effect on the file system's caches, standard output and the host, and the
  values it prints.
\<close>

section \<open>Printing\<close>

definition hex_digit :: "nat \<Rightarrow> char" where
  "hex_digit n = (if n < 10 then char_of (48 + n) else char_of (87 + n))"

text \<open>\<open>{x:02x}\<close>\<close>

definition hex2 :: "u8 \<Rightarrow> string" where
  "hex2 b = [hex_digit (unat b div 16), hex_digit (unat b mod 16)]"

definition uuid :: "bytes \<Rightarrow> string" where
  "uuid b =
     (let h = concat (map hex2 b) in
      take 8 h @ ''-'' @ take 4 (drop 8 h) @ ''-'' @ take 4 (drop 12 h) @ ''-''
        @ take 4 (drop 16 h) @ ''-'' @ take 12 (drop 20 h))"

text \<open>\<open>{n:0w}\<close> for a signed number: the sign counts towards the width.\<close>

definition pad :: "nat \<Rightarrow> int \<Rightarrow> string" where
  "pad w n =
     (let sign = (if n < 0 then ''-'' else []); s = dec_string (nat \<bar>n\<bar>) in
      sign @ replicate (w - length sign - length s) (CHR ''0'') @ s)"

text \<open>Year, month and day of a day counted from 1970-01-01.\<close>

definition civil :: "int \<Rightarrow> int \<times> int \<times> int" where
  "civil days =
     (let z = days + 719468;
          era = z div 146097;
          doe = z mod 146097;
          yoe = (doe - doe div 1460 + doe div 36524 - doe div 146096) div 365;
          doy = doe - (365 * yoe + yoe div 4 - yoe div 100);
          mp = (5 * doy + 2) div 153;
          d = doy - (153 * mp + 2) div 5 + 1;
          m = (if mp < 10 then mp + 3 else mp - 9)
      in (yoe + era * 400 + (if m \<le> 2 then 1 else 0), m, d))"

definition iso_time :: "int \<Rightarrow> string" where
  "iso_time secs =
     (let days = secs div 86400; rem = secs mod 86400; (y, m, d) = civil days in
      pad 4 y @ ''-'' @ pad 2 m @ ''-'' @ pad 2 d @ ''T'' @ pad 2 (rem div 3600) @ '':''
        @ pad 2 (rem mod 3600 div 60) @ '':'' @ pad 2 (rem mod 60) @ ''Z'')"

definition mode_kind :: "u32 \<Rightarrow> char" where
  "mode_kind mode =
     (let k = mode AND 0xF000 in
      if k = 0x4000 then CHR ''d''
      else if k = 0xA000 then CHR ''l''
      else if k = 0x2000 then CHR ''c''
      else if k = 0x6000 then CHR ''b''
      else if k = 0x1000 then CHR ''p''
      else if k = 0xC000 then CHR ''s''
      else CHR ''-'')"

definition mode_bits :: "u32 \<Rightarrow> nat \<Rightarrow> string" where
  "mode_bits mode shift =
     (let bits = drop_bit shift mode AND 7 in
      [if bits AND 4 \<noteq> 0 then CHR ''r'' else CHR ''-'',
       if bits AND 2 \<noteq> 0 then CHR ''w'' else CHR ''-'',
       if bits AND 1 \<noteq> 0 then CHR ''x'' else CHR ''-''])"

definition mode_string :: "u32 \<Rightarrow> string" where
  "mode_string mode = mode_kind mode # concat (map (mode_bits mode) [6, 3, 0])"

definition join :: "string \<Rightarrow> string \<Rightarrow> string" where
  "join dir name = trim_end_matches (CHR ''/'') dir @ ''/'' @ name"

section \<open>Descriptions\<close>

record description =
  ds_path :: string
  ds_type :: string
  ds_mode :: string
  ds_uid :: u32
  ds_gid :: u32
  ds_size :: u64
  ds_nlink :: u32
  ds_mtime :: string
  ds_inode :: u64
  ds_subvolume_id :: u64
  ds_target :: "string option"

definition describe :: "ext \<Rightarrow> loc \<Rightarrow> string \<Rightarrow> bool \<Rightarrow> (fs, description) eff" where
  "describe x l path subvol =
     sbind (inode x l) (\<lambda>i.
     let v = \<lparr>ds_path = path, ds_type = (if subvol then ''subvolume'' else type_name i),
       ds_mode = oct_string (unat (i_mode i AND 0xFFF)), ds_uid = i_uid i, ds_gid = i_gid i,
       ds_size = i_size i, ds_nlink = i_nlink i, ds_mtime = iso_time (i_mtime_sec i),
       ds_inode = loc_ino l, ds_subvolume_id = loc_tree l, ds_target = None\<rparr> in
     if is_symlink i then
       sbind (read_symlink_target x l) (\<lambda>t. sret (v\<lparr>ds_target := Some (from_utf8_lossy t)\<rparr>))
     else sret v)"

text \<open>\<open>ls\<close>: one row for a file, which has its path for a name, else one for each entry.\<close>

datatype (plugins only: code size) row =
    Plain string
  | Long string description
  | Single string description

definition ls_entry :: "ext \<Rightarrow> string \<Rightarrow> bool \<Rightarrow> entry \<Rightarrow> (fs, row) eff" where
  "ls_entry x path long e =
     (let name = name_lossy e in
      if long then
        sbind (describe x (e_loc e) (join path name) (e_subvol e)) (\<lambda>v. sret (Long name v))
      else
        sret (Plain (name @
          (if e_ftype e = FT_DIR then ''/'' else if e_ftype e = FT_SYMLINK then ''@'' else []))))"

definition run_ls :: "ext \<Rightarrow> string \<Rightarrow> bool \<Rightarrow> (fs, row list) eff" where
  "run_ls x path long =
     sbind (resolve x path) (\<lambda>l.
     sbind (inode x l) (\<lambda>i.
     if \<not> is_dir i then sbind (describe x l path False) (\<lambda>v. sret [Single path v])
     else sbind (readdir x l) (\<lambda>es. smapM (ls_entry x path long) es)))"

text \<open>\<open>stat\<close>: the description, the number of extents and the compressions among them.\<close>

definition run_stat :: "ext \<Rightarrow> string \<Rightarrow> (fs, description \<times> nat \<times> string list) eff" where
  "run_stat x path =
     sbind (resolve x path) (\<lambda>l.
     sbind (describe x l path False) (\<lambda>v.
     sbind (extents x l) (\<lambda>es.
     sret (v, length es, dedup_by_key (\<lambda>k. k) (sort_key as_bytes (map compression_name es))))))"

section \<open>Writing a file to standard output\<close>

text \<open>What was written, and whether a write fails, given what was written before.\<close>

type_synonym stdout = "bytes \<Rightarrow> bytes \<Rightarrow> io_error option"

definition print :: "stdout \<Rightarrow> bytes \<Rightarrow> (bytes, unit) eff" where
  "print sw d =
     (\<lambda>out. case sw out d of None \<Rightarrow> (Inr (), out @ d) | Some e \<Rightarrow> (Inl (Io e), out))"

function print_zeros :: "stdout \<Rightarrow> u64 \<Rightarrow> (bytes, unit) eff" where
  "print_zeros sw n =
     (if 0 < n then
        (let k = min n 65536 in
         sbind (print sw (replicate (unat k) 0)) (\<lambda>_. print_zeros sw (n - k)))
      else sret ())"
  by pat_completeness auto

lemma zeros_step:
  fixes n :: u64
  assumes "0 < n"
  shows "unat (n - min n 65536) + unat (min n 65536) = unat n" and "0 < unat (min n 65536)"
proof -
  have "min n 65536 \<le> n" by simp
  then show "unat (n - min n 65536) + unat (min n 65536) = unat n"
    by (simp add: unat_minus_le word_le_nat_alt)
  show "0 < unat (min n 65536)" using assms by (auto simp: min_def unat_gt_0 word_gt_0)
qed

termination print_zeros
proof (relation "measure (\<lambda>(sw, n). unat n)")
  fix sw :: stdout and n k :: u64 and u :: unit
  assume "0 < n" and "k = min n 65536"
  with zeros_step [of n] show "((sw, n - k), sw, n) \<in> measure (\<lambda>(sw, n). unat n)" by simp
qed simp

declare print_zeros.simps [simp del]

definition cat_sink :: "stdout \<Rightarrow> bytes sink" where
  "cat_sink sw p = (case p of Data d \<Rightarrow> print sw d | Zeros n \<Rightarrow> print_zeros sw n)"

definition run_cat ::
  "ext \<Rightarrow> stdout \<Rightarrow> string \<Rightarrow> u64 \<Rightarrow> u64 option \<Rightarrow> (fs \<times> bytes, unit) eff" where
  "run_cat x sw path offset len =
     sbind (on_fst (resolve x path)) (\<lambda>l.
     sbind (on_fst (inode x l)) (\<lambda>i.
     if is_dir i then sthrow (App (IsADirectory path))
     else
       read_range x l offset
         (case len of None \<Rightarrow> - 1 | Some n \<Rightarrow> saturating_add offset n) (cat_sink sw)))"

section \<open>Searching\<close>

record find_query =
  q_name :: "(string \<Rightarrow> bool) option"   \<comment> \<open>\<open>GlobMatcher::is_match\<close>\<close>
  q_ty :: "char option"
  q_max_depth :: "nat option"
  q_one_subvolume :: bool
  q_no_snapshots :: bool
  q_stream :: bool

text \<open>The directories being searched, the paths found, and what went to the two outputs.\<close>

record finder =
  fd_fs :: fs
  fd_seen :: "loc list"
  fd_out :: "string list"
  fd_stdout :: "string list"
  fd_stderr :: "(string \<times> err) list"

definition MAX_FIND_DEPTH :: nat where [simp]: "MAX_FIND_DEPTH = 256"

definition on_fs :: "(fs, 'a) eff \<Rightarrow> (finder, 'a) eff" where
  "on_fs m = (\<lambda>s. case m (fd_fs s) of (r, t) \<Rightarrow> (r, s\<lparr>fd_fs := t\<rparr>))"

definition found :: "find_query \<Rightarrow> entry \<Rightarrow> bool" where
  "found q e =
     (let kind = (if e_ftype e = FT_DIR then CHR ''d''
                  else if e_ftype e = FT_SYMLINK then CHR ''l'' else CHR ''f'') in
      (case q_ty q of None \<Rightarrow> True | Some t \<Rightarrow> t = kind)
      \<and> (case q_name q of None \<Rightarrow> True | Some g \<Rightarrow> g (name_lossy e)))"

definition emit_path :: "find_query \<Rightarrow> string \<Rightarrow> (finder, unit) eff" where
  "emit_path q child =
     smodify (\<lambda>s. s\<lparr>fd_out := fd_out s @ [child],
       fd_stdout := (if q_stream q then fd_stdout s @ [child] else fd_stdout s)\<rparr>)"

definition find_skip :: "ext \<Rightarrow> find_query \<Rightarrow> entry \<Rightarrow> (finder, bool) eff" where
  "find_skip x q e =
     (if e_subvol e \<and> \<not> is_placeholder (e_loc e) then
        if q_one_subvolume q then sret True
        else if q_no_snapshots q then on_fs (is_snapshot x (loc_tree (e_loc e)))
        else sret False
      else sret False)"

fun find_entries ::
  "ext \<Rightarrow> find_query \<Rightarrow> (loc \<Rightarrow> string \<Rightarrow> (finder, unit) eff) \<Rightarrow> string \<Rightarrow> entry list
     \<Rightarrow> (finder, unit) eff" where
  "find_entries x q down path [] = sret ()"
| "find_entries x q down path (e # es) =
     (let child = join path (name_lossy e) in
      sbind (if found q e then emit_path q child else sret ()) (\<lambda>_.
      sbind (find_skip x q e) (\<lambda>skip.
      sbind
        (if e_ftype e = FT_DIR \<and> \<not> skip then
           sbind (stry (down (e_loc e) child)) (\<lambda>r.
           case r of
             Inl err \<Rightarrow> smodify (\<lambda>s. s\<lparr>fd_stderr := fd_stderr s @ [(child, err)]\<rparr>)
           | Inr _ \<Rightarrow> sret ())
         else sret ()) (\<lambda>_.
      find_entries x q down path es))))"

definition find_dir ::
  "ext \<Rightarrow> find_query \<Rightarrow> (loc \<Rightarrow> string \<Rightarrow> (finder, unit) eff) \<Rightarrow> loc \<Rightarrow> string
     \<Rightarrow> (finder, unit) eff" where
  "find_dir x q down dir path =
     sbind (on_fs (readdir x dir)) (\<lambda>es.
     sbind (find_entries x q down path es) (\<lambda>_.
     smodify (\<lambda>s. s\<lparr>fd_seen := removeAll dir (fd_seen s)\<rparr>)))"

definition enter :: "loc \<Rightarrow> string \<Rightarrow> (finder, unit) eff \<Rightarrow> (finder, unit) eff" where
  "enter dir path m =
     (\<lambda>s. if dir \<in> set (fd_seen s) then (Inl (App (DirectoryLoop path)), s)
          else m (s\<lparr>fd_seen := dir # fd_seen s\<rparr>))"

function find ::
  "ext \<Rightarrow> find_query \<Rightarrow> nat \<Rightarrow> loc \<Rightarrow> string \<Rightarrow> (finder, unit) eff" where
  "find x q depth dir path =
     (if (case q_max_depth q of None \<Rightarrow> False | Some m \<Rightarrow> m \<le> depth) \<or> MAX_FIND_DEPTH \<le> depth
      then sret ()
      else enter dir path (find_dir x q (\<lambda>l p. find x q (depth + 1) l p) dir path))"
  by pat_completeness auto
termination
  by (relation "measure (\<lambda>(x, q, depth, dir, path). 256 - depth)") auto

declare find.simps [simp del]

definition run_find :: "ext \<Rightarrow> find_query \<Rightarrow> string \<Rightarrow> (finder, string list) eff" where
  "run_find x q path =
     (if (case q_ty q of None \<Rightarrow> False | Some t \<Rightarrow> t \<notin> {CHR ''f'', CHR ''d'', CHR ''l''}) then
        sthrow (App BadTypeOption)
      else
        sbind (on_fs (resolve x path)) (\<lambda>l.
        sbind (find x q 0 l path) (\<lambda>_. sget fd_out)))"

section \<open>Copying\<close>

definition run_copy ::
  "ext \<Rightarrow> world \<Rightarrow> options \<Rightarrow> string \<Rightarrow> path \<Rightarrow> (copier, report) eff" where
  "run_copy x w opts src dest =
     sbind (with_fs (resolve x src)) (\<lambda>l.
     sbind (copy x w opts l src dest) (\<lambda>_. sget cp_report))"

section \<open>Subvolumes\<close>

definition subvol_tags :: "u64 \<Rightarrow> subvol \<Rightarrow> string list" where
  "subvol_tags dflt sv =
     (if sv_snapshot sv then [''snapshot''] else []) @ (if sv_readonly sv then [''readonly''] else [])
     @ (if sv_id sv = dflt then [''default''] else [])"

definition run_subvols :: "ext \<Rightarrow> (fs, (subvol \<times> string list) list) eff" where
  "run_subvols x =
     sbind (subvols x) (\<lambda>svs.
     sbind (default_subvol x) (\<lambda>dflt.
     sret (map (\<lambda>sv. (sv, subvol_tags dflt sv)) svs)))"

section \<open>Exit codes\<close>

definition broken_pipe :: "err \<Rightarrow> bool" where
  "broken_pipe e \<longleftrightarrow>
     list_ex (\<lambda>c. case c of Io io \<Rightarrow> io_kind io = IoBrokenPipe | _ \<Rightarrow> False) (chain e)"

definition exit_code :: "err \<Rightarrow> nat" where
  "exit_code e =
     (if broken_pipe e then 0
      else if list_ex (\<lambda>c. case c of PathNotFound p \<Rightarrow> True | _ \<Rightarrow> False) (chain e) then 3
      else if list_ex (\<lambda>c. case c of AccessDenied \<Rightarrow> True | _ \<Rightarrow> False) (chain e) then 4
      else if list_ex (\<lambda>c. case c of Incomplete n \<Rightarrow> True | _ \<Rightarrow> False) (chain e) then 5
      else 1)"

end
