(* ===== verification/Cli_Time.thy ===== *)
theory Cli_Time
  imports Cli
begin

text \<open>
  The date \<open>iso_time\<close> prints is the date of the Gregorian calendar: a valid day whose number,
  counted from 1970-01-01 by the calendar's rules, is the day it was computed from.
\<close>

section \<open>The calendar\<close>

definition leap :: "int \<Rightarrow> bool" where
  "leap y \<longleftrightarrow> 4 dvd y \<and> (\<not> 100 dvd y \<or> 400 dvd y)"

definition month_days :: "int \<Rightarrow> int \<Rightarrow> int" where
  "month_days y m =
     (if m = 2 then (if leap y then 29 else 28)
      else if m \<in> {4, 6, 9, 11} then 30 else 31)"

text \<open>Days from the first of January of year 0 to that of year \<open>y\<close>: a leap year for each
  multiple of 4 below \<open>y\<close>, but not of 100 unless of 400.\<close>

definition years_before :: "int \<Rightarrow> int" where
  "years_before y = 365 * y + (y + 3) div 4 - (y + 99) div 100 + (y + 399) div 400"

lemma div_step:
  fixes y n :: int
  assumes "0 < n"
  shows "(y + n) div n = (y + (n - 1)) div n + (if n dvd y then 1 else 0)"
proof -
  define q where "q = y div n"
  have y: "y = n * q + y mod n" "0 \<le> y mod n" "y mod n < n" using assms by (simp_all add: q_def)
  have all: "(y + n) div n = q + 1"
    using assms div_add_self2 [of n y] by (simp add: q_def)
  show ?thesis
  proof (cases "n dvd y")
    case True
    then have "y mod n = 0" by simp
    then have "(y + (n - 1)) div n = q"
      using y assms by (intro int_div_pos_eq [where r = "n - 1"]) simp_all
    with all True show ?thesis by simp
  next
    case False
    then have "0 < y mod n" using y(2) by (simp add: dvd_eq_mod_eq_0 le_less)
    have "(y + (n - 1)) div n = q + 1"
    proof (rule int_div_pos_eq)
      show "y + (n - 1) = n * (q + 1) + (y mod n - 1)" using y(1) by (simp add: algebra_simps)
      show "0 \<le> y mod n - 1" "y mod n - 1 < n" using \<open>0 < y mod n\<close> y(3) by linarith+
    qed
    with all False show ?thesis by simp
  qed
qed

lemma dvd_years: "400 dvd y \<Longrightarrow> 100 dvd y" "100 dvd y \<Longrightarrow> 4 dvd (y :: int)"
  by (erule dvd_trans [rotated], simp)+

lemma years_before_Suc: "years_before (y + 1) = years_before y + (if leap y then 366 else 365)"
proof -
  have d: "(y + 4) div 4 = (y + 3) div 4 + (if 4 dvd y then 1 else 0)"
      "(y + 100) div 100 = (y + 99) div 100 + (if 100 dvd y then 1 else 0)"
      "(y + 400) div 400 = (y + 399) div 400 + (if 400 dvd y then 1 else 0)"
    using div_step [of 4 y] div_step [of 100 y] div_step [of 400 y] by simp_all
  have "years_before (y + 1) = 365 * y + 365 + (y + 4) div 4 - (y + 100) div 100 + (y + 400) div 400"
    by (simp add: years_before_def add.commute)
  also have "\<dots> = years_before y + 365 + (if 4 dvd y then 1 else 0) - (if 100 dvd y then 1 else 0)
      + (if 400 dvd y then 1 else 0)"
    unfolding d years_before_def by (simp only: algebra_simps)
  also have "\<dots> = years_before y + (if leap y then 366 else 365)"
    unfolding leap_def using dvd_years [of y]
    by (cases "400 dvd y"; cases "100 dvd y"; cases "4 dvd y") simp_all
  finally show ?thesis .
qed

lemma years_before_era: "years_before (k + era * 400) = years_before k + 146097 * era"
proof -
  have "(k + era * 400 + 3) div 4 = (k + 3) div 4 + 100 * era"
    using div_mult_self1 [of 4 "k + 3" "100 * era"] by (simp add: algebra_simps)
  moreover have "(k + era * 400 + 99) div 100 = (k + 99) div 100 + 4 * era"
    using div_mult_self1 [of 100 "k + 99" "4 * era"] by (simp add: algebra_simps)
  moreover have "(k + era * 400 + 399) div 400 = (k + 399) div 400 + era"
    using div_mult_self1 [of 400 "k + 399" era] by (simp add: algebra_simps)
  ultimately show ?thesis by (simp add: years_before_def)
qed

text \<open>The days of the months before month \<open>m\<close>.\<close>

definition months_before :: "int \<Rightarrow> int \<Rightarrow> int" where
  "months_before y m = sum_list (map (month_days y) [1 .. m - 1])"

definition day_number :: "int \<Rightarrow> int \<Rightarrow> int \<Rightarrow> int" where
  "day_number y m d = years_before y + months_before y m + (d - 1) - 719528"

definition valid_date :: "int \<Rightarrow> int \<Rightarrow> int \<Rightarrow> bool" where
  "valid_date y m d \<longleftrightarrow> 1 \<le> m \<and> m \<le> 12 \<and> 1 \<le> d \<and> d \<le> month_days y m"

section \<open>Years that start in March\<close>

text \<open>
  A day of the 400-year era lies in a century \<open>c\<close>, a 4-year cycle \<open>q\<close>, a year \<open>r\<close>, and is its
  \<open>e\<close>-th day, where a year starts on the first of March.  The last year of a cycle has 366
  days, but not the last of a century other than the last one.
\<close>

definition in_era :: "int \<Rightarrow> int \<Rightarrow> int \<Rightarrow> int \<Rightarrow> bool" where
  "in_era c q r e \<longleftrightarrow>
     0 \<le> c \<and> c \<le> 3 \<and> 0 \<le> q \<and> q \<le> 24 \<and> 0 \<le> r \<and> r \<le> 3 \<and> 0 \<le> e
     \<and> e \<le> (if r = 3 \<and> (q < 24 \<or> c = 3) then 365 else 364)"

lemma era_day:
  assumes "0 \<le> doe" and "doe < 146097"
  shows "\<exists>c q r e. in_era c q r e \<and> doe = 36524 * c + 1461 * q + 365 * r + e"
proof -
  define c where "c = min 3 (doe div 36524)"
  define t where "t = doe - 36524 * c"
  define q where "q = t div 1461"
  define u where "u = t - 1461 * q"
  define r where "r = min 3 (u div 365)"
  define e where "e = u - 365 * r"
  have c: "0 \<le> c" "c \<le> 3" "0 \<le> t" "t \<le> 36524" "c < 3 \<Longrightarrow> t < 36524"
    using assms unfolding c_def t_def by linarith+
  have q: "0 \<le> q" "q \<le> 24" "0 \<le> u" "u < 1461" "q = 24 \<and> c < 3 \<Longrightarrow> u < 1460"
    using c unfolding q_def u_def by linarith+
  have r: "0 \<le> r" "r \<le> 3" "0 \<le> e" "r < 3 \<Longrightarrow> e < 365" "r = 3 \<Longrightarrow> e = u - 1095"
    using q unfolding r_def e_def by linarith+
  have "e \<le> (if r = 3 \<and> (q < 24 \<or> c = 3) then 365 else 364)"
    using c q r by (cases "r = 3") auto
  moreover have "doe = 36524 * c + 1461 * q + 365 * r + e"
    by (simp add: e_def u_def t_def)
  ultimately show ?thesis using c q r unfolding in_era_def by blast
qed

lemma era_year:
  assumes "in_era c q r e"
  defines "doe \<equiv> 36524 * c + 1461 * q + 365 * r + e" and "k \<equiv> 100 * c + 4 * q + r"
  shows "(doe - doe div 1460 + doe div 36524 - doe div 146096) div 365 = k"
    and "365 * k + k div 4 - k div 100 = doe - e"
proof -
  have b: "0 \<le> c" "c \<le> 3" "0 \<le> q" "q \<le> 24" "0 \<le> r" "r \<le> 3" "0 \<le> e" "e \<le> 365"
      "e = 365 \<Longrightarrow> r = 3 \<and> (q < 24 \<or> c = 3)"
    using assms(1) by (auto simp: in_era_def split: if_splits)
  have "k div 4 = 25 * c + q" using b unfolding k_def by linarith
  moreover have "k div 100 = c" using b unfolding k_def by linarith
  ultimately show "365 * k + k div 4 - k div 100 = doe - e" by (simp add: k_def doe_def)
  show "(doe - doe div 1460 + doe div 36524 - doe div 146096) div 365 = k"
  proof (cases "doe = 146096")
    case True
    then have "c = 3" "q = 24" "r = 3" using b unfolding doe_def by linarith+
    with True show ?thesis by (simp add: k_def)
  next
    case False
    then have doe: "0 \<le> doe" "doe < 146096" "doe < 36524 * c + 36524" using b unfolding doe_def by linarith+
    have c1: "doe div 146096 = 0" using doe by simp
    have c2: "doe div 36524 = c" using b doe unfolding doe_def by linarith
    have c3: "doe div 1460 = 25 * c + q + (if 24 * c + q + 365 * r + e < 1460 then 0 else 1)"
      using b unfolding doe_def by (auto split: if_splits)
    show ?thesis
    proof (cases "24 * c + q + 365 * r + e < 1460")
      case True
      then have "e < 365" using b by linarith
      then have "(365 * k + e) div 365 = k" using b(7) by simp
      with True show ?thesis unfolding c1 c2 c3 by (simp add: doe_def k_def algebra_simps)
    next
      case False
      then have "1 \<le> e" using b by linarith
      then have "(365 * k + (e - 1)) div 365 = k" using b(8) by simp
      with False show ?thesis unfolding c1 c2 c3 by (simp add: doe_def k_def algebra_simps)
    qed
  qed
qed

section \<open>Months\<close>

text \<open>The day \<open>e\<close> of a year that starts in March, as month and day of the calendar year.\<close>

lemma march_month:
  fixes e :: int
  assumes "0 \<le> e" and "e \<le> 365"
  defines "mp \<equiv> (5 * e + 2) div 153"
  shows "mp = 0 \<or> mp = 1 \<or> mp = 2 \<or> mp = 3 \<or> mp = 4 \<or> mp = 5 \<or> mp = 6 \<or> mp = 7 \<or> mp = 8
      \<or> mp = 9 \<or> mp = 10 \<or> mp = 11"
    and "153 * mp \<le> 5 * e + 2" and "5 * e + 2 < 153 * mp + 153"
proof -
  show b: "153 * mp \<le> 5 * e + 2" "5 * e + 2 < 153 * mp + 153" unfolding mp_def by linarith+
  have "0 \<le> mp" "mp \<le> 11" using b assms(1,2) by linarith+
  then show "mp = 0 \<or> mp = 1 \<or> mp = 2 \<or> mp = 3 \<or> mp = 4 \<or> mp = 5 \<or> mp = 6 \<or> mp = 7 \<or> mp = 8
      \<or> mp = 9 \<or> mp = 10 \<or> mp = 11" by presburger
qed

lemma march_date:
  fixes e k :: int
  assumes "0 \<le> e" and "e \<le> 365" and "e = 365 \<Longrightarrow> leap (k + 1)"
  defines "mp \<equiv> (5 * e + 2) div 153"
  defines "m \<equiv> (if mp < 10 then mp + 3 else mp - 9)" and "d \<equiv> e - (153 * mp + 2) div 5 + 1"
  defines "y \<equiv> k + (if m \<le> 2 then 1 else 0)"
  shows "valid_date y m d \<and>
    years_before y + months_before y m + (d - 1) = years_before k + (if leap k then 60 else 59) + e"
proof -
  note b = march_month [OF assms(1,2), folded mp_def]
  have up: "[1 .. numeral n :: int] = 1 # [2 .. numeral n]" for n
    by (simp add: upto_rec1)
  have "e \<le> 364 \<or> leap (k + 1)" using assms(2,3) by (cases "e = 365") auto
  with b assms(1,2) show ?thesis
    by (elim disjE)
      (auto simp: valid_date_def months_before_def month_days_def m_def d_def y_def
        years_before_Suc up)
qed

lemma last_day_leap:
  assumes "r = 3" and "0 \<le> q" and "q \<le> 24" and "q < 24 \<or> c = 3"
  shows "leap (100 * c + 4 * q + r + era * 400 + 1)"
proof -
  have y: "100 * c + 4 * q + r + era * 400 + 1 = 100 * (c + 4 * era) + 4 * (q + 1)"
    using assms(1) by simp
  have four: "4 dvd 100 * (c + 4 * era) + 4 * (q + 1)" by (intro dvd_add) simp_all
  show ?thesis
  proof (cases "q < 24")
    case True
    have "\<not> 100 dvd 4 * (q + 1)"
      using zdvd_not_zless [of "4 * (q + 1)" 100] True assms(2) by simp
    then have "\<not> 100 dvd 100 * (c + 4 * era) + 4 * (q + 1)"
      using dvd_add_right_iff [of 100 "100 * (c + 4 * era)" "4 * (q + 1)"] by simp
    with four show ?thesis unfolding y leap_def by blast
  next
    case False
    then have e: "100 * (c + 4 * era) + 4 * (q + 1) = 400 * (era + 1)" using assms by simp
    have "400 dvd 100 * (c + 4 * era) + 4 * (q + 1)" unfolding e by (rule dvd_triv_left)
    with four show ?thesis unfolding y leap_def by blast
  qed
qed

lemma march_first:
  assumes "0 \<le> k" and "k < 400"
  shows "years_before (k + 1) = 365 * k + k div 4 - k div 100 + 366"
proof -
  have "(k + 4) div 4 = k div 4 + 1" "(k + 100) div 100 = k div 100 + 1" by simp_all
  moreover have "(k + 400) div 400 = 1" using assms by simp
  ultimately show ?thesis by (simp add: years_before_def add.commute)
qed

text \<open>
  C40: For every number of seconds, the date printed is a valid date of the Gregorian calendar
  and the one of that day: its number, counted by the leap years and the lengths of the months
  from 1970-01-01, is the number of whole days in the seconds, also before 1970; and the time
  of day printed is what is left of them.
\<close>

theorem iso_time_calendar:
  "\<exists>y m d. valid_date y m d \<and> day_number y m d = secs div 86400
     \<and> iso_time secs = pad 4 y @ ''-'' @ pad 2 m @ ''-'' @ pad 2 d @ ''T''
         @ pad 2 (secs mod 86400 div 3600) @ '':'' @ pad 2 (secs mod 3600 div 60) @ '':''
         @ pad 2 (secs mod 60) @ ''Z''"
proof -
  define z where "z = secs div 86400 + 719468"
  define era where "era = z div 146097"
  define doe where "doe = z mod 146097"
  have doe: "0 \<le> doe" "doe < 146097" by (simp_all add: doe_def)
  have z: "z = era * 146097 + doe" by (simp add: era_def doe_def)
  from era_day [OF doe] obtain c q r e where
      ine: "in_era c q r e" and d: "doe = 36524 * c + 1461 * q + 365 * r + e"
    by blast
  define k where "k = 100 * c + 4 * q + r"
  note yr = era_year [OF ine, folded d k_def]
  define mp where "mp = (5 * e + 2) div 153"
  define m where "m = (if mp < 10 then mp + 3 else mp - 9)"
  define y where "y = k + era * 400 + (if m \<le> 2 then 1 else 0)"
  let ?d = "e - (153 * mp + 2) div 5 + 1"
  have yoe: "(doe - doe div 1460 + doe div 36524 - doe div 146096) div 365 = k"
    and doy: "doe - (365 * k + k div 4 - k div 100) = e"
    using yr by simp_all
  have civil: "civil (secs div 86400) = (y, m, ?d)"
    unfolding civil_def Let_def z_def [symmetric] era_def [symmetric] doe_def [symmetric] yoe doy
      mp_def [symmetric] m_def [symmetric] y_def [symmetric] by simp
  have e: "0 \<le> e" "e \<le> 365" "e = 365 \<Longrightarrow> r = 3 \<and> (q < 24 \<or> c = 3)"
    using ine by (auto simp: in_era_def split: if_splits)
  have last: "leap (k + era * 400 + 1)" if "e = 365"
    using last_day_leap [of r q c era] e(3) that ine by (simp add: in_era_def k_def algebra_simps)
  from march_date [OF e(1,2) last, folded mp_def, folded m_def, folded y_def]
  have v: "valid_date y m ?d"
    and n: "years_before y + months_before y m + (?d - 1)
      = years_before (k + era * 400) + (if leap (k + era * 400) then 60 else 59) + e"
    by (simp_all add: algebra_simps)
  have "years_before (k + era * 400) + (if leap (k + era * 400) then 60 else 59)
      = years_before (k + 1 + era * 400) - 306"
    using years_before_Suc [of "k + era * 400"] by (simp add: algebra_simps)
  also have "\<dots> = doe - e + 60 + 146097 * era"
  proof -
    have "0 \<le> k" "k < 400" using ine by (auto simp: in_era_def k_def)
    from march_first [OF this] yr(2) show ?thesis unfolding years_before_era by linarith
  qed
  finally have "day_number y m ?d = secs div 86400"
    using n z by (simp add: day_number_def z_def)
  moreover have mods: "secs mod 86400 mod 3600 = secs mod 3600" "secs mod 86400 mod 60 = secs mod 60"
    by (simp_all add: mod_mod_cancel)
  have "iso_time secs = pad 4 y @ ''-'' @ pad 2 m @ ''-'' @ pad 2 ?d @ ''T''
      @ pad 2 (secs mod 86400 div 3600) @ '':'' @ pad 2 (secs mod 3600 div 60) @ '':''
      @ pad 2 (secs mod 60) @ ''Z''"
    by (simp only: iso_time_def Let_def civil prod.case mods)
  ultimately show ?thesis using v by blast
qed

end
