(* ===== verification/Traces.thy ===== *)
theory Traces
  imports Main
begin

text \<open>
  State machines: the runs of a labelled step relation, and the simulation of one by another.
\<close>

inductive traces :: "('s \<Rightarrow> 'e \<Rightarrow> 's \<Rightarrow> bool) \<Rightarrow> 's \<Rightarrow> 'e list \<Rightarrow> 's \<Rightarrow> bool"
  for R :: "'s \<Rightarrow> 'e \<Rightarrow> 's \<Rightarrow> bool" where
  stop: "traces R s [] s"
| go: "traces R s es t \<Longrightarrow> R t e u \<Longrightarrow> traces R s (es @ [e]) u"

inductive_cases traces_NilE: "traces R s [] t"

lemma traces_Nil [simp]: "traces R s [] t \<longleftrightarrow> s = t"
  by (auto intro: traces.stop elim: traces_NilE)

lemma traces_snoc: "traces R s (es @ [e]) u \<longleftrightarrow> (\<exists>t. traces R s es t \<and> R t e u)"
  by (auto intro: traces.go elim: traces.cases)

lemma traces_one [simp]: "traces R s [e] t \<longleftrightarrow> R s e t"
  using traces_snoc [of R s "[]" e t] by simp

lemma traces_append:
  assumes "traces R s es t" and "traces R t fs u"
  shows "traces R s (es @ fs) u"
  using assms(2,1)
  by (induction rule: traces.induct) (auto simp flip: append_assoc intro: traces.go)

lemma traces_invariant:
  assumes "traces R s es t" and "P s" and "\<And>s e t. P s \<Longrightarrow> R s e t \<Longrightarrow> P t"
  shows "P t"
  using assms by (induction rule: traces.induct) auto

text \<open>
  An event of the detailed machine is a sequence of events of the abstract one: none, if it
  does not concern it.
\<close>

locale simulation =
  fixes R :: "'s \<Rightarrow> 'e \<Rightarrow> 's \<Rightarrow> bool"
    and S :: "'a \<Rightarrow> 'f \<Rightarrow> 'a \<Rightarrow> bool"
    and abs :: "'s \<Rightarrow> 'a"
    and events :: "'e \<Rightarrow> 'f list"
    and inv :: "'s \<Rightarrow> bool"
  assumes step: "inv s \<Longrightarrow> R s e t \<Longrightarrow> traces S (abs s) (events e) (abs t)"
    and keeps: "inv s \<Longrightarrow> R s e t \<Longrightarrow> inv t"
begin

lemma invariant: "traces R s es t \<Longrightarrow> inv s \<Longrightarrow> inv t"
  by (erule traces_invariant) (auto intro: keeps)

lemma refines: "traces R s es t \<Longrightarrow> inv s \<Longrightarrow> traces S (abs s) (concat (map events es)) (abs t)"
proof (induction rule: traces.induct)
  case stop
  then show ?case by simp
next
  case (go s es t e u)
  then show ?case by (auto intro: traces_append step invariant)
qed

end

end
