(* ===== verification/Updater.thy ===== *)
theory Updater
  imports Update Cli Traces
begin

text \<open>
  How the service updates itself (src/helper/windows/updater.rs): a check for an update, the
  swap of the program's file, the status file, and the wait for the clients before the restart.
  Curl, the file system calls and the clock are parameters.
\<close>

section \<open>The service's folder\<close>

definition EXE :: string where "EXE = ''btrfs-peek.exe''"
definition NEW :: string where "NEW = ''btrfs-peek.exe.new''"
definition OLD :: string where "OLD = ''btrfs-peek.exe.old''"
definition STATUS_FILE :: string where "STATUS_FILE = ''update-status.txt''"

lemma names_distinct [simp]:
  "EXE \<noteq> NEW" "EXE \<noteq> OLD" "NEW \<noteq> OLD" "NEW \<noteq> EXE" "OLD \<noteq> EXE" "OLD \<noteq> NEW"
  "STATUS_FILE \<noteq> EXE" "STATUS_FILE \<noteq> NEW" "STATUS_FILE \<noteq> OLD"
  by (simp_all add: EXE_def NEW_def OLD_def STATUS_FILE_def)

text \<open>The files of the folder by name.\<close>

type_synonym folder = "string \<Rightarrow> bytes option"

datatype (plugins only: code size) folder_op =
    Remove string
  | RenameTo string string
  | Create string
  | WriteTo string bytes
  | Sync string

text \<open>
  The state of the updater: the folder, every folder there has been since the start, the calls
  made, the version swapped in (\<open>INSTALLED\<close>) and how often curl was run.
\<close>

record updater =
  up_folder :: folder
  up_past :: "folder list"
  up_ops :: "folder_op list"
  up_installed :: "version option"
  up_fetches :: nat

text \<open>
  Whether a call fails is up to the system, given the calls so far; one on a file that is not
  there always does.  A write that fails may leave anything behind.
\<close>

record system =
  sys_fails :: "folder_op list \<Rightarrow> folder_op \<Rightarrow> io_error option"
  sys_junk :: "folder_op list \<Rightarrow> bytes option"

definition not_found :: io_error where
  "not_found = IoError IoNotFound ''The system cannot find the file specified. (os error 2)''"

fun op_result :: "system \<Rightarrow> folder_op list \<Rightarrow> folder_op \<Rightarrow> folder \<Rightarrow> io_error option" where
  "op_result y ops (Remove p) d = (if d p = None then Some not_found else sys_fails y ops (Remove p))"
| "op_result y ops (RenameTo p q) d =
     (if d p = None then Some not_found else sys_fails y ops (RenameTo p q))"
| "op_result y ops op d = sys_fails y ops op"

fun op_done :: "folder_op \<Rightarrow> folder \<Rightarrow> folder" where
  "op_done (Remove p) d = d(p := None)"
| "op_done (RenameTo p q) d = (d(p := None))(q := d p)"
| "op_done (Create p) d = d(p \<mapsto> [])"
| "op_done (WriteTo p b) d = d(p := map_option (\<lambda>c. c @ b) (d p))"
| "op_done (Sync p) d = d"

fun op_failed :: "bytes option \<Rightarrow> folder_op \<Rightarrow> folder \<Rightarrow> folder" where
  "op_failed j (WriteTo p b) d = d(p := j)"
| "op_failed j op d = d"

definition act :: "system \<Rightarrow> folder_op \<Rightarrow> (updater, unit) eff" where
  "act y op =
     (\<lambda>s. let d = up_folder s; r = op_result y (up_ops s) op d;
          d' = (case r of None \<Rightarrow> op_done op d | Some e \<Rightarrow> op_failed (sys_junk y (up_ops s)) op d) in
        (case r of None \<Rightarrow> Inr () | Some e \<Rightarrow> Inl (Io e),
         s\<lparr>up_folder := d', up_past := up_past s @ [d'], up_ops := up_ops s @ [op]\<rparr>))"

section \<open>The swap\<close>

definition swap :: "system \<Rightarrow> string \<Rightarrow> string \<Rightarrow> string \<Rightarrow> (updater, unit) eff" where
  "swap y exe new old =
     sbind (stry (act y (Remove old))) (\<lambda>r.
     if (case r of Inl (Io e) \<Rightarrow> io_kind e \<noteq> IoNotFound | _ \<Rightarrow> False) then slift r
     else
       sbind (act y (RenameTo exe old)) (\<lambda>_.
       sbind (stry (act y (RenameTo new exe))) (\<lambda>r.
       case r of
         Inl e \<Rightarrow> sbind (stry (act y (RenameTo old exe))) (\<lambda>_. sthrow e)
       | Inr _ \<Rightarrow> sret ())))"

definition install :: "system \<Rightarrow> bytes \<Rightarrow> (updater, unit) eff" where
  "install y exe =
     sbind (act y (Create NEW)) (\<lambda>_.
     sbind (act y (WriteTo NEW exe)) (\<lambda>_.
     sbind (act y (Sync NEW)) (\<lambda>_.
     swap y EXE NEW OLD)))"

definition clean_up :: "system \<Rightarrow> (updater, unit) eff" where
  "clean_up y =
     sbind (stry (act y (Remove OLD))) (\<lambda>_.
     sbind (stry (act y (Remove NEW))) (\<lambda>_. sret ()))"

section \<open>Fetching\<close>

definition RELEASES :: string where
  "RELEASES = ''https://github.com/noahsabaj/btrfs-peek/releases/latest/download/''"

definition ASSET :: string where "ASSET = ''btrfs-peek-windows-x86_64.exe''"

definition MAX_SIG :: nat where [simp]: "MAX_SIG = 16384"
definition MAX_EXE :: nat where [simp]: "MAX_EXE = 67108864"

text \<open>What a run of curl gives: its exit status and what it said, or what it wrote.\<close>

datatype (plugins only: code size) curl_result = CurlFailed string string | CurlOutput bytes

type_synonym curl = "nat \<Rightarrow> string list \<Rightarrow> io_error + curl_result"

definition curl_args :: "string \<Rightarrow> nat \<Rightarrow> nat \<Rightarrow> string list" where
  "curl_args url max_time max_size =
     [''-q'', ''-fsSL'', ''--proto'', ''=https'', ''--proto-redir'', ''=https'', ''--tlsv1.2'',
      ''--max-time'', dec_string max_time, ''--max-filesize'', dec_string max_size, url]"

definition fetch :: "curl \<Rightarrow> string \<Rightarrow> nat \<Rightarrow> nat \<Rightarrow> (updater, bytes) eff" where
  "fetch curl url max_time max_size =
     sbind (sget up_fetches) (\<lambda>k.
     sbind (smodify (\<lambda>s. s\<lparr>up_fetches := Suc k\<rparr>)) (\<lambda>_.
     case curl k (curl_args url max_time max_size) of
       Inl e \<Rightarrow> sthrow (Io (IoError (io_kind e) (''running curl.exe: '' @ io_message e)))
     | Inr (CurlFailed status why) \<Rightarrow>
         sthrow (Io (IoError IoOther (''fetching '' @ url @ '' failed ('' @ status @ ''): '' @ why)))
     | Inr (CurlOutput out) \<Rightarrow>
         if max_size < length out then
           sthrow (Io (IoError IoOther (url @ '' is larger than '' @ dec_string max_size @ '' bytes'')))
         else sret out))"

section \<open>A check for an update\<close>

text \<open>What an \<open>update_error\<close> is as an \<open>io::Error\<close>; the texts are kept apart by \<open>why\<close>.\<close>

definition rejected :: "(update_error \<Rightarrow> string) \<Rightarrow> update_error \<Rightarrow> err" where
  "rejected why e = Io (IoError IoInvalidData (why e))"

definition check_for_update ::
  "('key, 'sig) minisign \<Rightarrow> (update_error \<Rightarrow> string) \<Rightarrow> curl \<Rightarrow> system \<Rightarrow> version
     \<Rightarrow> (updater, update) eff" where
  "check_for_update m why curl y running =
     sbind (sget up_installed) (\<lambda>i.
     case i of
       Some v \<Rightarrow> sret (Installed v)
     | None \<Rightarrow>
         sbind (fetch curl (RELEASES @ ASSET @ ''.minisig'') 120 MAX_SIG) (\<lambda>raw.
         case from_utf8 raw of
           None \<Rightarrow> sthrow (Io (IoError IoInvalidData ''the signature is not UTF-8''))
         | Some sig \<Rightarrow>
             sbind (slift (map_err (rejected why) (announced m sig))) (\<lambda>a.
             if a \<le> running then sret (UpToDate running)
             else
               sbind (fetch curl (RELEASES @ ASSET) 900 MAX_EXE) (\<lambda>exe.
               sbind (slift (map_err (rejected why) (verify_update m release_key exe sig running))) (\<lambda>v.
               sbind (install y exe) (\<lambda>_.
               sbind (smodify (\<lambda>s. s\<lparr>up_installed := Some v\<rparr>)) (\<lambda>_.
               sret (Installed v))))))))"

section \<open>The status file\<close>

text \<open>
  \<open>split_whitespace\<close>: how many bytes a whitespace character at the head of the text takes, in
  UTF-8; 0 if there is none.
\<close>

definition space_len :: "string \<Rightarrow> nat" where
  "space_len s =
     (let b = as_bytes (take 3 s) in
      if b \<noteq> [] \<and> (9 \<le> hd b \<and> hd b \<le> 13 \<or> hd b = 32) then 1
      else if take 2 b \<in> {[0xC2, 0x85], [0xC2, 0xA0]} then 2
      else if b \<in> {[0xE1, 0x9A, 0x80], [0xE2, 0x80, 0xA8], [0xE2, 0x80, 0xA9], [0xE2, 0x80, 0xAF],
          [0xE2, 0x81, 0x9F], [0xE3, 0x80, 0x80]} then 3
      else if length b = 3 \<and> take 2 b = [0xE2, 0x80] \<and> 0x80 \<le> b ! 2 \<and> b ! 2 \<le> 0x8A then 3
      else 0)"

function split_whitespace :: "string \<Rightarrow> string \<Rightarrow> string list" where
  "split_whitespace acc [] = (if acc = [] then [] else [acc])"
| "split_whitespace acc (c # s) =
     (case space_len (c # s) of
        0 \<Rightarrow> split_whitespace (acc @ [c]) s
      | Suc n \<Rightarrow> (if acc = [] then [] else [acc]) @ split_whitespace [] (drop n s))"
  by pat_completeness auto
termination
  by (relation "measure (\<lambda>(acc, s). length s)") auto

definition newline :: char where [simp]: "newline = CHR 0x0A"

definition status_text :: "int \<Rightarrow> io_error + update \<Rightarrow> string" where
  "status_text now r =
     ''checked: '' @ iso_time now @ [newline] @
     (case r of
        Inr u \<Rightarrow> ''outcome: '' @ update_show u @ [newline]
      | Inl e \<Rightarrow>
          ''outcome: failed'' @ [newline] @ ''error: ''
          @ join_with '' '' (split_whitespace [] (io_message e)) @ [newline])"

text \<open>\<open>str::lines\<close>: a newline ends a line, and takes a carriage return before it along.\<close>

definition strip_cr :: "string \<Rightarrow> string" where
  "strip_cr l = (if l \<noteq> [] \<and> last l = CHR 0x0D then butlast l else l)"

definition text_lines :: "string \<Rightarrow> string list" where
  "text_lines s =
     (let ls = split_on (\<lambda>c. c = newline) s in
      map strip_cr (butlast ls) @ (if last ls = [] then [] else [last ls]))"

definition parse_status :: "string \<Rightarrow> (string \<times> string) list" where
  "parse_status text = List.map_filter (split_once '': '') (text_lines text)"

definition check_and_record ::
  "('key, 'sig) minisign \<Rightarrow> (update_error \<Rightarrow> string) \<Rightarrow> curl \<Rightarrow> system \<Rightarrow> version \<Rightarrow> int
     \<Rightarrow> (updater, update) eff" where
  "check_and_record m why curl y running now =
     sbind (stry (check_for_update m why curl y running)) (\<lambda>r.
     let text = status_text now (case r of Inl (Io e) \<Rightarrow> Inl e | Inl e \<Rightarrow> Inl not_found | Inr u \<Rightarrow> Inr u) in
     sbind (stry (sbind (act y (Create STATUS_FILE)) (\<lambda>_. act y (WriteTo STATUS_FILE (as_bytes text)))))
       (\<lambda>_. slift r))"

section \<open>Waiting for the clients\<close>

text \<open>
  The sessions in progress (\<open>ACTIVE\<close>), whether a thread waits to restart (\<open>WAITING\<close>) and until
  when at most, whether it has seen reason to stop waiting, the clock in seconds, and whether
  the process has ended.  Between the last look at \<open>ACTIVE\<close> and the end of the process other
  threads may still run.
\<close>

record process =
  pr_active :: nat
  pr_waiting :: bool
  pr_deadline :: nat
  pr_leaving :: bool
  pr_now :: nat
  pr_ended :: bool

definition service_start :: "nat \<Rightarrow> process" where
  "service_start now =
     \<lparr>pr_active = 0, pr_waiting = False, pr_deadline = 0, pr_leaving = False, pr_now = now,
      pr_ended = False\<rparr>"

definition IDLE_POLL :: nat where [simp]: "IDLE_POLL = 2"
definition IDLE_LIMIT :: nat where [simp]: "IDLE_LIMIT = 3600"

text \<open>The first call of \<open>restart_when_idle\<close> sets the deadline; the others return.\<close>

definition restart_when_idle :: "process \<Rightarrow> process" where
  "restart_when_idle p =
     (if pr_waiting p then p
      else p\<lparr>pr_waiting := True, pr_deadline := pr_now p + IDLE_LIMIT\<rparr>)"

text \<open>One look of its loop: another sleep, or out of the loop.\<close>

definition poll :: "process \<Rightarrow> process" where
  "poll p =
     (if 0 < pr_active p \<and> pr_now p < pr_deadline p then p\<lparr>pr_now := pr_now p + IDLE_POLL\<rparr>
      else p\<lparr>pr_leaving := True\<rparr>)"

definition busy_enter :: "process \<Rightarrow> process" where
  "busy_enter p = p\<lparr>pr_active := pr_active p + 1\<rparr>"

definition busy_drop :: "process \<Rightarrow> process" where
  "busy_drop p = p\<lparr>pr_active := pr_active p - 1\<rparr>"

text \<open>
  The thread that checks, for \<open>n\<close> rounds: it sleeps, checks, and asks for the restart once an update is in
  place.  \<open>wall\<close> is the time of day; how long a check takes is left out.
\<close>

definition FIRST_CHECK :: nat where "FIRST_CHECK = 600"
definition EVERY :: nat where "EVERY = 86400"

fun check_rounds ::
  "('key, 'sig) minisign \<Rightarrow> (update_error \<Rightarrow> string) \<Rightarrow> curl \<Rightarrow> system \<Rightarrow> version \<Rightarrow> (nat \<Rightarrow> int)
     \<Rightarrow> nat \<Rightarrow> nat \<Rightarrow> updater \<times> process \<Rightarrow> updater \<times> process"
where
  "check_rounds m why curl y running wall 0 pause sp = sp"
| "check_rounds m why curl y running wall (Suc n) pause (s, p) =
     (let p' = p\<lparr>pr_now := pr_now p + pause\<rparr> in
      case check_and_record m why curl y running (wall (pr_now p')) s of
        (r, t) \<Rightarrow>
          check_rounds m why curl y running wall n EVERY
            (t, case r of Inr (Installed v) \<Rightarrow> restart_when_idle p' | _ \<Rightarrow> p'))"

definition spawn_checks ::
  "('key, 'sig) minisign \<Rightarrow> (update_error \<Rightarrow> string) \<Rightarrow> curl \<Rightarrow> system \<Rightarrow> version \<Rightarrow> (nat \<Rightarrow> int)
     \<Rightarrow> nat \<Rightarrow> updater \<times> process \<Rightarrow> updater \<times> process"
where
  "spawn_checks m why curl y running wall n = check_rounds m why curl y running wall n FIRST_CHECK"

text \<open>What the threads do: clients come and go, time passes, a check has installed an update, the
  waiting thread looks, and it ends the process.\<close>

datatype (plugins only: code size) happening = Enter | Leave | Tick nat | Renewed | Look | Out

inductive step :: "process \<Rightarrow> happening \<Rightarrow> process \<Rightarrow> bool" where
  enter: "\<not> pr_ended p \<Longrightarrow> step p Enter (busy_enter p)"
| leave: "\<not> pr_ended p \<Longrightarrow> 0 < pr_active p \<Longrightarrow> step p Leave (busy_drop p)"
| tick: "\<not> pr_ended p \<Longrightarrow> step p (Tick t) (p\<lparr>pr_now := pr_now p + t\<rparr>)"
| updated: "\<not> pr_ended p \<Longrightarrow> step p Renewed (restart_when_idle p)"
| look: "\<not> pr_ended p \<Longrightarrow> pr_waiting p \<Longrightarrow> \<not> pr_leaving p \<Longrightarrow> step p Look (poll p)"
| out: "\<not> pr_ended p \<Longrightarrow> pr_leaving p \<Longrightarrow> step p Out (p\<lparr>pr_ended := True\<rparr>)"

inductive_cases step_cases [elim!]: "step p e q"
inductive_simps step_Out: "step p Out q"
inductive_simps step_Look: "step p Look q"

end
