(* ===== verification/Updater_Facts.thy ===== *)
theory Updater_Facts
  imports Updater
begin

text \<open>
  An update cannot lose the program: at every moment its file, or the one it was moved aside
  to, holds a whole build; only builds that verify are put in place; and the service restarts
  only when it is idle or has waited for an hour.
\<close>

section \<open>The program's file\<close>

text \<open>The folder holds the build \<open>e\<close> that was running, in its place or aside, or \<open>new\<close>.\<close>

definition has_build :: "bytes \<Rightarrow> bytes \<Rightarrow> folder \<Rightarrow> bool" where
  "has_build e new d \<longleftrightarrow> d EXE = Some e \<or> d OLD = Some e \<and> (d EXE = None \<or> d EXE = Some new)"

text \<open>Every folder there has been since \<open>s\<close>; no update has been noted since.\<close>

definition since :: "(folder \<Rightarrow> bool) \<Rightarrow> updater \<Rightarrow> updater \<Rightarrow> bool" where
  "since P s t \<longleftrightarrow>
     up_installed t = up_installed s \<and> (\<exists>ds. up_past t = up_past s @ ds \<and> list_all P ds)"

lemma since_refl: "since P s s"
  by (simp add: since_def)

lemma since_trans: "since P s t \<Longrightarrow> since P t u \<Longrightarrow> since P s u"
  by (auto simp: since_def)

lemma act_cases:
  assumes "act y op s = (r, t)"
  obtains (ok) "r = Inr ()" "up_folder t = op_done op (up_folder s)" "op_result y (up_ops s) op (up_folder s) = None"
  | (failed) e where "r = Inl (Io e)" "up_folder t = op_failed (sys_junk y (up_ops s)) op (up_folder s)"
      "op_result y (up_ops s) op (up_folder s) = Some e"
  using assms by (auto simp: act_def Let_def split: option.splits)

lemma act_since: "act y op s = (r, t) \<Longrightarrow> P (up_folder t) \<Longrightarrow> since P s t"
  by (auto simp: act_def Let_def since_def)

text \<open>A step from a folder that satisfies \<open>P\<close> to one that satisfies \<open>Q\<close> or \<open>E\<close>, as it
  succeeds or fails, through folders that satisfy \<open>G\<close>.\<close>

definition goes ::
  "(folder \<Rightarrow> bool) \<Rightarrow> (folder \<Rightarrow> bool) \<Rightarrow> (updater, 'a) eff \<Rightarrow> (folder \<Rightarrow> bool) \<Rightarrow> (folder \<Rightarrow> bool) \<Rightarrow> bool" where
  "goes G P m Q E \<longleftrightarrow>
     (\<forall>s r t. P (up_folder s) \<longrightarrow> m s = (r, t) \<longrightarrow>
        since G s t \<and> (case r of Inr _ \<Rightarrow> Q (up_folder t) | Inl _ \<Rightarrow> E (up_folder t)))"

lemma goes_ret: "(\<And>d. P d \<Longrightarrow> Q d) \<Longrightarrow> goes G P (sret y) Q E"
  by (auto simp: goes_def since_refl)

lemma goes_throw: "(\<And>d. P d \<Longrightarrow> E d) \<Longrightarrow> goes G P (sthrow e) Q E"
  by (auto simp: goes_def since_refl)

lemma goes_bind:
  assumes "goes G P m Q E" and "\<And>y. goes G Q (f y) R E"
  shows "goes G P (sbind m f) R E"
  unfolding goes_def
proof (intro allI impI)
  fix s r t assume P: "P (up_folder s)" and run: "sbind m f s = (r, t)"
  obtain q u where m: "m s = (q, u)" by (cases "m s")
  with assms(1) P have u: "since G s u" "case q of Inr _ \<Rightarrow> Q (up_folder u) | Inl _ \<Rightarrow> E (up_folder u)"
    by (auto simp: goes_def)
  show "since G s t \<and> (case r of Inr _ \<Rightarrow> R (up_folder t) | Inl _ \<Rightarrow> E (up_folder t))"
  proof (cases q)
    case (Inl e)
    with m run u show ?thesis by (auto simp: sbind_def)
  next
    case (Inr x)
    with m run have "f x u = (r, t)" by (simp add: sbind_def)
    with assms(2) [of x] u Inr have "since G u t" "case r of Inr _ \<Rightarrow> R (up_folder t) | Inl _ \<Rightarrow> E (up_folder t)"
      by (auto simp: goes_def)
    with u(1) show ?thesis by (auto intro: since_trans)
  qed
qed

lemma goes_try:
  assumes m: "goes G P m Q E" and good: "\<And>x. goes G Q (f (Inr x)) R F"
    and bad: "\<And>e. goes G E (f (Inl e)) R F"
  shows "goes G P (sbind (stry m) f) R F"
  unfolding goes_def
proof (intro allI impI)
  fix s r t assume P: "P (up_folder s)" and run: "sbind (stry m) f s = (r, t)"
  obtain q u where mu: "m s = (q, u)" by (cases "m s")
  with m P have u: "since G s u" "case q of Inr _ \<Rightarrow> Q (up_folder u) | Inl _ \<Rightarrow> E (up_folder u)"
    by (auto simp: goes_def)
  from mu run have "f q u = (r, t)" by (simp add: sbind_def stry_def)
  with good bad u(2) have "since G u t \<and> (case r of Inr _ \<Rightarrow> R (up_folder t) | Inl _ \<Rightarrow> F (up_folder t))"
    by (cases q) (auto simp: goes_def)
  with u(1) show "since G s t \<and> (case r of Inr _ \<Rightarrow> R (up_folder t) | Inl _ \<Rightarrow> F (up_folder t))"
    by (auto intro: since_trans)
qed

lemma goes_act:
  assumes "\<And>d. P d \<Longrightarrow> Q (op_done op d) \<and> G (op_done op d)"
    and "\<And>d j. P d \<Longrightarrow> E (op_failed j op d) \<and> G (op_failed j op d)"
  shows "goes G P (act y op) Q E"
  unfolding goes_def
proof (intro allI impI)
  fix s r t assume P: "P (up_folder s)" and run: "act y op s = (r, t)"
  from run show "since G s t \<and> (case r of Inr _ \<Rightarrow> Q (up_folder t) | Inl _ \<Rightarrow> E (up_folder t))"
    using act_since [OF run, of G] assms P by (cases rule: act_cases) auto
qed


lemma goes_weaken:
  assumes "goes G P m Q E" and "\<And>d. P' d \<Longrightarrow> P d"
  shows "goes G P' m Q E"
  using assms by (auto simp: goes_def)

lemma goes_if: "goes G P a Q E \<Longrightarrow> goes G P b Q E \<Longrightarrow> goes G P (if c then a else b) Q E"
  by simp

text \<open>The swap, from a folder with the build in place and the new one beside it.\<close>

abbreviation (input) before :: "bytes \<Rightarrow> bytes \<Rightarrow> folder \<Rightarrow> bool" where
  "before e new d \<equiv> d EXE = Some e \<and> d NEW = Some new"

abbreviation (input) aside :: "bytes \<Rightarrow> bytes \<Rightarrow> folder \<Rightarrow> bool" where
  "aside e new d \<equiv> d EXE = None \<and> d OLD = Some e \<and> d NEW = Some new"

abbreviation (input) swapped :: "bytes \<Rightarrow> bytes \<Rightarrow> folder \<Rightarrow> bool" where
  "swapped e new d \<equiv> d EXE = Some new \<and> d OLD = Some e"

abbreviation (input) kept :: "bytes \<Rightarrow> folder \<Rightarrow> bool" where
  "kept e d \<equiv> d EXE = Some e \<or> d EXE = None \<and> d OLD = Some e"

lemma goes_back:
  "goes (has_build e new) (aside e new) (sbind (stry (act y (RenameTo OLD EXE))) (\<lambda>_. sthrow x)) (swapped e new) (kept e)"
  by (rule goes_try [where Q = "kept e" and E = "kept e"])
    (auto intro!: goes_act goes_throw simp: has_build_def)

lemma goes_over:
  "goes (has_build e new) (before e new)
     (sbind (act y (RenameTo EXE OLD)) (\<lambda>_.
      sbind (stry (act y (RenameTo NEW EXE))) (\<lambda>r.
      case r of
        Inl x \<Rightarrow> sbind (stry (act y (RenameTo OLD EXE))) (\<lambda>_. sthrow x)
      | Inr _ \<Rightarrow> sret ()))) (swapped e new) (kept e)"
proof (rule goes_bind [where Q = "aside e new"])
  show "goes (has_build e new) (before e new) (act y (RenameTo EXE OLD)) (aside e new) (kept e)"
    by (auto intro!: goes_act simp: has_build_def)
  show "goes (has_build e new) (aside e new) (sbind (stry (act y (RenameTo NEW EXE)))
      (\<lambda>r. case r of Inl x \<Rightarrow> sbind (stry (act y (RenameTo OLD EXE))) (\<lambda>_. sthrow x)
        | Inr _ \<Rightarrow> sret ())) (swapped e new) (kept e)" for u :: unit
    by (rule goes_try [where Q = "swapped e new" and E = "aside e new"])
      (auto intro!: goes_act goes_ret goes_back simp: has_build_def)
qed

lemma goes_swap: "goes (has_build e new) (before e new) (swap y EXE NEW OLD) (swapped e new) (kept e)"
  unfolding swap_def
proof (rule goes_try [where Q = "before e new" and E = "before e new"], goal_cases)
  case 1 then show ?case by (auto intro!: goes_act simp: has_build_def)
next
  case 2 show ?case by (simp only: sum.case if_False goes_over)
next
  case (3 x)
  have "goes (has_build e new) (before e new) (slift (Inl x)) (swapped e new) (kept e)"
    by (simp add: goes_def since_refl)
  then show ?case by (intro goes_if goes_over)
qed

lemma goes_install:
  "goes (has_build e new) (\<lambda>d. d EXE = Some e) (install y new) (swapped e new) (kept e)"
  unfolding install_def
proof (rule goes_bind [where Q = "\<lambda>d. d EXE = Some e \<and> d NEW = Some []"])
  show "goes (has_build e new) (\<lambda>d. d EXE = Some e) (act y (Create NEW))
      (\<lambda>d. d EXE = Some e \<and> d NEW = Some []) (kept e)"
    by (auto intro!: goes_act simp: has_build_def)
  show "goes (has_build e new) (\<lambda>d. d EXE = Some e \<and> d NEW = Some [])
      (sbind (act y (WriteTo NEW new)) (\<lambda>_. sbind (act y (Sync NEW)) (\<lambda>_. swap y EXE NEW OLD)))
      (swapped e new) (kept e)" for u :: unit
    by (rule goes_bind [where Q = "before e new"] goes_act goes_swap
        | auto simp: has_build_def)+
qed

text \<open>
  C29: Installing an update never loses the program: whatever calls fail and whatever a failed
  write leaves, in every folder there is on the way the program's file is the old build, or it
  is aside with the new one or nothing in its place.  A success puts the new build in place
  and the old one aside; after a failure the old build is in place, or aside if it could not
  be put back.
\<close>
theorem install_keeps_a_build:
  assumes "up_folder s EXE = Some e" and "install y new s = (r, t)"
  shows "(\<exists>ds. up_past t = up_past s @ ds \<and> list_all (has_build e new) ds) \<and>
    (case r of
       Inr _ \<Rightarrow> up_folder t EXE = Some new \<and> up_folder t OLD = Some e
     | Inl _ \<Rightarrow> up_folder t EXE = Some e \<or> up_folder t EXE = None \<and> up_folder t OLD = Some e)"
  using goes_install [of e new y] assms by (auto simp: goes_def since_def)

definition demo_updater :: updater where
  "demo_updater =
     \<lparr>up_folder = [EXE \<mapsto> [1]], up_past = [], up_ops = [], up_installed = None, up_fetches = 0\<rparr>"

text \<open>A system on which the new build cannot take its place.\<close>

definition jammed :: system where
  "jammed =
     \<lparr>sys_fails = (\<lambda>_ op. if op = RenameTo NEW EXE then Some (IoError IoOther ''in use'') else None),
      sys_junk = (\<lambda>_. None)\<rparr>"

theorem install_keeps_a_build_witness:
  "up_folder demo_updater EXE = Some [1] \<and>
   (\<exists>ds. up_past (snd (install jammed [2] demo_updater)) = up_past demo_updater @ ds
      \<and> list_all (has_build [1] [2]) ds)"
  using install_keeps_a_build
    [of demo_updater "[1]" jammed "[2]" "fst (install jammed [2] demo_updater)" "snd (install jammed [2] demo_updater)"]
  by (simp add: demo_updater_def)

section \<open>What is installed\<close>

lemma fetch_cases:
  assumes "fetch curl url time limit s = (r, t)"
  shows "up_folder t = up_folder s" and "up_installed t = up_installed s"
    and "up_fetches t = Suc (up_fetches s)"
    and "r = Inr out \<Longrightarrow> curl (up_fetches s) (curl_args url time limit) = Inr (CurlOutput out) \<and> length out \<le> limit"
  using assms
  by (auto simp: fetch_def sbind_def sthrow_def split: sum.splits curl_result.splits if_splits)

text \<open>
  C30: What a check does.  It says an update is installed only after fetching a signature and
  a build that verify under the release key, within the size limits, as a version newer than
  the running one; the program's file then holds exactly those bytes, and the version is noted.
  When it says the program is up to date it has touched nothing; when it fails, the running
  build is in place or aside, and nothing is noted.
\<close>
theorem check_installs_verified:
  assumes "up_folder s EXE = Some e" and "up_installed s = None"
    and "check_for_update m why curl y running s = (r, t)"
  shows "case r of
      Inr (Installed v) \<Rightarrow>
        (\<exists>raw sig exe. curl (up_fetches s) (curl_args (RELEASES @ ASSET @ ''.minisig'') 120 MAX_SIG) = Inr (CurlOutput raw)
          \<and> length raw \<le> MAX_SIG \<and> from_utf8 raw = Some sig
          \<and> curl (Suc (up_fetches s)) (curl_args (RELEASES @ ASSET) 900 MAX_EXE) = Inr (CurlOutput exe)
          \<and> length exe \<le> MAX_EXE
          \<and> verify_update m release_key exe sig running = Inr v \<and> running < v
          \<and> up_folder t EXE = Some exe \<and> up_folder t OLD = Some e \<and> up_installed t = Some v)
    | Inr (UpToDate v) \<Rightarrow> v = running \<and> up_folder t = up_folder s \<and> up_installed t = None
    | Inl _ \<Rightarrow> kept e (up_folder t) \<and> up_installed t = None"
proof -
  define sig_url where "sig_url = RELEASES @ ASSET @ ''.minisig''"
  define exe_url where "exe_url = RELEASES @ ASSET"
  obtain q u where f1: "fetch curl sig_url 120 MAX_SIG s = (q, u)" by (cases "fetch curl sig_url 120 MAX_SIG s")
  note u = fetch_cases [OF f1]
  note run = assms(3) [unfolded check_for_update_def, folded sig_url_def exe_url_def, unfolded sbind_get assms(2), unfolded option.case]
  show ?thesis
  proof (cases "\<exists>raw sig a. q = Inr raw \<and> from_utf8 raw = Some sig \<and> announced m sig = Inr a \<and> \<not> a \<le> running")
    case False
    with run f1 u assms(1,2) show ?thesis
      by (auto simp: sbind_def sthrow_def sret_def map_err_def split: sum.splits option.splits if_splits)
  next
    case True
    then obtain raw sig a where ok: "q = Inr raw" "from_utf8 raw = Some sig" "announced m sig = Inr a" "\<not> a \<le> running"
      by blast
    obtain q' u' where f2: "fetch curl exe_url 900 MAX_EXE u = (q', u')" by (cases "fetch curl exe_url 900 MAX_EXE u")
    note u' = fetch_cases [OF f2]
    show ?thesis
    proof (cases "\<exists>exe v. q' = Inr exe \<and> verify_update m release_key exe sig running = Inr v")
      case False
      with run f1 f2 ok u u' assms(1,2) show ?thesis
        by (auto simp: sbind_def sthrow_def sret_def map_err_def split: sum.splits)
    next
      case True
      then obtain exe v where v: "q' = Inr exe" "verify_update m release_key exe sig running = Inr v" by blast
      obtain q'' u'' where ins: "install y exe u' = (q'', u'')" by (cases "install y exe u'")
      have "since (has_build e exe) u' u'' \<and>
          (case q'' of Inr _ \<Rightarrow> swapped e exe (up_folder u'') | Inl _ \<Rightarrow> kept e (up_folder u''))"
        using goes_install [of e exe y, unfolded goes_def, rule_format, OF _ ins] u(1) u'(1) assms(1) by simp
      moreover have "running < v" using v(2) by (auto simp: verify_update_def result_simps split: if_splits)
      ultimately show ?thesis
        using run f1 f2 ok v ins u u' assms(2)
        by (cases q'') (auto simp: sbind_def sret_def map_err_def since_def sig_url_def exe_url_def)
    qed
  qed
qed

text \<open>A release of version 0.4.0, whose signature is its comment.\<close>

definition demo_minisign :: "(unit, string) minisign" where
  "demo_minisign =
     \<lparr>key_from_base64 = (\<lambda>_. Inr ()), sig_decode = Inr, trusted_comment = (\<lambda>s. s),
      key_verify = (\<lambda>_ exe _ _. if exe = [2] then Inr () else Inl ''signature mismatch'')\<rparr>"

definition demo_curl :: curl where
  "demo_curl k _ =
     Inr (CurlOutput (if k = 0 then as_bytes ''btrfs-peek 0.4.0 windows-x86_64'' else [2]))"

definition calm :: system where
  "calm = \<lparr>sys_fails = (\<lambda>_ _. None), sys_junk = (\<lambda>_. None)\<rparr>"

definition demo_check :: "(err + update) \<times> updater" where
  "demo_check = check_for_update demo_minisign (\<lambda>_. []) demo_curl calm (Version 0 3 0) demo_updater"

lemma demo_text: "from_utf8 (as_bytes ''btrfs-peek 0.4.0 windows-x86_64'') = Some ''btrfs-peek 0.4.0 windows-x86_64''"
proof -
  have "is_utf8 (as_bytes ''btrfs-peek 0.4.0 windows-x86_64'')"
    by (rule is_utf8_ascii) (simp add: as_bytes_def)
  then show ?thesis by (simp add: from_utf8_def)
qed

lemma demo_comment: "comment_version ''btrfs-peek 0.4.0 windows-x86_64'' = Some (Version 0 4 0)"
proof -
  have "version_show (Version 0 4 0) = ''0.4.0''" by code_simp
  then show ?thesis
    by (simp add: comment_version_Some comment_show_def TARGET_def version_ok_def)
qed

lemma demo_newer: "Version 0 4 0 \<le> Version 0 3 0 \<longleftrightarrow> False"
  by (simp add: less_eq_version_def)

lemma demo_announced: "announced demo_minisign ''btrfs-peek 0.4.0 windows-x86_64'' = Inr (Version 0 4 0)"
  by (simp add: announced_def decode_sig_def comment_or_wrong_def demo_minisign_def demo_comment map_err_def)

lemma demo_verify:
  "verify_update demo_minisign key [2] ''btrfs-peek 0.4.0 windows-x86_64'' (Version 0 3 0) = Inr (Version 0 4 0)"
  by (simp add: verify_update_def decode_sig_def comment_or_wrong_def demo_minisign_def demo_comment
      demo_newer map_err_def)

lemmas demo_release = demo_text demo_announced demo_verify demo_newer

lemma demo_release_size: "length (as_bytes ''btrfs-peek 0.4.0 windows-x86_64'') = 31"
  by (simp add: as_bytes_def)

lemma demo_check_installs: "fst demo_check = Inr (Installed (Version 0 4 0))"
proof -
  let ?sig = "''btrfs-peek 0.4.0 windows-x86_64''"
  let ?u = "\<lambda>k. demo_updater\<lparr>up_fetches := k\<rparr>"
  have f1: "sbind (fetch demo_curl url 120 MAX_SIG) f demo_updater = f (as_bytes ?sig) (?u 1)"
    for url and f :: "bytes \<Rightarrow> (updater, update) eff"
    using demo_release_size by (simp add: fetch_def sbind_def demo_curl_def demo_updater_def)
  have f2: "sbind (fetch demo_curl url 900 MAX_EXE) f (?u 1) = f [2] (?u 2)"
    for url and f :: "bytes \<Rightarrow> (updater, update) eff"
    by (simp add: fetch_def sbind_def demo_curl_def demo_updater_def numeral_2_eq_2)
  have demo_none: "up_installed demo_updater = None" by (simp add: demo_updater_def)
  have ins: "fst (install calm [2] (?u 2)) = Inr ()"
    by (simp add: install_def swap_def sbind_def stry_def act_def calm_def demo_updater_def not_found_def Let_def)
  have "check_for_update demo_minisign (\<lambda>_. []) demo_curl calm (Version 0 3 0) demo_updater =
      sbind (install calm [2]) (\<lambda>_. sbind (smodify (\<lambda>s. s\<lparr>up_installed := Some (Version 0 4 0)\<rparr>))
        (\<lambda>_. sret (Installed (Version 0 4 0)))) (?u 2)"
    unfolding check_for_update_def sbind_get demo_none option.case f1 demo_release
    by (simp only: map_err_def sum.case sbind_lift_Inr demo_newer if_False f2 demo_release option.case)
  with ins show ?thesis
    by (cases "install calm [2] (?u 2)") (simp add: demo_check_def sbind_def)
qed

theorem check_installs_verified_witness:
  "\<exists>exe sig. verify_update demo_minisign release_key exe sig (Version 0 3 0)
       = Inr (Version 0 4 0)
     \<and> up_folder (snd demo_check) EXE = Some exe \<and> up_folder (snd demo_check) OLD = Some [1]"
proof -
  have "check_for_update demo_minisign (\<lambda>_. []) demo_curl calm (Version 0 3 0) demo_updater
      = (Inr (Installed (Version 0 4 0)), snd demo_check)"
    by (metis demo_check_def demo_check_installs prod.collapse)
  from check_installs_verified [OF _ _ this, of "[1]"] show ?thesis
    by (auto simp: demo_updater_def)
qed

section \<open>From an update to the restart\<close>

text \<open>Nothing but the end of a check notes a version; a check says just what is noted.\<close>

definition keeps_note :: "updater \<Rightarrow> updater \<Rightarrow> bool" where
  "keeps_note s t \<longleftrightarrow> up_installed t = up_installed s"

interpretation keeps_note: progress keeps_note
  by unfold_locales (simp_all add: keeps_note_def)

lemma act_keeps_note: "moves keeps_note (act y op)"
  by (simp add: moves_def keeps_note_def act_def Let_def split: option.split)

lemma fetch_keeps_note: "moves keeps_note (fetch curl url time limit)"
proof -
  have "moves keeps_note (smodify (\<lambda>s. s\<lparr>up_fetches := k\<rparr>))" for k
    by (simp add: moves_def keeps_note_def)
  then show ?thesis unfolding fetch_def
    by (auto intro!: keeps_note.moves_rules split: curl_result.split)
qed

lemma install_keeps_note: "moves keeps_note (install y exe)"
  unfolding install_def swap_def by (intro keeps_note.moves_rules act_keeps_note)

lemma keeps_noteD: "moves keeps_note m \<Longrightarrow> m s = (r, t) \<Longrightarrow> up_installed t = up_installed s"
  unfolding moves_def keeps_note_def by (metis snd_conv)

lemma check_notes:
  assumes "check_for_update m why curl y running s = (r, t)"
  shows "up_installed t = (case r of Inr (Installed v) \<Rightarrow> Some v | _ \<Rightarrow> up_installed s)"
proof (cases "up_installed s")
  case (Some v)
  with assms show ?thesis by (auto simp: check_for_update_def)
next
  case None
  with assms show ?thesis
    by (auto simp: check_for_update_def sbind_def split: prod.splits sum.splits option.splits if_splits
        dest!: keeps_noteD [OF fetch_keeps_note] keeps_noteD [OF install_keeps_note])
qed

lemma record_notes:
  assumes "check_and_record m why curl y running now s = (r, t)"
  shows "up_installed t = (case r of Inr (Installed v) \<Rightarrow> Some v | _ \<Rightarrow> up_installed s)"
proof -
  obtain u where u: "check_for_update m why curl y running s = (r, u)" "up_installed t = up_installed u"
    using assms
    by (auto simp: check_and_record_def sbind_def stry_def Let_def split: prod.splits sum.splits
        dest!: keeps_noteD [OF act_keeps_note])
  with check_notes [OF u(1)] show ?thesis by simp
qed

text \<open>
  However many rounds the checking thread makes, the service waits to restart exactly from the moment an
  update is in place: none is installed and forgotten, and no restart comes without one.
\<close>

lemma checks_wait_for_restart:
  assumes "up_installed s = None \<longleftrightarrow> \<not> pr_waiting p"
    and "spawn_checks m why curl y running wall n (s, p) = (s', p')"
  shows "up_installed s' = None \<longleftrightarrow> \<not> pr_waiting p'"
proof -
  have "up_installed s' = None \<longleftrightarrow> \<not> pr_waiting p'"
    if "check_rounds m why curl y running wall n pause (s, p) = (s', p')"
      and "up_installed s = None \<longleftrightarrow> \<not> pr_waiting p" for pause s p
    using that
  proof (induction n arbitrary: pause s p)
    case (Suc n)
    let ?p = "p\<lparr>pr_now := pr_now p + pause\<rparr>"
    obtain r t where r: "check_and_record m why curl y running (wall (pr_now ?p)) s = (r, t)"
      by fastforce
    let ?q = "case r of Inr (Installed v) \<Rightarrow> restart_when_idle ?p | _ \<Rightarrow> ?p"
    have "up_installed t = None \<longleftrightarrow> \<not> pr_waiting ?q"
      using record_notes [OF r] Suc.prems(2)
      by (auto simp: restart_when_idle_def split: sum.split update.split)
    with Suc.IH [of EVERY t ?q] Suc.prems(1) r show ?case by (simp add: Let_def)
  qed simp
  with assms show ?thesis by (simp add: spawn_checks_def)
qed

section \<open>The restart\<close>

definition looks :: "happening list \<Rightarrow> nat" where
  "looks es = length (filter (\<lambda>e. e = Look) es)"

definition waits :: "happening list \<Rightarrow> process \<Rightarrow> bool" where
  "waits es p \<longleftrightarrow>
     (\<not> pr_waiting p \<longrightarrow> looks es = 0 \<and> \<not> pr_leaving p) \<and>
     (pr_ended p \<longrightarrow> pr_leaving p) \<and>
     (pr_waiting p \<and> \<not> pr_leaving p \<longrightarrow> pr_deadline p + 2 * looks es \<le> pr_now p + 3600 \<and> looks es \<le> 1800) \<and>
     looks es \<le> 1801"

lemma waits_step: "waits es p \<Longrightarrow> step p e q \<Longrightarrow> waits (es @ [e]) q"
  by (cases e)
    (auto simp: waits_def looks_def busy_enter_def busy_drop_def restart_when_idle_def poll_def
      split: if_splits)

lemma waits_runs: "traces step p es q \<Longrightarrow> waits [] p \<Longrightarrow> waits es q"
proof (induction rule: traces.induct)
  case (go p es q e r)
  show ?case by (rule waits_step [OF go.IH [OF go.prems] go.hyps(2)])
qed

text \<open>A process that waits has been told of an update, and its deadline is an hour after that.\<close>

lemma waiting_since:
  assumes "traces step p es q" and "pr_waiting q" and "\<not> pr_waiting p"
  shows "\<exists>before p' later. es = before @ Renewed # later \<and> traces step p before p' \<and> pr_deadline q = pr_now p' + IDLE_LIMIT"
  using assms
proof (induction rule: traces.induct)
  case (go p es q e r)
  show ?case
  proof (cases "pr_waiting q")
    case True
    with go obtain before p' later where "es = before @ Renewed # later" "traces step p before p'"
      "pr_deadline q = pr_now p' + IDLE_LIMIT" by blast
    moreover from go.hyps(2) True have "pr_deadline r = pr_deadline q"
      by (auto simp: busy_enter_def busy_drop_def restart_when_idle_def poll_def)
    ultimately show ?thesis by (metis append.assoc append_Cons)
  next
    case False
    with go.hyps(2) go.prems(1) have "e = Renewed" "pr_deadline r = pr_now q + IDLE_LIMIT"
      by (auto simp: busy_enter_def busy_drop_def restart_when_idle_def poll_def)
    with go.hyps(1) show ?thesis by blast
  qed
qed simp

text \<open>A process that has stopped waiting did so at a look that found a reason to.\<close>

lemma leaving_since:
  assumes "traces step p es q" and "pr_leaving q" and "\<not> pr_leaving p"
  shows "\<exists>before p' later. es = before @ Look # later \<and> traces step p before p' \<and> pr_waiting p'
    \<and> (pr_active p' = 0 \<or> pr_deadline p' \<le> pr_now p')"
  using assms
proof (induction rule: traces.induct)
  case (go p es q e r)
  show ?case
  proof (cases "pr_leaving q")
    case True
    with go show ?thesis by (metis append.assoc append_Cons)
  next
    case False
    with go.hyps(2) go.prems(1) have "e = Look" "pr_waiting q" "pr_active q = 0 \<or> pr_deadline q \<le> pr_now q"
      by (auto simp: busy_enter_def busy_drop_def restart_when_idle_def poll_def split: if_splits)
    with go.hyps(1) show ?thesis by blast
  qed
qed simp

text \<open>
  The wait for the restart.  However sessions come and go and time passes, the thread that
  waits looks at most 1801 times (an hour, every two seconds, and the look that leaves), and
  when the process ends, that thread had looked at a moment when no session was active or an
  hour had passed since an update was installed.
\<close>
theorem restart_waits:
  assumes "traces step (service_start now) es p"
  shows "looks es \<le> 1801 \<and>
    (pr_ended p \<longrightarrow>
      (\<exists>first q middle looked later.
         es = first @ Renewed # middle @ Look # later
         \<and> traces step (service_start now) first q
         \<and> traces step (service_start now) (first @ Renewed # middle) looked
         \<and> (pr_active looked = 0 \<or> pr_now q + 3600 \<le> pr_now looked)))"
proof (intro conjI impI)
  have start: "waits [] (service_start now)" by (simp add: waits_def looks_def service_start_def)
  note w = waits_runs [OF assms this]
  then show "looks es \<le> 1801" by (simp add: waits_def)
  assume "pr_ended p"
  with w have "pr_leaving p" by (simp add: waits_def)
  from leaving_since [OF assms this] obtain before p' later where
    es: "es = before @ Look # later" and p': "traces step (service_start now) before p'" "pr_waiting p'"
      "pr_active p' = 0 \<or> pr_deadline p' \<le> pr_now p'"
    by (auto simp: service_start_def)
  from waiting_since [OF p'(1,2)] obtain first q middle where
    "before = first @ Renewed # middle" "traces step (service_start now) first q" "pr_deadline p' = pr_now q + IDLE_LIMIT"
    by (auto simp: service_start_def)
  with es p' show "\<exists>first q middle looked later.
         es = first @ Renewed # middle @ Look # later
         \<and> traces step (service_start now) first q
         \<and> traces step (service_start now) (first @ Renewed # middle) looked
         \<and> (pr_active looked = 0 \<or> pr_now q + 3600 \<le> pr_now looked)"
    by (intro exI [of _ first] exI [of _ q] exI [of _ middle] exI [of _ p'] exI [of _ later]) auto
qed

text \<open>A restart that waits for one session, which leaves before the second look.\<close>

definition demo_run :: "happening list" where
  "demo_run = [Enter, Renewed, Look, Leave, Look, Out]"

definition demo_ended :: process where
  "demo_ended =
     \<lparr>pr_active = 0, pr_waiting = True, pr_deadline = 3600, pr_leaving = True, pr_now = 2, pr_ended = True\<rparr>"

lemma demo_restart: "traces step (service_start 0) demo_run demo_ended"
proof -
  let ?p = "\<lambda>a w l t e. \<lparr>pr_active = a, pr_waiting = w, pr_deadline = if w then 3600 else 0,
    pr_leaving = l, pr_now = t, pr_ended = e\<rparr>"
  note defs = service_start_def busy_enter_def busy_drop_def restart_when_idle_def poll_def
  have "traces step (service_start 0) [] (?p 0 False False 0 False)"
    by (simp add: defs traces.stop)
  from traces.go [OF this step.enter] have "traces step (service_start 0) [Enter] (?p 1 False False 0 False)"
    by (simp add: defs)
  from traces.go [OF this step.updated] have "traces step (service_start 0) [Enter, Renewed] (?p 1 True False 0 False)"
    by (simp add: defs)
  from traces.go [OF this step.look] have "traces step (service_start 0) [Enter, Renewed, Look] (?p 1 True False 2 False)"
    by (simp add: defs numeral_2_eq_2)
  from traces.go [OF this step.leave] have "traces step (service_start 0) [Enter, Renewed, Look, Leave] (?p 0 True False 2 False)"
    by (simp add: defs)
  from traces.go [OF this step.look]
  have "traces step (service_start 0) [Enter, Renewed, Look, Leave, Look] (?p 0 True True 2 False)"
    by (simp add: defs)
  from traces.go [OF this step.out] show ?thesis
    by (simp add: demo_run_def demo_ended_def)
qed

theorem restart_waits_witness:
  "looks demo_run = 2 \<and> pr_ended demo_ended \<and>
   (\<exists>first q middle looked later.
      demo_run = first @ Renewed # middle @ Look # later
      \<and> traces step (service_start 0) first q
      \<and> traces step (service_start 0) (first @ Renewed # middle) looked
      \<and> (pr_active looked = 0 \<or> pr_now q + 3600 \<le> pr_now looked))"
proof -
  have "pr_ended demo_ended" and "looks demo_run = 2"
    by (simp_all add: demo_ended_def demo_run_def looks_def)
  moreover obtain first q middle looked later where
    "demo_run = first @ Renewed # middle @ Look # later"
    "traces step (service_start 0) first q"
    "traces step (service_start 0) (first @ Renewed # middle) looked"
    "pr_active looked = 0 \<or> pr_now q + 3600 \<le> pr_now looked"
    using restart_waits [OF demo_restart, THEN conjunct2, rule_format, OF \<open>pr_ended demo_ended\<close>]
    by (elim exE conjE) (rule that)
  ultimately show ?thesis by metis
qed

end
