(* ===== verification/Service.thy ===== *)
theory Service
  imports Updater Helper_Facts
begin

text \<open>
  The service's pipe (src/helper/windows.rs): who may connect, and \<open>serve_pipe\<close>, which hands
  each client to a thread of its own.  The threads, the one that accepts and the one that
  waits to restart interleave, so this is a step relation; what one session does is
  \<open>serve_client\<close> of \<open>Helper\<close>, and the wait for a restart is the machine of \<open>Updater\<close>.
\<close>

section \<open>The pipe's security\<close>

definition PIPE :: string where
  "PIPE = [CHR 0x5C, CHR 0x5C, CHR ''.'', CHR 0x5C] @ ''pipe'' @ [CHR 0x5C] @ ''btrfs-peek''"

text \<open>\<open>FILE_GENERIC_READ\<close> and \<open>FILE_WRITE_DATA\<close>\<close>

definition CLIENT_ACCESS :: nat where "CLIENT_ACCESS = 0x12008B"

fun hex_string :: "nat \<Rightarrow> string" where
  "hex_string n =
     (if n < 16 then [hex_digit n] else hex_string (n div 16) @ [hex_digit (n mod 16)])"

declare hex_string.simps [simp del]

definition pipe_sddl :: "string \<Rightarrow> string" where
  "pipe_sddl sid =
     ''D:P(D;;GA;;;NU)(A;;GA;;;SY)(A;;0x'' @ hex_string CLIENT_ACCESS @ '';;;'' @ sid @ '')''"

section \<open>Accepting clients\<close>

definition ERROR_NO_DATA :: nat where [simp]: "ERROR_NO_DATA = 232"
definition ERROR_PIPE_CONNECTED :: nat where [simp]: "ERROR_PIPE_CONNECTED = 535"

text \<open>
  Instances of the pipe are numbered as they are made.  The accepting thread is about to make
  the first, waits for a client on one, has one on which \<open>ConnectNamedPipe\<close> returned, has made
  the next one as well, or has failed with an error code.  \<open>None\<close> is a call's success.
\<close>

datatype (plugins only: code size) accepting =
    Starting
  | Listening nat
  | Connected nat "nat option"
  | Handing nat "nat option" nat
  | Stopped nat

text \<open>
  A client's thread: spawned, counted in \<open>ACTIVE\<close>, back from \<open>serve_client\<close> (which has closed
  the pipe) but still counted, no longer counted, and done.  The flags say whether the session
  installed an update.
\<close>

datatype (plugins only: code size) session = Begun | Serving | Closing bool | Parted bool | Finished

record service =
  se_accepting :: accepting
  se_made :: nat
  se_sessions :: "(nat \<times> session) list"
  se_process :: process

definition service_main :: "nat \<Rightarrow> service" where
  "service_main now =
     \<lparr>se_accepting = Starting, se_made = 0, se_sessions = [], se_process = service_start now\<rparr>"

datatype (plugins only: code size) happens =
    MakeFirst "nat option"           \<comment> \<open>\<open>create(true)\<close>\<close>
  | Connect "nat option"             \<comment> \<open>\<open>ConnectNamedPipe\<close>\<close>
  | MakeNext "nat option"            \<comment> \<open>\<open>create(false)\<close>\<close>
  | Hand                             \<comment> \<open>\<open>match connected\<close>\<close>
  | Count nat                        \<comment> \<open>\<open>Busy::enter\<close>\<close>
  | Serve nat writer "event list"    \<comment> \<open>\<open>serve_client\<close>, and what the client does\<close>
  | Uncount nat                      \<comment> \<open>\<open>Busy\<close>'s \<open>drop\<close>\<close>
  | After nat bool                   \<comment> \<open>\<open>h.updated\<close>, if it is due\<close>
  | Alone happening                  \<comment> \<open>the other threads, and time\<close>

definition made_first :: "nat option \<Rightarrow> service \<Rightarrow> service" where
  "made_first r s =
     (case r of
        None \<Rightarrow> s\<lparr>se_accepting := Listening (se_made s), se_made := se_made s + 1\<rparr>
      | Some e \<Rightarrow> s\<lparr>se_accepting := Stopped e\<rparr>)"

text \<open>A client that was there already is connected too.\<close>

definition connected :: "nat option \<Rightarrow> nat option" where
  "connected r = (if r = Some ERROR_PIPE_CONNECTED then None else r)"

definition made_next :: "nat \<Rightarrow> nat option \<Rightarrow> nat option \<Rightarrow> service \<Rightarrow> service" where
  "made_next i c r s =
     (case r of
        None \<Rightarrow> s\<lparr>se_accepting := Handing i c (se_made s), se_made := se_made s + 1\<rparr>
      | Some e \<Rightarrow> s\<lparr>se_accepting := Stopped e\<rparr>)"

definition handed :: "nat \<Rightarrow> nat option \<Rightarrow> nat \<Rightarrow> service \<Rightarrow> service" where
  "handed i c j s =
     (case c of
        None \<Rightarrow> s\<lparr>se_accepting := Listening j, se_sessions := (i, Begun) # se_sessions s\<rparr>
      | Some e \<Rightarrow>
          if e = ERROR_NO_DATA then s\<lparr>se_accepting := Listening j\<rparr>
          else s\<lparr>se_accepting := Stopped e\<rparr>)"

definition turn :: "nat \<Rightarrow> session \<Rightarrow> service \<Rightarrow> service" where
  "turn i p s = s\<lparr>se_sessions := map (\<lambda>(j, q). (j, if j = i then p else q)) (se_sessions s)\<rparr>"

definition on_process :: "(process \<Rightarrow> process) \<Rightarrow> service \<Rightarrow> service" where
  "on_process f s = s\<lparr>se_process := f (se_process s)\<rparr>"

text \<open>The service's own threads: the daily check may have installed an update at any time.\<close>

inductive service_step :: "handlers \<Rightarrow> service \<Rightarrow> happens \<Rightarrow> service \<Rightarrow> bool"
  for h :: handlers where
  first: "\<not> pr_ended (se_process s) \<Longrightarrow> se_accepting s = Starting \<Longrightarrow>
    service_step h s (MakeFirst r) (made_first r s)"
| connect: "\<not> pr_ended (se_process s) \<Longrightarrow> se_accepting s = Listening i \<Longrightarrow>
    service_step h s (Connect r) (s\<lparr>se_accepting := Connected i (connected r)\<rparr>)"
| more: "\<not> pr_ended (se_process s) \<Longrightarrow> se_accepting s = Connected i c \<Longrightarrow>
    service_step h s (MakeNext r) (made_next i c r s)"
| hand: "\<not> pr_ended (se_process s) \<Longrightarrow> se_accepting s = Handing i c j \<Longrightarrow>
    service_step h s Hand (handed i c j s)"
| count: "\<not> pr_ended (se_process s) \<Longrightarrow> (i, Begun) \<in> set (se_sessions s) \<Longrightarrow>
    service_step h s (Count i) (on_process busy_enter (turn i Serving s))"
| client: "\<not> pr_ended (se_process s) \<Longrightarrow> (i, Serving) \<in> set (se_sessions s) \<Longrightarrow>
    service_step h s (Serve i wr es)
      (turn i (Closing (fst (serve_client wr h (accepted es)) = Inr Updated)) s)"
| uncount: "\<not> pr_ended (se_process s) \<Longrightarrow> (i, Closing u) \<in> set (se_sessions s) \<Longrightarrow>
    service_step h s (Uncount i) (on_process busy_drop (turn i (Parted u) s))"
| after: "\<not> pr_ended (se_process s) \<Longrightarrow> (i, Parted u) \<in> set (se_sessions s) \<Longrightarrow>
    service_step h s (After i u)
      (on_process (if u then restart_when_idle else (\<lambda>p. p)) (turn i Finished s))"
| alone: "step (se_process s) e p \<Longrightarrow> e \<noteq> Enter \<Longrightarrow> e \<noteq> Leave \<Longrightarrow>
    service_step h s (Alone e) (s\<lparr>se_process := p\<rparr>)"

text \<open>The instances of the pipe there are.\<close>

definition own :: "service \<Rightarrow> nat set" where
  "own s =
     (case se_accepting s of
        Starting \<Rightarrow> {}
      | Listening i \<Rightarrow> {i}
      | Connected i c \<Rightarrow> {i}
      | Handing i c j \<Rightarrow> {i, j}
      | Stopped e \<Rightarrow> {})"

definition instances :: "service \<Rightarrow> nat set" where
  "instances s = own s \<union> {i. (i, Begun) \<in> set (se_sessions s) \<or> (i, Serving) \<in> set (se_sessions s)}"

text \<open>\<open>listen\<close>: the account must be a plain SID, for it goes into the pipe's security.\<close>

definition listen :: "string \<Rightarrow> io_error + string" where
  "listen sid =
     (if \<not> sid_ok sid then Inl (IoError IoInvalidInput (sid @ '': not a SID''))
      else Inr (pipe_sddl sid))"

end
