(* ===== verification/Service_Facts.thy ===== *)
theory Service_Facts
  imports Service Updater_Facts
begin

text \<open>
  What the service owes its clients: the name of its pipe never lapses, and a restart waits
  for the sessions it counts, an hour at most.
\<close>

section \<open>The invariant\<close>

definition is_counted :: "session \<Rightarrow> bool" where
  "is_counted p \<longleftrightarrow> (case p of Serving \<Rightarrow> True | Closing u \<Rightarrow> True | _ \<Rightarrow> False)"

lemma is_counted_simps [simp]:
  "\<not> is_counted Begun" "is_counted Serving" "is_counted (Closing u)" "\<not> is_counted (Parted u)"
  "\<not> is_counted Finished"
  by (simp_all add: is_counted_def)

definition in_session :: "service \<Rightarrow> nat list" where
  "in_session s = map fst (filter (\<lambda>(i, p). is_counted p) (se_sessions s))"

definition service_ok :: "service \<Rightarrow> bool" where
  "service_ok s \<longleftrightarrow>
     distinct (map fst (se_sessions s)) \<and>
     (\<forall>i \<in> fst ` set (se_sessions s) \<union> own s. i < se_made s) \<and>
     own s \<inter> fst ` set (se_sessions s) = {} \<and>
     (\<forall>i c j. se_accepting s = Handing i c j \<longrightarrow> i \<noteq> j) \<and>
     pr_active (se_process s) = length (in_session s)"

lemma turn_fst: "map fst (se_sessions (turn i p s)) = map fst (se_sessions s)"
  by (simp add: turn_def comp_def split_beta)

lemma turn_same [simp]:
  "se_accepting (turn i p s) = se_accepting s" "se_made (turn i p s) = se_made s"
  "se_process (turn i p s) = se_process s" "own (turn i p s) = own s"
  by (simp_all add: turn_def own_def)

lemma on_process_same [simp]:
  "se_accepting (on_process f s) = se_accepting s" "se_made (on_process f s) = se_made s"
  "se_sessions (on_process f s) = se_sessions s" "own (on_process f s) = own s"
  "se_process (on_process f s) = f (se_process s)" "in_session (on_process f s) = in_session s"
  by (simp_all add: on_process_def own_def in_session_def)

text \<open>A session's turn changes the number of those counted by one, or not at all.\<close>

lemma turn_counts:
  assumes "(i, p) \<in> set (se_sessions s)" and "distinct (map fst (se_sessions s))"
  shows "length (in_session (turn i q s)) + (if is_counted p then 1 else 0)
    = length (in_session s) + (if is_counted q then 1 else 0)"
proof -
  have "length (filter (\<lambda>(j, r). is_counted r) (map (\<lambda>(j, r). (j, if j = i then q else r)) xs))
      + (if is_counted p then 1 else 0)
    = length (filter (\<lambda>(j, r). is_counted r) xs) + (if is_counted q then 1 else 0)"
    if "(i, p) \<in> set xs" "distinct (map fst xs)" for xs
    using that
  proof (induction xs)
    case (Cons x xs)
    have same: "map (\<lambda>(j, r). (j, if j = i then q else r)) xs = xs" if "i \<notin> fst ` set xs"
      using that by (induction xs) auto
    obtain j r where x: "x = (j, r)" by (cases x)
    show ?case
    proof (cases "j = i")
      case True
      with Cons.prems x have "i \<notin> fst ` set xs" "r = p" by force+
      with same True x show ?thesis by simp
    next
      case False
      with Cons x show ?thesis by auto
    qed
  qed simp
  with assms show ?thesis by (simp add: in_session_def turn_def)
qed

lemma service_ok_turn:
  assumes "service_ok s" and "(i, p) \<in> set (se_sessions s)"
    and "pr_active (f (se_process s)) + (if is_counted p then 1 else 0)
      = pr_active (se_process s) + (if is_counted q then 1 else 0)"
  shows "service_ok (on_process f (turn i q s))"
  using assms turn_counts [of i p s q] turn_fst [of i q s]
  unfolding service_ok_def
  by (auto simp flip: set_map split: if_splits)

text \<open>The events of a restart in the service's.\<close>

fun process_events :: "happens \<Rightarrow> happening list" where
  "process_events (Count i) = [Enter]"
| "process_events (Uncount i) = [Leave]"
| "process_events (After i u) = (if u then [Renewed] else [])"
| "process_events (Alone e) = [e]"
| "process_events e = []"

lemma counted_active:
  assumes "service_ok s" and "(i, p) \<in> set (se_sessions s)" and "is_counted p"
  shows "0 < pr_active (se_process s)"
  using assms by (auto simp: service_ok_def in_session_def filter_empty_conv)

lemma service_ok_step:
  assumes ok: "service_ok s" and step: "service_step h s e t"
  shows "service_ok t"
  using step
proof cases
  case (count i)
  with ok show ?thesis by (auto intro!: service_ok_turn simp: busy_enter_def)
next
  case (client i wr es)
  have "on_process (\<lambda>p. p) u = u" for u by (simp add: on_process_def)
  with ok client service_ok_turn [of s i Serving "\<lambda>p. p"] show ?thesis
    by (metis is_counted_simps(2,3))
next
  case (uncount i u)
  with ok counted_active [OF ok, of i "Closing u"] show ?thesis
    by (auto intro!: service_ok_turn simp: busy_drop_def)
next
  case (after i u)
  with ok show ?thesis by (auto intro!: service_ok_turn simp: restart_when_idle_def)
next
  case (alone e' p)
  then have "pr_active p = pr_active (se_process s)"
    by (auto simp: restart_when_idle_def poll_def)
  with alone ok show ?thesis by (simp add: service_ok_def own_def in_session_def)
qed (use ok in \<open>auto simp: service_ok_def in_session_def own_def made_first_def made_next_def
      handed_def split: option.splits accepting.splits\<close>)

lemma service_process_step:
  assumes "service_ok s" and "service_step h s e t"
  shows "traces step (se_process s) (process_events e) (se_process t)"
  using assms(2)
  by cases
   (auto simp: made_first_def made_next_def handed_def split: option.splits intro: step.intros dest: counted_active [OF assms(1)])

interpretation restart: simulation "service_step h" step se_process process_events service_ok for h
  by unfold_locales (simp_all add: service_process_step service_ok_step)

lemma service_main_ok: "service_ok (service_main now)"
  by (simp add: service_ok_def service_main_def service_start_def own_def in_session_def)

lemmas service_reaches = restart.invariant [OF _ service_main_ok]

section \<open>The pipe's name\<close>


text \<open>A first client connects while the second instance is made.\<close>

definition demo_served :: service where
  "demo_served =
     handed 0 None 1 (made_next 0 None None
       ((made_first None (service_main 0))\<lparr>se_accepting := Connected 0 None\<rparr>))"

lemma demo_serves:
  "traces (service_step h) (service_main 0) ((([] @ [MakeFirst None]) @ [Connect (Some 535)]) @ [MakeNext None])
     (made_next 0 None None ((made_first None (service_main 0))\<lparr>se_accepting := Connected 0 None\<rparr>))"
  "service_step h (made_next 0 None None ((made_first None (service_main 0))\<lparr>se_accepting := Connected 0 None\<rparr>))
     Hand demo_served"
proof -
  let ?s = "service_main 0"
  let ?c = "(made_first None ?s)\<lparr>se_accepting := Connected 0 None\<rparr>"
  have 1: "service_step h ?s (MakeFirst None) (made_first None ?s)"
    by (rule first) (simp_all add: service_main_def service_start_def)
  have "service_step h (made_first None ?s) (Connect (Some 535))
      ((made_first None ?s)\<lparr>se_accepting := Connected 0 (connected (Some 535))\<rparr>)"
    by (rule connect) (simp_all add: made_first_def service_main_def service_start_def)
  then have 2: "service_step h (made_first None ?s) (Connect (Some 535)) ?c"
    by (simp add: connected_def)
  have 3: "service_step h ?c (MakeNext None) (made_next 0 None None ?c)"
    by (rule more) (simp_all add: made_first_def service_main_def service_start_def)
  show "traces (service_step h) ?s ((([] @ [MakeFirst None]) @ [Connect (Some 535)]) @ [MakeNext None])
     (made_next 0 None None ?c)"
    by (rule traces.go, rule traces.go, rule traces.go, rule traces.stop, rule 1, rule 2, rule 3)
  show "service_step h (made_next 0 None None ((made_first None ?s)\<lparr>se_accepting := Connected 0 None\<rparr>))
     Hand demo_served"
    unfolding demo_served_def
    by (rule hand) (simp_all add: made_next_def made_first_def service_main_def service_start_def)
qed


section \<open>The restart\<close>

lemma service_leaving:
  assumes "traces (service_step h) s es t" and "pr_leaving (se_process t)" and "\<not> pr_leaving (se_process s)"
  shows "\<exists>before looked later. es = before @ Alone Look # later \<and> traces (service_step h) s before looked
    \<and> pr_waiting (se_process looked)
    \<and> (pr_active (se_process looked) = 0 \<or> pr_deadline (se_process looked) \<le> pr_now (se_process looked))"
  using assms
proof (induction rule: traces.induct)
  case (go s es t e u)
  show ?case
  proof (cases "pr_leaving (se_process t)")
    case True
    with go show ?thesis by (metis append.assoc append_Cons)
  next
    case False
    with go.hyps(2) go.prems(1) have "e = Alone Look" "pr_waiting (se_process t)"
      "pr_active (se_process t) = 0 \<or> pr_deadline (se_process t) \<le> pr_now (se_process t)"
      by (auto elim!: service_step.cases simp: made_first_def made_next_def handed_def busy_enter_def
          busy_drop_def restart_when_idle_def poll_def split: option.splits if_splits)
    with go.hyps(1) show ?thesis by blast
  qed
qed simp



text \<open>
  A session is counted once its thread runs.  One whose client has connected, but whose thread
  has not got that far, is not waited for: the process may end under it.
\<close>

definition demo_gone :: service where
  "demo_gone = on_process (\<lambda>p. (poll (restart_when_idle p))\<lparr>pr_ended := True\<rparr>) demo_served"

definition demo_events :: "happens list" where
  "demo_events =
     ((((((([] @ [MakeFirst None]) @ [Connect (Some 535)]) @ [MakeNext None]) @ [Hand])
       @ [Alone Renewed]) @ [Alone Look]) @ [Alone Out])"

lemma demo_process: "se_process demo_served = service_start 0"
  by (simp add: demo_served_def made_next_def made_first_def handed_def service_main_def)

lemma demo_same: "demo_served\<lparr>se_process := service_start 0\<rparr> = demo_served"
  using demo_process by (cases demo_served) simp

lemma begun_not_waited_for:
  "traces (service_step h) (service_main 0) demo_events demo_gone"
  "se_sessions demo_gone = [(0, Begun)]" "pr_ended (se_process demo_gone)"
proof -
  let ?p = "restart_when_idle (service_start 0)"
  have alone: "service_step h (demo_served\<lparr>se_process := p\<rparr>) (Alone e) (demo_served\<lparr>se_process := q\<rparr>)"
    if "step p e q" "e \<noteq> Enter" "e \<noteq> Leave" for p e q
    using service_step.alone [of "demo_served\<lparr>se_process := p\<rparr>" e q h] that by simp
  have a: "service_step h demo_served (Alone Renewed) (demo_served\<lparr>se_process := ?p\<rparr>)"
    using alone [of "service_start 0" Renewed ?p, unfolded demo_same, OF step.updated]
    by (simp add: service_start_def)
  have b: "service_step h (demo_served\<lparr>se_process := ?p\<rparr>) (Alone Look) (demo_served\<lparr>se_process := poll ?p\<rparr>)"
    by (rule alone, rule step.look) (simp_all add: restart_when_idle_def service_start_def)
  have c: "service_step h (demo_served\<lparr>se_process := poll ?p\<rparr>) (Alone Out)
      (demo_served\<lparr>se_process := (poll ?p)\<lparr>pr_ended := True\<rparr>\<rparr>)"
    by (rule alone, rule step.out) (simp_all add: poll_def restart_when_idle_def service_start_def)
  have d: "demo_served\<lparr>se_process := (poll ?p)\<lparr>pr_ended := True\<rparr>\<rparr> = demo_gone"
    by (simp add: demo_gone_def on_process_def demo_process)
  show "traces (service_step h) (service_main 0) demo_events demo_gone"
    unfolding demo_events_def d [symmetric]
    by (rule traces.go, rule traces.go, rule traces.go, rule traces.go, rule demo_serves(1),
        rule demo_serves(2), rule a, rule b, rule c)
  show "se_sessions demo_gone = [(0, Begun)]"
    by (simp add: demo_gone_def demo_served_def made_next_def made_first_def handed_def service_main_def)
  show "pr_ended (se_process demo_gone)" by (simp add: demo_gone_def)
qed


end
