(* ===== verification/Scan.thy ===== *)
theory Scan
  imports Updater Helper_Facts
begin

text \<open>
  Scanning for file systems (src/scan.rs), and what src/main.rs prints for \<open>info\<close> and in the
  long listing.
\<close>

section \<open>Scanning\<close>

record found_fs =
  fo_device :: string
  fo_label :: string
  fo_uuid :: string
  fo_total_bytes :: u64
  fo_bytes_used :: u64
  fo_num_devices :: u64

record scan_result =
  sr_filesystems :: "found_fs list"
  sr_access_denied :: "string list"

definition partition_path :: "nat \<Rightarrow> nat \<Rightarrow> string" where
  "partition_path d p =
     [CHR 0x5C, CHR 0x5C, CHR ''.'', CHR 0x5C] @ ''Harddisk'' @ dec_string d @ ''Partition'' @ dec_string p"

text \<open>\<open>iter.nth\<close>\<close>

definition nth_of :: "nat \<Rightarrow> 'a list \<Rightarrow> 'a option" where
  "nth_of n xs = (if n < length xs then Some (xs ! n) else None)"

definition candidates :: "bool \<Rightarrow> string option \<Rightarrow> string list" where
  "candidates windows proc_partitions =
     (if windows then concat (map (\<lambda>d. map (partition_path d) [0..<65]) [0..<32])
      else
        (case proc_partitions of
           None \<Rightarrow> []
         | Some text \<Rightarrow>
             map (\<lambda>n. ''/dev/'' @ n)
               (List.map_filter (\<lambda>l. nth_of 3 (split_whitespace [] l)) (drop 2 (text_lines text)))))"

type_synonym opener = "string \<Rightarrow> io_error + device"

definition scan_one :: "(bytes \<Rightarrow> u32) \<Rightarrow> opener \<Rightarrow> scan_result \<Rightarrow> string \<Rightarrow> scan_result" where
  "scan_one crc dev_open out path =
     (case dev_open path of
        Inl e \<Rightarrow>
          if io_kind e = IoPermissionDenied then
            out\<lparr>sr_access_denied := sr_access_denied out @ [path]\<rparr>
          else out
      | Inr dev \<Rightarrow>
          (case device_read dev SUPER_OFFSET SUPER_SIZE of
             Inl e \<Rightarrow> out
           | Inr raw \<Rightarrow>
               (case superblock_parse crc raw of
                  Inl e \<Rightarrow> out
                | Inr sb \<Rightarrow>
                    out\<lparr>sr_filesystems := sr_filesystems out @
                      [\<lparr>fo_device = path, fo_label = sb_label sb, fo_uuid = uuid (sb_fsid sb),
                        fo_total_bytes = sb_total_bytes sb, fo_bytes_used = sb_bytes_used sb,
                        fo_num_devices = sb_num_devices sb\<rparr>]\<rparr>)))"

definition scan :: "(bytes \<Rightarrow> u32) \<Rightarrow> opener \<Rightarrow> string list \<Rightarrow> scan_result" where
  "scan crc dev_open paths =
     foldl (scan_one crc dev_open) \<lparr>sr_filesystems = [], sr_access_denied = []\<rparr> paths"

text \<open>The \<open>scan\<close> command: what it says on standard error, and its exit.\<close>

definition run_scan :: "bool \<Rightarrow> string \<Rightarrow> scan_result \<Rightarrow> string list \<times> (err + scan_result)" where
  "run_scan windows hint r =
     (let denied = sr_access_denied r in
      if denied = [] then ([], Inr r)
      else
        ([''btrfs-peek: '' @ dec_string (length denied) @ '' devices could not be opened; to scan them, ''
            @ (if windows then hint else ''rerun with admin/root privileges'')],
         if sr_filesystems r = [] then Inl AccessDenied else Inr r))"

section \<open>Info\<close>

record info =
  in_devices :: "string list"
  in_label :: string
  in_uuid :: string
  in_generation :: u64
  in_total_bytes :: u64
  in_bytes_used :: u64
  in_num_devices :: u64
  in_sectorsize :: u32
  in_nodesize :: u32
  in_checksum :: string
  in_checksums_verified :: bool
  in_features :: "string list"
  in_profiles :: "string list"
  in_default_subvolume_id :: u64
  in_clean_unmount :: bool

definition features :: "superblock \<Rightarrow> string list" where
  "features sb = map snd (filter (\<lambda>(bit, _). sb_incompat_flags sb AND bit \<noteq> 0) INCOMPAT_FLAGS)"

definition profiles :: "chunk list \<Rightarrow> string list" where
  "profiles cs = dedup_by_key (\<lambda>p. p) (sort_key as_bytes (map (\<lambda>c. kind c @ '':'' @ profile c) cs))"

definition run_info :: "ext \<Rightarrow> (fs, info) eff" where
  "run_info x =
     sbind (sget (\<lambda>s. s)) (\<lambda>s.
     let sb = fs_sb s in
     sbind (default_subvol x) (\<lambda>dflt.
     sret
       \<lparr>in_devices = device_paths s, in_label = sb_label sb, in_uuid = uuid (sb_fsid sb),
        in_generation = sb_generation sb, in_total_bytes = sb_total_bytes sb,
        in_bytes_used = sb_bytes_used sb, in_num_devices = sb_num_devices sb,
        in_sectorsize = sb_sectorsize sb, in_nodesize = sb_nodesize sb, in_checksum = csum_name sb,
        in_checksums_verified = (sb_csum_type sb = 0), in_features = features sb,
        in_profiles = profiles (chunks s), in_default_subvolume_id = dflt,
        in_clean_unmount = (sb_log_root sb = 0)\<rparr>))"

text \<open>What \<open>run\<close> warns of before any command.\<close>

definition warnings :: "superblock \<Rightarrow> string list" where
  "warnings sb =
     (if sb_csum_type sb \<noteq> 0 then
        [''btrfs-peek: warning: this filesystem uses '' @ csum_name sb
         @ '' checksums, which this tool cannot verify; corruption will not be detected'']
      else [])
     @ (if sb_log_root sb \<noteq> 0 then
          [''btrfs-peek: warning: the filesystem was not cleanly unmounted; writes fsynced just before the crash are not visible'']
        else [])"

section \<open>The long listing\<close>

definition is_octal :: "char \<Rightarrow> bool" where
  "is_octal c \<longleftrightarrow> CHR ''0'' \<le> c \<and> c \<le> CHR ''7''"

text \<open>\<open>u32::from_str_radix(_, 8)\<close>, without the sign it would take too; nothing that does not fit.\<close>

definition parse_octal :: "string \<Rightarrow> u32 option" where
  "parse_octal s =
     (let v = foldl (\<lambda>n c. 8 * n + (of_char c - 48)) (0 :: nat) s in
      if s \<noteq> [] \<and> list_all is_octal s \<and> v < 2 ^ 32 then Some (word_of_nat v) else None)"

text \<open>\<open>{:>w}\<close>\<close>

definition pad_left :: "nat \<Rightarrow> string \<Rightarrow> string" where
  "pad_left w s = replicate (w - length s) (CHR '' '') @ s"

definition listed_mode :: "description \<Rightarrow> u32" where
  "listed_mode v =
     (case parse_octal (ds_mode v) of None \<Rightarrow> 0 | Some m \<Rightarrow> m)
     OR (if ds_type v \<in> {''dir'', ''subvolume''} then 0x4000
         else if ds_type v = ''symlink'' then 0xA000 else 0x8000)"

definition print_long :: "description \<Rightarrow> string \<Rightarrow> string" where
  "print_long v name =
     mode_string (listed_mode v)
     @ '' '' @ pad_left 5 (dec_string (unat (ds_uid v)))
     @ '' '' @ pad_left 5 (dec_string (unat (ds_gid v)))
     @ '' '' @ pad_left 12 (dec_string (unat (ds_size v)))
     @ '' '' @ ds_mtime v @ '' '' @ name
     @ (case ds_target v of None \<Rightarrow> [] | Some t \<Rightarrow> '' -> '' @ t)
     @ (if ds_type v = ''subvolume'' then ''  [subvolume]'' else [])"

section \<open>What a scan reports\<close>

definition superblock_at :: "(bytes \<Rightarrow> u32) \<Rightarrow> opener \<Rightarrow> string \<Rightarrow> superblock option" where
  "superblock_at crc dev_open path =
     (case dev_open path of
        Inl _ \<Rightarrow> None
      | Inr dev \<Rightarrow>
          (case rbind (map_err Io (device_read dev SUPER_OFFSET SUPER_SIZE)) (superblock_parse crc) of
             Inl _ \<Rightarrow> None | Inr sb \<Rightarrow> Some sb))"

definition denied :: "opener \<Rightarrow> string \<Rightarrow> bool" where
  "denied dev_open path \<longleftrightarrow>
     (case dev_open path of Inl e \<Rightarrow> io_kind e = IoPermissionDenied | Inr _ \<Rightarrow> False)"

definition found_at :: "string \<Rightarrow> superblock \<Rightarrow> found_fs" where
  "found_at path sb =
     \<lparr>fo_device = path, fo_label = sb_label sb, fo_uuid = uuid (sb_fsid sb),
      fo_total_bytes = sb_total_bytes sb, fo_bytes_used = sb_bytes_used sb,
      fo_num_devices = sb_num_devices sb\<rparr>"

lemma scan_one_iff:
  "scan_one crc dev_open out path =
     out\<lparr>sr_filesystems := sr_filesystems out @
           (case superblock_at crc dev_open path of None \<Rightarrow> [] | Some sb \<Rightarrow> [found_at path sb]),
         sr_access_denied := sr_access_denied out @ (if denied dev_open path then [path] else [])\<rparr>"
  by (auto simp: scan_one_def superblock_at_def denied_def found_at_def map_err_def split: sum.splits)

lemma scan_loop:
  "foldl (scan_one crc dev_open) out paths =
     out\<lparr>sr_filesystems := sr_filesystems out @
           List.map_filter (\<lambda>p. map_option (found_at p) (superblock_at crc dev_open p)) paths,
         sr_access_denied := sr_access_denied out @ filter (denied dev_open) paths\<rparr>"
  by (induction paths arbitrary: out)
    (simp_all add: scan_one_iff List.map_filter_simps split: option.split)

lemma partition_path_lower:
  "map ascii_lower (partition_path d p) = HARDDISK @ dec_string d @ ''partition'' @ dec_string p"
proof -
  have "map ascii_lower ''Harddisk'' = ''harddisk''" "map ascii_lower ''Partition'' = ''partition''"
    "map ascii_lower [CHR 0x5C, CHR 0x5C, CHR ''.'', CHR 0x5C] = [CHR 0x5C, CHR 0x5C, CHR ''.'', CHR 0x5C]"
    by code_simp+
  then show ?thesis
    unfolding partition_path_def HARDDISK_def map_append by (simp add: dec_string_lower)
qed

lemma partition_path_openable:
  "d < 1000 \<Longrightarrow> p < 1000 \<Longrightarrow> partition_path_ok (partition_path d p) \<longleftrightarrow> p \<noteq> 0"
  using split_partition [OF dec_string_digits, of d "dec_string p"]
  by (auto simp: partition_path_ok_def partition_path_lower strip_prefix_Some [THEN iffD2, OF refl] number_ok_iff
      dec_string_zero [symmetric])

text \<open>
  C35: A scan lists exactly the candidates that can be opened, read and parsed, in order, each with what its
  superblock says, and exactly those as denied whose opening is denied; on Windows the candidates
  are the partitions 0 to 64 of the disks 0 to 31, and the helper opens every one of them but the whole
  disks, so that an installed helper hides none.
\<close>

theorem scan_exact:
  "sr_filesystems (scan crc dev_open paths)
     = List.map_filter (\<lambda>p. map_option (found_at p) (superblock_at crc dev_open p)) paths
   \<and> sr_access_denied (scan crc dev_open paths) = filter (denied dev_open) paths
   \<and> set (candidates True t) = {partition_path d p |d p. d < 32 \<and> p \<le> 64}
   \<and> {p. p \<in> set (candidates True t) \<and> partition_path_ok p} = {partition_path d p |d p. d < 32 \<and> 0 < p \<and> p \<le> 64}"
proof -
  have all: "set (candidates True t) = {partition_path d p |d p. d < 32 \<and> p \<le> 64}"
    by (fastforce simp: candidates_def)
  moreover have "{p. p \<in> set (candidates True t) \<and> partition_path_ok p}
      = {partition_path d p |d p. d < 32 \<and> 0 < p \<and> p \<le> 64}"
    unfolding all using partition_path_openable by fastforce
  ultimately show ?thesis by (simp add: scan_def scan_loop)
qed

text \<open>The permissions in the long listing are the inode's, though they go through an octal string.\<close>

lemma is_octal_digit: "d < 8 \<Longrightarrow> is_octal (digit_char d) \<and> (of_char (digit_char d) :: nat) - 48 = d"
  by (auto simp: is_octal_def less_eq_char_def of_digit_char)

lemma oct_string_value:
  "list_all is_octal (oct_string n) \<and> oct_string n \<noteq> []
   \<and> foldl (\<lambda>n c. 8 * n + (of_char c - 48)) (0 :: nat) (oct_string n) = n"
proof (induction n rule: oct_string.induct)
  case (1 n)
  show ?case
  proof (cases "n < 8")
    case True
    then show ?thesis by (simp add: oct_string.simps [of n] is_octal_digit)
  next
    case False
    then have "oct_string n = oct_string (n div 8) @ [digit_char (n mod 8)]"
      by (simp add: oct_string.simps [of n])
    moreover have "n mod 8 < 8" by simp
    ultimately show ?thesis using 1 False is_octal_digit [of "n mod 8"] by simp
  qed
qed

lemma u32_bound: "unat (n :: u32) < 4294967296"
  using unsigned_less [of n] by simp

lemma listed_mode_exact:
  assumes "ds_mode v = oct_string (unat (m AND 0xFFF))"
  shows "listed_mode v = (m AND 0xFFF) OR
    (if ds_type v \<in> {''dir'', ''subvolume''} then 0x4000 else if ds_type v = ''symlink'' then 0xA000 else 0x8000)"
proof -
  have "parse_octal (oct_string (unat n)) = Some n" for n :: u32
    using oct_string_value [of "unat n"] by (simp add: parse_octal_def Let_def u32_bound)
  with assms show ?thesis by (simp add: listed_mode_def)
qed

end
