(* ===== verification/Install.thy ===== *)
theory Install
  imports Service
begin

text \<open>
  The rest of src/helper/windows.rs: installing, removing and asking after the service, and the
  client's connection to it.  The system answers each call, given the calls made before it, with
  success or an error code, and every call takes time; what else it says (the service's
  state, the pipe's other end) is part of the same record.  How JSON is written is left out.
\<close>

section \<open>The system\<close>

datatype (plugins only: code size) call =
    OpenManager bool             \<comment> \<open>with \<open>SC_MANAGER_ALL_ACCESS\<close>, else only to connect\<close>
  | OpenService
  | QueryStatus
  | ControlStop
  | DeleteService
  | CloseService
  | CreateService string
  | Describe string
  | LimitPrivileges string
  | FailureActions "nat list"
  | FailureFlag
  | StartService
  | StartDispatcher
  | CreateDir string
  | CopyFile string string
  | RemoveDir string
  | OpenPipe string
  | ServerPid

text \<open>What \<open>status\<close> finds out.\<close>

record state =
  st_installed :: bool
  st_running :: bool
  st_pid :: "nat option"
  st_version :: "string option"
  st_last_update_check :: "(string \<times> string) list option"

text \<open>The calls made, the clock in milliseconds, and what was printed: lines, or the state as JSON.\<close>

datatype (plugins only: code size) printed = Text string | State state

record win =
  wn_calls :: "call list"
  wn_now :: nat
  wn_out :: "printed list"
  wn_err :: "string list"

record machine =
  mc_code :: "call list \<Rightarrow> call \<Rightarrow> nat option"   \<comment> \<open>\<open>last_os_error\<close>, if the call fails\<close>
  mc_time :: "call list \<Rightarrow> nat"
  mc_status :: "call list \<Rightarrow> nat \<times> nat"         \<comment> \<open>state and process id\<close>
  mc_error :: "nat \<Rightarrow> io_error"
  mc_user_sid :: "io_error + string"
  mc_exe :: "io_error + string"
  mc_program_files :: "string option"
  mc_same_file :: "call list \<Rightarrow> string \<Rightarrow> string \<Rightarrow> bool"
  mc_exists :: "call list \<Rightarrow> string \<Rightarrow> bool"
  mc_server_pid :: "call list \<Rightarrow> nat"
  mc_pipe :: "call list \<Rightarrow> writer \<times> event list"
  mc_status_file :: "call list \<Rightarrow> string option"

definition invoke :: "machine \<Rightarrow> call \<Rightarrow> (win, nat option) eff" where
  "invoke y c =
     (\<lambda>s. (Inr (mc_code y (wn_calls s) c),
       s\<lparr>wn_calls := wn_calls s @ [c], wn_now := wn_now s + mc_time y (wn_calls s)\<rparr>))"

text \<open>A call that must succeed, with the context of its error.\<close>

definition must :: "machine \<Rightarrow> string \<Rightarrow> call \<Rightarrow> (win, unit) eff" where
  "must y c op =
     sbind (invoke y op) (\<lambda>r.
     case r of None \<Rightarrow> sret () | Some e \<Rightarrow> sthrow (Context c (Io (mc_error y e))))"

definition bail :: "string \<Rightarrow> ('s, 'a) eff" where
  "bail msg = sthrow (App (HelperError msg))"

definition println :: "string \<Rightarrow> (win, unit) eff" where
  "println l = smodify (\<lambda>s. s\<lparr>wn_out := wn_out s @ [Text l]\<rparr>)"

definition eprintln :: "string \<Rightarrow> (win, unit) eff" where
  "eprintln l = smodify (\<lambda>s. s\<lparr>wn_err := wn_err s @ [l]\<rparr>)"

definition sleep :: "nat \<Rightarrow> (win, unit) eff" where
  "sleep ms = smodify (\<lambda>s. s\<lparr>wn_now := wn_now s + ms\<rparr>)"

definition ERROR_ACCESS_DENIED :: nat where [simp]: "ERROR_ACCESS_DENIED = 5"
definition ERROR_PIPE_BUSY :: nat where [simp]: "ERROR_PIPE_BUSY = 231"
definition ERROR_SERVICE_DOES_NOT_EXIST :: nat where [simp]: "ERROR_SERVICE_DOES_NOT_EXIST = 1060"
definition ERROR_SERVICE_CANNOT_ACCEPT_CTRL :: nat where [simp]: "ERROR_SERVICE_CANNOT_ACCEPT_CTRL = 1061"
definition ERROR_SERVICE_NOT_ACTIVE :: nat where [simp]: "ERROR_SERVICE_NOT_ACTIVE = 1062"
definition ERROR_FAILED_SERVICE_CONTROLLER_CONNECT :: nat where [simp]:
  "ERROR_FAILED_SERVICE_CONTROLLER_CONNECT = 1063"
definition ERROR_SERVICE_MARKED_FOR_DELETE :: nat where [simp]: "ERROR_SERVICE_MARKED_FOR_DELETE = 1072"
definition SERVICE_STOPPED :: nat where [simp]: "SERVICE_STOPPED = 1"
definition SERVICE_RUNNING :: nat where [simp]: "SERVICE_RUNNING = 4"

section \<open>Waiting\<close>

text \<open>
  \<open>wait_until\<close> and \<open>retry\<close>.  Every round sleeps, so the deadline has passed after as many as
  there is fuel (\<open>wait_until_waits\<close>, \<open>retry_waits\<close>): running out of it is never what ends the
  loop.  The closure's variable \<open>last\<close> is passed along.
\<close>

fun wait_loop :: "nat \<Rightarrow> nat \<Rightarrow> ('a \<Rightarrow> (win, bool \<times> 'a) eff) \<Rightarrow> 'a \<Rightarrow> (win, bool \<times> 'a) eff" where
  "wait_loop n deadline is_done v =
     sbind (is_done v) (\<lambda>(ok, v').
     if ok then sret (True, v')
     else
       sbind (sget wn_now) (\<lambda>now.
       if deadline \<le> now then sret (False, v')
       else
         (case n of
            0 \<Rightarrow> sret (False, v')
          | Suc m \<Rightarrow> sbind (sleep 100) (\<lambda>_. wait_loop m deadline is_done v'))))"

declare wait_loop.simps [simp del]

definition wait_until :: "nat \<Rightarrow> ('a \<Rightarrow> (win, bool \<times> 'a) eff) \<Rightarrow> 'a \<Rightarrow> (win, bool \<times> 'a) eff" where
  "wait_until limit is_done v =
     sbind (sget wn_now) (\<lambda>now. wait_loop (limit div 100) (now + limit) is_done v)"

text \<open>A condition without a variable.\<close>

definition wait_for :: "nat \<Rightarrow> (win, bool) eff \<Rightarrow> (win, bool) eff" where
  "wait_for limit is_done =
     sbind (wait_until limit (\<lambda>u. sbind is_done (\<lambda>ok. sret (ok, u))) ()) (\<lambda>(ok, _). sret ok)"

fun retry_loop :: "nat \<Rightarrow> nat \<Rightarrow> (win, 'a) eff \<Rightarrow> (win, 'a) eff" where
  "retry_loop n deadline f =
     sbind (stry f) (\<lambda>r.
     case r of
       Inr v \<Rightarrow> sret v
     | Inl e \<Rightarrow>
         sbind (sget wn_now) (\<lambda>now.
         if now < deadline then
           (case n of 0 \<Rightarrow> sthrow e | Suc m \<Rightarrow> sbind (sleep 200) (\<lambda>_. retry_loop m deadline f))
         else sthrow e))"

declare retry_loop.simps [simp del]

definition retry :: "(win, 'a) eff \<Rightarrow> (win, 'a) eff" where
  "retry f = sbind (sget wn_now) (\<lambda>now. retry_loop 25 (now + 5000) f)"

definition WAIT :: nat where [simp]: "WAIT = 10000"
definition RESTART_WAIT :: nat where [simp]: "RESTART_WAIT = 120000"

section \<open>The service manager\<close>

definition query :: "machine \<Rightarrow> (win, nat \<times> nat) eff" where
  "query y =
     sbind (invoke y QueryStatus) (\<lambda>r.
     case r of
       Some e \<Rightarrow> sthrow (Io (mc_error y e))
     | None \<Rightarrow> sget (\<lambda>s. mc_status y (wn_calls s)))"

definition service_pid :: "machine \<Rightarrow> (win, nat option) eff" where
  "service_pid y =
     sbind (invoke y (OpenManager False)) (\<lambda>r.
     case r of
       Some e \<Rightarrow> sthrow (Io (mc_error y e))
     | None \<Rightarrow>
         sbind (invoke y OpenService) (\<lambda>r.
         case r of
           Some e \<Rightarrow>
             if e = ERROR_SERVICE_DOES_NOT_EXIST then sret None else sthrow (Io (mc_error y e))
         | None \<Rightarrow>
             sbind (query y) (\<lambda>(state, pid).
             sret (if state = SERVICE_RUNNING then Some pid else None))))"

definition needs_elevation :: "machine \<Rightarrow> string \<Rightarrow> nat \<Rightarrow> err" where
  "needs_elevation y msg e =
     (if e = ERROR_ACCESS_DENIED then Context msg AccessDenied
      else Context ''opening the service manager'' (Io (mc_error y e)))"

definition remove_service :: "machine \<Rightarrow> (win, bool) eff" where
  "remove_service y =
     sbind (invoke y OpenService) (\<lambda>r.
     case r of
       Some e \<Rightarrow>
         if e = ERROR_SERVICE_DOES_NOT_EXIST then sret False
         else sthrow (Context ''opening the btrfs-peek service'' (Io (mc_error y e)))
     | None \<Rightarrow>
         sbind (invoke y ControlStop) (\<lambda>r.
         if (case r of None \<Rightarrow> False
             | Some e \<Rightarrow> e \<noteq> ERROR_SERVICE_NOT_ACTIVE \<and> e \<noteq> ERROR_SERVICE_CANNOT_ACCEPT_CTRL) then
           sthrow (Context ''stopping the btrfs-peek service'' (Io (mc_error y (the r))))
         else
           sbind
             (wait_for WAIT (sbind (stry (query y)) (\<lambda>q.
                sret (case q of Inr (state, _) \<Rightarrow> state = SERVICE_STOPPED | Inl _ \<Rightarrow> False)))) (\<lambda>_.
           sbind (invoke y DeleteService) (\<lambda>r.
           if (case r of None \<Rightarrow> False | Some e \<Rightarrow> e \<noteq> ERROR_SERVICE_MARKED_FOR_DELETE) then
             sthrow (Context ''deleting the btrfs-peek service'' (Io (mc_error y (the r))))
           else
             sbind (invoke y CloseService) (\<lambda>_.
             sbind
               (wait_for WAIT (sbind (invoke y OpenService) (\<lambda>r.
                  sret (r = Some ERROR_SERVICE_DOES_NOT_EXIST)))) (\<lambda>gone.
             if \<not> gone then
               bail ''the old service is still marked for deletion; close the Services window and retry''
             else sret True))))))"

definition BACKSLASH :: char where "BACKSLASH = CHR 0x5C"

text \<open>\<open>Path::join\<close> with a plain name.\<close>

definition win_join :: "string \<Rightarrow> string \<Rightarrow> string" where
  "win_join p n = (if p \<noteq> [] \<and> last p \<in> {BACKSLASH, CHR ''/''} then p @ n else p @ BACKSLASH # n)"

definition install_dir :: "machine \<Rightarrow> string" where
  "install_dir y =
     win_join (case mc_program_files y of
       Some p \<Rightarrow> p | None \<Rightarrow> ''C:'' @ BACKSLASH # ''Program Files'') ''btrfs-peek''"

definition installed_exe :: "machine \<Rightarrow> string" where
  "installed_exe y = win_join (install_dir y) ''btrfs-peek.exe''"

definition copy_exe :: "machine \<Rightarrow> (win, string) eff" where
  "copy_exe y =
     sbind (scontext ''finding this program'' (slift (map_err Io (mc_exe y)))) (\<lambda>src.
     sbind (must y (''creating '' @ install_dir y) (CreateDir (install_dir y))) (\<lambda>_.
     sbind (sget (\<lambda>s. mc_same_file y (wn_calls s) src (installed_exe y))) (\<lambda>same.
     if same then sret (installed_exe y)
     else
       sbind
         (scontext (''copying '' @ src @ '' to '' @ installed_exe y)
           (retry (sbind (invoke y (CopyFile src (installed_exe y))) (\<lambda>r.
              case r of None \<Rightarrow> sret () | Some e \<Rightarrow> sthrow (Io (mc_error y e)))))) (\<lambda>_.
       sret (installed_exe y)))))"

definition restart_on_failure :: "machine \<Rightarrow> (win, unit) eff" where
  "restart_on_failure y =
     (let c = ''setting the btrfs-peek service's failure actions'' in
      sbind (must y c (FailureActions [2000, 10000, 60000])) (\<lambda>_. must y c FailureFlag))"

definition description_of :: "string \<Rightarrow> string" where
  "description_of sid =
     ''Lets '' @ sid @ '' read btrfs partitions with btrfs-peek without an elevated terminal. ''
     @ ''Read-only; btrfs partitions only.''"

definition PRIVILEGES :: string where "PRIVILEGES = ''SeChangeNotifyPrivilege''"

definition configure :: "machine \<Rightarrow> string \<Rightarrow> (win, unit) eff" where
  "configure y sid =
     sbind (must y ''describing the btrfs-peek service'' (Describe (description_of sid))) (\<lambda>_.
     sbind (must y ''limiting the btrfs-peek service's privileges'' (LimitPrivileges PRIVILEGES)) (\<lambda>_.
     restart_on_failure y))"

definition command_line :: "string \<Rightarrow> string \<Rightarrow> string" where
  "command_line exe sid = [CHR 0x22] @ exe @ [CHR 0x22] @ '' helper serve --sid '' @ sid"

definition create_service :: "machine \<Rightarrow> string \<Rightarrow> string \<Rightarrow> (win, unit) eff" where
  "create_service y exe sid =
     sbind (must y ''creating the btrfs-peek service'' (CreateService (command_line exe sid))) (\<lambda>_.
     sbind (stry (configure y sid)) (\<lambda>r.
     case r of
       Inl e \<Rightarrow> sbind (invoke y DeleteService) (\<lambda>_. sthrow e)
     | Inr _ \<Rightarrow> sret ()))"

section \<open>The client's connection\<close>

text \<open>Waiting for an instance that is free; see \<open>busy_loop_waits\<close> for the fuel.\<close>

fun busy_loop :: "nat \<Rightarrow> machine \<Rightarrow> nat \<Rightarrow> string \<Rightarrow> (win, (writer \<times> event list) option) eff" where
  "busy_loop n y deadline name =
     sbind (sget wn_calls) (\<lambda>cs.
     sbind (invoke y (OpenPipe name)) (\<lambda>r.
     case r of
       None \<Rightarrow> sret (Some (mc_pipe y cs))
     | Some e \<Rightarrow>
         if io_kind (mc_error y e) = IoNotFound then sret None
         else
           sbind (sget wn_now) (\<lambda>now.
           if e = ERROR_PIPE_BUSY \<and> now < deadline then
             (case n of
                0 \<Rightarrow> sthrow (Io (mc_error y e))
              | Suc m \<Rightarrow> sbind (sleep 10) (\<lambda>_. busy_loop m y deadline name))
           else sthrow (Io (mc_error y e)))))"

declare busy_loop.simps [simp del]

definition untrusted :: io_error where
  "untrusted =
     IoError IoOther (PIPE @ '' is not served by the installed btrfs-peek helper; refusing to trust it'')"

definition connect_to :: "machine \<Rightarrow> string \<Rightarrow> bool \<Rightarrow> (win, (writer \<times> event list) option) eff" where
  "connect_to y name verify =
     sbind (sget wn_now) (\<lambda>now.
     sbind (busy_loop 500 y (now + 5000) name) (\<lambda>pipe.
     case pipe of
       None \<Rightarrow> sret None
     | Some p \<Rightarrow>
         if verify then
           sbind (invoke y ServerPid) (\<lambda>r.
           case r of
             Some e \<Rightarrow> sthrow (Io (mc_error y e))
           | None \<Rightarrow>
               sbind (sget (\<lambda>s. mc_server_pid y (wn_calls s))) (\<lambda>pid.
               sbind (stry (service_pid y)) (\<lambda>q.
               if (case q of Inr (Some pid') \<Rightarrow> pid' = pid | _ \<Rightarrow> False) then sret (Some p)
               else sthrow (Io untrusted))))
         else sret (Some p)))"

text \<open>What is said on a pipe: the pipe's own state goes along.\<close>

definition fresh :: "writer \<times> event list \<Rightarrow> conn" where
  "fresh p = \<lparr>cn_in = snd p, cn_out = []\<rparr>"

definition talk :: "(conn, 'a) eff \<Rightarrow> conn \<Rightarrow> (win, 'a \<times> conn) eff" where
  "talk m c = slift (case m c of (Inr v, c') \<Rightarrow> Inr (v, c') | (Inl e, _) \<Rightarrow> Inl e)"

definition probe_service :: "machine \<Rightarrow> (win, string) eff" where
  "probe_service y =
     sbind (connect_to y PIPE True) (\<lambda>pipe.
     case pipe of
       None \<Rightarrow> sthrow (Io (IoError IoNotFound (PIPE @ '' does not exist'')))
     | Some p \<Rightarrow> sbind (talk (session_start (fst p)) (fresh p)) (\<lambda>(version, _). sret version))"

text \<open>\<open>Remote\<close>: a partition opened through the helper.\<close>

definition remote_open :: "machine \<Rightarrow> string \<Rightarrow> (win, (writer \<times> conn) option) eff" where
  "remote_open y path =
     sbind (connect_to y PIPE True) (\<lambda>pipe.
     case pipe of
       None \<Rightarrow> sret None
     | Some p \<Rightarrow>
         sbind (talk (session_start (fst p)) (fresh p)) (\<lambda>(_, c).
         sbind (talk (session_open (fst p) path) c) (\<lambda>(_, c'). sret (Some (fst p, c')))))"

definition remote_read_at :: "writer \<times> conn \<Rightarrow> nat \<Rightarrow> u64 \<Rightarrow> (err + bytes) \<times> (writer \<times> conn)" where
  "remote_read_at h buf_len off =
     (case session_read_at (fst h) buf_len off (snd h) of (r, c) \<Rightarrow> (r, (fst h, c)))"

section \<open>The commands\<close>

definition error_text :: "err \<Rightarrow> string" where
  "error_text e = (case e of Io io \<Rightarrow> io_message io | _ \<Rightarrow> [])"

definition not_a_sid :: "string \<Rightarrow> string" where
  "not_a_sid sid = sid @ '': not a SID (expected S-1-...)''"

text \<open>What \<open>install\<close> waits for, and the last error it met.\<close>

definition answers :: "machine \<Rightarrow> err option \<Rightarrow> (win, bool \<times> err option) eff" where
  "answers y e0 =
     sbind (stry (probe_service y)) (\<lambda>r.
     sret (case r of Inr _ \<Rightarrow> (True, e0) | Inl e \<Rightarrow> (False, Some e)))"

text \<open>\<open>install\<close>, once the account is known and the service manager open.\<close>

definition set_up_service :: "machine \<Rightarrow> string \<Rightarrow> (win, unit) eff" where
  "set_up_service y sid =
     sbind (remove_service y) (\<lambda>_.
     sbind (copy_exe y) (\<lambda>exe.
     sbind (create_service y exe sid) (\<lambda>_.
     sbind (must y ''starting the btrfs-peek service'' StartService) (\<lambda>_.
     sbind (wait_until WAIT (answers y) None) (\<lambda>(up, err).
     if \<not> up then
       bail (''the service was installed and started but does not answer''
         @ (case err of None \<Rightarrow> [] | Some e \<Rightarrow> '': '' @ error_text e))
     else
       println (''installed the btrfs-peek helper '' @ VERSION @ '': the service runs '' @ exe
         @ '' and lets '' @ sid
         @ '' read btrfs partitions; it now updates itself from signed releases''))))))"

definition install_service :: "machine \<Rightarrow> string option \<Rightarrow> (win, unit) eff" where
  "install_service y asked =
     sbind
       (case asked of
          Some s \<Rightarrow> sret s
        | None \<Rightarrow> scontext ''finding this account's SID'' (slift (map_err Io (mc_user_sid y)))) (\<lambda>sid.
     if \<not> sid_ok sid then bail (not_a_sid sid)
     else
       sbind (invoke y (OpenManager True)) (\<lambda>r.
       case r of
         Some e \<Rightarrow>
           sthrow (needs_elevation y
             ''installing the helper needs an elevated (Administrator) terminal, once'' e)
       | None \<Rightarrow> set_up_service y sid))"

definition uninstall :: "machine \<Rightarrow> (win, unit) eff" where
  "uninstall y =
     sbind (invoke y (OpenManager True)) (\<lambda>r.
     case r of
       Some e \<Rightarrow>
         sthrow (needs_elevation y ''uninstalling the helper needs an elevated (Administrator) terminal'' e)
     | None \<Rightarrow>
         sbind (remove_service y) (\<lambda>had_service.
         let dir = install_dir y in
         sbind (sget (\<lambda>s. mc_exists y (wn_calls s) dir)) (\<lambda>had_dir.
         sbind
           (if had_dir then
              scontext (''removing '' @ dir)
                (retry (sbind (invoke y (RemoveDir dir)) (\<lambda>r.
                   case r of None \<Rightarrow> sret () | Some e \<Rightarrow> sthrow (Io (mc_error y e)))))
            else sret ()) (\<lambda>_.
         println
           (if had_service \<or> had_dir then ''removed the btrfs-peek helper service and '' @ dir
            else ''the helper is not installed'')))))"

text \<open>\<open>status\<close>: the fields are filled in as far as the checks get.\<close>

definition unknown_state :: state where
  "unknown_state =
     \<lparr>st_installed = False, st_running = False, st_pid = None, st_version = None,
      st_last_update_check = None\<rparr>"

definition not_installed :: string where
  "not_installed =
     ''the helper is not installed; install it once from an elevated (Administrator) terminal: `btrfs-peek helper install`''"

definition check :: "machine \<Rightarrow> (win, state \<times> string option) eff" where
  "check y =
     sbind (invoke y (OpenManager False)) (\<lambda>r.
     case r of
       Some e \<Rightarrow> sret (unknown_state, Some (''opening the service manager: '' @ io_message (mc_error y e)))
     | None \<Rightarrow>
         sbind (invoke y OpenService) (\<lambda>r.
         case r of
           Some e \<Rightarrow>
             sret (unknown_state, Some (if e = ERROR_SERVICE_DOES_NOT_EXIST then not_installed
               else ''opening the btrfs-peek service: '' @ io_message (mc_error y e)))
         | None \<Rightarrow>
             let st = unknown_state\<lparr>st_installed := True\<rparr> in
             sbind (stry (query y)) (\<lambda>q.
             case q of
               Inl e \<Rightarrow> sret (st, Some (''querying the btrfs-peek service: '' @ error_text e))
             | Inr (state, pid) \<Rightarrow>
                 if state \<noteq> SERVICE_RUNNING then
                   sret (st, Some ''the helper is installed but not running; start it with `sc start btrfs-peek` from an elevated terminal, or reinstall it'')
                 else
                   let st = st\<lparr>st_running := True, st_pid := Some pid\<rparr> in
                   sbind (stry (probe_service y)) (\<lambda>v.
                   case v of
                     Inl e \<Rightarrow> sret (st, Some (''the helper is running but not answering: '' @ error_text e))
                   | Inr version \<Rightarrow> sret (st\<lparr>st_version := Some version\<rparr>, None)))))"

fun printlns :: "string list \<Rightarrow> (win, unit) eff" where
  "printlns [] = sret ()"
| "printlns (l # ls) = sbind (println l) (\<lambda>_. printlns ls)"

definition status :: "machine \<Rightarrow> bool \<Rightarrow> (win, unit) eff" where
  "status y json =
     sbind (check y) (\<lambda>(st, problem).
     sbind (sget (\<lambda>s. mc_status_file y (wn_calls s))) (\<lambda>last_check.
     let st = st\<lparr>st_last_update_check := map_option parse_status last_check\<rparr> in
     sbind
       (if json then smodify (\<lambda>s. s\<lparr>wn_out := wn_out s @ [State st]\<rparr>)
        else
          sbind
            (if problem = None then
               println (''the btrfs-peek helper '' @ (case st_version st of None \<Rightarrow> ''?'' | Some v \<Rightarrow> v)
                 @ '' is running (pid '' @ dec_string (case st_pid st of None \<Rightarrow> 0 | Some p \<Rightarrow> p)
                 @ '') and answering on '' @ PIPE)
             else sret ()) (\<lambda>_.
          case last_check of
            None \<Rightarrow> sret ()
          | Some text \<Rightarrow>
              printlns (''last update check:'' # map (\<lambda>l. ''  '' @ l) (text_lines text)))) (\<lambda>_.
     case problem of Some p \<Rightarrow> bail p | None \<Rightarrow> sret ())))"

text \<open>Is the new build answering?  If not, a longer pause before the next look.\<close>

definition is_back :: "machine \<Rightarrow> string \<Rightarrow> (win, bool) eff" where
  "is_back y new =
     sbind (stry (probe_service y)) (\<lambda>r.
     if r = Inr new then sret True else sbind (sleep 900) (\<lambda>_. sret False))"

definition update_service :: "machine \<Rightarrow> (win, unit) eff" where
  "update_service y =
     sbind (scontext ''connecting to the helper'' (connect_to y PIPE True)) (\<lambda>pipe.
     case pipe of
       None \<Rightarrow> bail not_installed
     | Some p \<Rightarrow>
         sbind (scontext ''connecting to the helper'' (talk (session_start (fst p)) (fresh p))) (\<lambda>(version, c).
         sbind (eprintln (''asking the btrfs-peek helper '' @ version @ '' to check for a signed release...'')) (\<lambda>_.
         sbind (talk (session_update (fst p) version) c) (\<lambda>((reply, installed), _).
         sbind (println reply) (\<lambda>_.
         case installed of
           None \<Rightarrow> sret ()
         | Some v \<Rightarrow>
             let new = version_show v in
             sbind (wait_for RESTART_WAIT (is_back y new)) (\<lambda>back.
             println
               (if back then ''the btrfs-peek helper '' @ new @ '' is running''
                else ''the helper has not come back on '' @ new
                  @ '' yet: it restarts once no client is reading through it (within an hour); `btrfs-peek helper status` shows which version answers'')))))))"

section \<open>The service process\<close>

definition serve :: "machine \<Rightarrow> string \<Rightarrow> (win, unit) eff" where
  "serve y sid =
     (if \<not> sid_ok sid then bail (not_a_sid sid)
      else
        sbind (invoke y StartDispatcher) (\<lambda>r.
        case r of
          None \<Rightarrow> sret ()
        | Some e \<Rightarrow>
            if e = ERROR_FAILED_SERVICE_CONTROLLER_CONNECT then
              bail ''`helper serve` is run by the Windows service manager; use `btrfs-peek helper install`''
            else sthrow (Context ''connecting to the service manager'' (Io (mc_error y e)))))"

text \<open>What \<open>helper\<close> is asked to do.\<close>

datatype (plugins only: code size) action =
    Install "string option"
  | Uninstall
  | Status
  | Update
  | Serve string

definition run_action :: "machine \<Rightarrow> action \<Rightarrow> bool \<Rightarrow> (win, unit) eff" where
  "run_action y a json =
     (case a of
        Install sid \<Rightarrow> install_service y sid
      | Uninstall \<Rightarrow> uninstall y
      | Status \<Rightarrow> status y json
      | Update \<Rightarrow> update_service y
      | Serve sid \<Rightarrow> serve y sid)"

record service_status =
  ss_state :: nat
  ss_controls :: nat
  ss_exit_code :: nat

text \<open>While it runs it accepts being stopped (1) and shut down (4).\<close>

definition service_report :: "nat \<Rightarrow> nat \<Rightarrow> service_status" where
  "service_report state code =
     \<lparr>ss_state = state, ss_controls = (if state = SERVICE_RUNNING then 5 else 0),
      ss_exit_code = code\<rparr>"

text \<open>
  What \<open>service_main\<close> tells the service manager, once it has a handler: that the service runs,
  and, should the pipe server (which only ends with an error) end, that it has stopped.
\<close>

definition service_reports :: "bool \<Rightarrow> nat option \<Rightarrow> service_status list" where
  "service_reports registered lost =
     (if \<not> registered then []
      else
        [service_report SERVICE_RUNNING 0,
         service_report SERVICE_STOPPED (case lost of None \<Rightarrow> 1 | Some c \<Rightarrow> c)])"

datatype (plugins only: code size) controlled = Ends service_status | Returns nat

definition control :: "nat \<Rightarrow> controlled" where
  "control code =
     (if code = 1 \<or> code = 5 then Ends (service_report SERVICE_STOPPED 0)
      else if code = 4 then Returns 0
      else Returns 120)"

end
