(* ===== verification/Program.thy ===== *)
theory Program
  imports Cli Scan Install
begin

text \<open>
  The program as a whole (src/main.rs): the parsed command line, the dispatch on the command,
  what goes to the two outputs and the exit code.  What stands outside the program (the
  devices, the host's file system, the globs, standard output, the Windows service manager,
  the rendering of JSON) is one record.
\<close>

section \<open>The command line, as clap hands it over\<close>

datatype (plugins only: code size) cmd =
    Scan
  | Info
  | Subvols
  | Ls string bool                  \<comment> \<open>path, \<open>--long\<close>\<close>
  | Stat string
  | Cat string u64 "u64 option"     \<comment> \<open>path, \<open>--offset\<close>, \<open>--length\<close>\<close>
  | Find string "string option" "char option" "nat option" bool bool
      \<comment> \<open>path, \<open>--name\<close>, \<open>--type\<close>, \<open>--max-depth\<close>, \<open>-x\<close>, \<open>--no-snapshots\<close>\<close>
  | Cp string path "string list" bool bool bool "path option"
      \<comment> \<open>source, destination, \<open>--exclude\<close>, \<open>--force\<close>, \<open>-x\<close>, \<open>--no-snapshots\<close>, \<open>--manifest\<close>\<close>
  | HelperCmd action

record cli =
  cl_device :: "string list"
  cl_json :: bool
  cl_cmd :: cmd

section \<open>What is printed\<close>

text \<open>The values that serde prints, as JSON or (\<open>Fields\<close>) a padded key and a value a line.\<close>

datatype (plugins only: code size) json_value =
    ScanJson scan_result
  | InfoJson info
  | SubvolsJson "(subvol \<times> bool) list"
  | RowsJson "row list"
  | StatJson "description \<times> nat \<times> string list"
  | PathsJson "string list"
  | ReportJson report
  | StateJson state

datatype (plugins only: code size) shown =
    Line string
  | Json json_value
  | Fields nat json_value     \<comment> \<open>the width of the keys\<close>
  | Raw bytes              \<comment> \<open>written by \<open>cat\<close>\<close>

datatype (plugins only: code size) told =
    Hint string
  | Warned warning
  | Fails string err       \<comment> \<open>\<open>btrfs-peek:\<close>, where, and what\<close>

record outcome =
  oc_out :: "shown list"
  oc_err :: "told list"
  oc_result :: "err + unit"

record env =
  ev_ext :: ext
  ev_open :: opener                                        \<comment> \<open>\<open>Device::open\<close>\<close>
  ev_partitions :: "string option"                         \<comment> \<open>\<open>/proc/partitions\<close>\<close>
  ev_glob :: "string \<Rightarrow> string + (string \<Rightarrow> bool)"          \<comment> \<open>\<open>Glob::new\<close> and its matcher\<close>
  ev_glob_set :: "string list \<Rightarrow> string + (string \<Rightarrow> bool)" \<comment> \<open>\<open>GlobSetBuilder::build\<close>\<close>
  ev_world :: world
  ev_stdout :: stdout
  ev_flush :: "bytes \<Rightarrow> io_error option"
  ev_machine :: machine
  ev_debug :: "string \<Rightarrow> string"                           \<comment> \<open>\<open>{:?}\<close>\<close>
  ev_json :: "json_value \<Rightarrow> string"                             \<comment> \<open>\<open>to_string_pretty\<close>\<close>
  ev_fields :: "nat \<Rightarrow> json_value \<Rightarrow> string list"              \<comment> \<open>the lines of \<open>as_object\<close>\<close>

abbreviation ev_windows :: "env \<Rightarrow> bool" where
  "ev_windows e \<equiv> ext_windows (ev_ext e)"

text \<open>A command that prints only once nothing can fail any more.\<close>

definition prints :: "('a \<Rightarrow> shown list) \<Rightarrow> err + 'a \<Rightarrow> outcome" where
  "prints f r =
     (case r of
        Inl e \<Rightarrow> \<lparr>oc_out = [], oc_err = [], oc_result = Inl e\<rparr>
      | Inr v \<Rightarrow> \<lparr>oc_out = f v, oc_err = [], oc_result = Inr ()\<rparr>)"

section \<open>The commands without a file system\<close>

definition scan_line :: "(string \<Rightarrow> string) \<Rightarrow> found_fs \<Rightarrow> string" where
  "scan_line debug f =
     fo_device f @ ''  label='' @ debug (fo_label f) @ '' uuid='' @ debug (fo_uuid f)
     @ '' size='' @ dec_string (unat (fo_total_bytes f)) @ '' used='' @ dec_string (unat (fo_bytes_used f))
     @ '' devices='' @ dec_string (unat (fo_num_devices f))"

definition do_scan :: "env \<Rightarrow> bool \<Rightarrow> outcome" where
  "do_scan e json =
     (let r = scan (crc32c (ev_ext e)) (ev_open e) (candidates (ev_windows e) (ev_partitions e));
          (hints, res) = run_scan (ev_windows e) (PRIVILEGE_HINT (ev_windows e)) r in
      \<lparr>oc_out =
         (if json then [Json (ScanJson r)]
          else map (\<lambda>f. Line (scan_line (ev_debug e) f)) (sr_filesystems r)
            @ (if sr_filesystems r = [] then [Line ''no btrfs filesystems found''] else [])),
       oc_err = map Hint hints,
       oc_result = (case res of Inl err \<Rightarrow> Inl err | Inr _ \<Rightarrow> Inr ())\<rparr>)"

definition started :: win where
  "started = \<lparr>wn_calls = [], wn_now = 0, wn_out = [], wn_err = []\<rparr>"

definition do_helper :: "env \<Rightarrow> action \<Rightarrow> bool \<Rightarrow> outcome" where
  "do_helper e a json =
     (if ev_windows e then
        (case run_action (ev_machine e) a json started of
           (r, s) \<Rightarrow>
             \<lparr>oc_out = map (\<lambda>p. case p of Text l \<Rightarrow> Line l | State st \<Rightarrow> Json (StateJson st)) (wn_out s),
              oc_err = map Hint (wn_err s), oc_result = r\<rparr>)
      else
        \<lparr>oc_out = [], oc_err = [],
         oc_result = Inl (App (HelperError
           ''the helper is for Windows; on Linux, add yourself to the `disk` group (or run as root)''))\<rparr>)"

section \<open>The commands on a file system\<close>

definition subvol_line :: "subvol \<times> string list \<Rightarrow> string" where
  "subvol_line = (\<lambda>(sv, tags).
     pad_left 6 (dec_string (unat (sv_id sv))) @ ''  '' @ sv_path sv @ ''  ''
     @ join_with '','' tags)"

definition do_info :: "env \<Rightarrow> bool \<Rightarrow> fs \<Rightarrow> outcome" where
  "do_info e json s =
     prints (\<lambda>v. [if json then Json (InfoJson v) else Fields 28 (InfoJson v)])
       (fst (run_info (ev_ext e) s))"

definition do_subvols :: "env \<Rightarrow> bool \<Rightarrow> fs \<Rightarrow> outcome" where
  "do_subvols e json s =
     prints
       (\<lambda>svs.
          if json then [Json (SubvolsJson (map (\<lambda>(sv, tags). (sv, ''default'' \<in> set tags)) svs))]
          else map (\<lambda>v. Line (subvol_line v)) svs)
       (fst (run_subvols (ev_ext e) s))"

definition row_line :: "row \<Rightarrow> string" where
  "row_line r =
     (case r of Plain l \<Rightarrow> l | Long name v \<Rightarrow> print_long v name | Single path v \<Rightarrow> print_long v path)"

definition do_ls :: "env \<Rightarrow> bool \<Rightarrow> string \<Rightarrow> bool \<Rightarrow> fs \<Rightarrow> outcome" where
  "do_ls e json path long s =
     prints (\<lambda>rows. if json then [Json (RowsJson rows)] else map (\<lambda>r. Line (row_line r)) rows)
       (fst (run_ls (ev_ext e) path (long \<or> json) s))"

definition do_stat :: "env \<Rightarrow> bool \<Rightarrow> string \<Rightarrow> fs \<Rightarrow> outcome" where
  "do_stat e json path s =
     prints (\<lambda>v. [if json then Json (StatJson v) else Fields 14 (StatJson v)])
       (fst (run_stat (ev_ext e) path s))"

text \<open>What \<open>cat\<close> has written stays written when it fails; at the end it flushes.\<close>

definition do_cat :: "env \<Rightarrow> string \<Rightarrow> u64 \<Rightarrow> u64 option \<Rightarrow> fs \<Rightarrow> outcome" where
  "do_cat e path offset len s =
     (case run_cat (ev_ext e) (ev_stdout e) path offset len (s, []) of
        (r, (_, out)) \<Rightarrow>
          \<lparr>oc_out = [Raw out], oc_err = [],
           oc_result =
             rbind r (\<lambda>_. case ev_flush e out of None \<Rightarrow> Inr () | Some io \<Rightarrow> Inl (Io io))\<rparr>)"

definition new_finder :: "fs \<Rightarrow> finder" where
  "new_finder s = \<lparr>fd_fs = s, fd_seen = [], fd_out = [], fd_stdout = [], fd_stderr = []\<rparr>"

definition name_glob :: "env \<Rightarrow> string option \<Rightarrow> err + (string \<Rightarrow> bool) option" where
  "name_glob e name =
     (case name of
        None \<Rightarrow> Inr None
      | Some n \<Rightarrow>
          (case ev_glob e n of
             Inl msg \<Rightarrow> Inl (Context ''--name'' (App (BadGlob msg)))
           | Inr g \<Rightarrow> Inr (Some g)))"

definition do_find ::
  "env \<Rightarrow> bool \<Rightarrow> string \<Rightarrow> string option \<Rightarrow> char option \<Rightarrow> nat option \<Rightarrow> bool \<Rightarrow> bool \<Rightarrow> fs \<Rightarrow> outcome"
where
  "do_find e json path name ty max_depth one_subvolume no_snapshots s =
     (if (case ty of None \<Rightarrow> False | Some t \<Rightarrow> t \<notin> {CHR ''f'', CHR ''d'', CHR ''l''}) then
        \<lparr>oc_out = [], oc_err = [], oc_result = Inl (App BadTypeOption)\<rparr>
      else
        (case name_glob e name of
           Inl err \<Rightarrow> \<lparr>oc_out = [], oc_err = [], oc_result = Inl err\<rparr>
         | Inr g \<Rightarrow>
             let q = \<lparr>q_name = g, q_ty = ty, q_max_depth = max_depth, q_one_subvolume = one_subvolume,
                      q_no_snapshots = no_snapshots, q_stream = \<not> json\<rparr> in
             (case run_find (ev_ext e) q path (new_finder s) of
                (r, t) \<Rightarrow>
                  \<lparr>oc_out = map Line (fd_stdout t)
                     @ (case r of Inr out \<Rightarrow> if json then [Json (PathsJson out)] else [] | Inl _ \<Rightarrow> []),
                   oc_err = map (\<lambda>(p, err). Fails p err) (fd_stderr t),
                   oc_result = (case r of Inl err \<Rightarrow> Inl err | Inr _ \<Rightarrow> Inr ())\<rparr>)))"

fun check_globs :: "env \<Rightarrow> string list \<Rightarrow> err + unit" where
  "check_globs e [] = Inr ()"
| "check_globs e (g # gs) =
     (case ev_glob e g of
        Inl msg \<Rightarrow> Inl (Context (''--exclude '' @ g) (App (BadGlob msg)))
      | Inr _ \<Rightarrow> check_globs e gs)"

definition create_manifest :: "world \<Rightarrow> path option \<Rightarrow> (copier, unit) eff" where
  "create_manifest w mf =
     (case mf of
        None \<Rightarrow> sret ()
      | Some p \<Rightarrow>
          scontext (''creating '' @ display p) (sbind (host w (CreateFile p)) (\<lambda>_. sret ())))"

text \<open>The globs are compiled into one set only after the source has been resolved.\<close>

definition copy_with ::
  "env \<Rightarrow> string \<Rightarrow> path \<Rightarrow> string list \<Rightarrow> bool \<Rightarrow> bool \<Rightarrow> bool \<Rightarrow> path option \<Rightarrow> (copier, report) eff"
where
  "copy_with e src dest exclude force one_subvolume no_snapshots mf =
     sbind (slift (check_globs e exclude)) (\<lambda>_.
     sbind (create_manifest (ev_world e) mf) (\<lambda>_.
     case ev_glob_set e exclude of
       Inl msg \<Rightarrow> sbind (with_fs (resolve (ev_ext e) src)) (\<lambda>_. sthrow (App (BadGlob msg)))
     | Inr globs \<Rightarrow>
         run_copy (ev_ext e) (ev_world e)
           \<lparr>o_exclude = globs, o_force = force, o_one_subvolume = one_subvolume,
            o_no_snapshots = no_snapshots, o_manifest = mf \<noteq> None\<rparr> src dest))"

definition copied_line :: "report \<Rightarrow> string" where
  "copied_line r =
     (let n = (\<lambda>v :: u64. dec_string (unat v)) in
      ''copied '' @ n (r_files r) @ '' files, '' @ n (r_dirs r) @ '' dirs, '' @ n (r_symlinks r)
      @ '' symlinks, '' @ n (r_bytes r) @ '' bytes; '' @ n (r_excluded r) @ '' excluded, ''
      @ n (r_failures r) @ '' failed'')"

definition report_copy :: "bool \<Rightarrow> err + report \<Rightarrow> outcome" where
  "report_copy json r =
     (case r of
        Inl err \<Rightarrow> \<lparr>oc_out = [], oc_err = [], oc_result = Inl err\<rparr>
      | Inr rep \<Rightarrow>
          \<lparr>oc_out = [if json then Json (ReportJson rep) else Line (copied_line rep)],
           oc_err = (if json then [] else map Warned (r_warnings rep)),
           oc_result = (if 0 < r_failures rep then Inl (Incomplete (r_failures rep)) else Inr ())\<rparr>)"

section \<open>The dispatch\<close>

definition command :: "env \<Rightarrow> bool \<Rightarrow> cmd \<Rightarrow> fs \<Rightarrow> outcome" where
  "command e json c s =
     (case c of
        Info \<Rightarrow> do_info e json s
      | Subvols \<Rightarrow> do_subvols e json s
      | Ls path long \<Rightarrow> do_ls e json path long s
      | Stat path \<Rightarrow> do_stat e json path s
      | Cat path offset len \<Rightarrow> do_cat e path offset len s
      | Find path name ty max_depth one no_snap \<Rightarrow> do_find e json path name ty max_depth one no_snap s
      | Cp src dest exclude force one no_snap mf \<Rightarrow>
          report_copy json (fst (copy_with e src dest exclude force one no_snap mf (new_copier s)))
      | Scan \<Rightarrow> do_scan e json             \<comment> \<open>these two are not reached: see \<open>run\<close>\<close>
      | HelperCmd a \<Rightarrow> do_helper e a json)"

definition warned :: "superblock \<Rightarrow> outcome \<Rightarrow> outcome" where
  "warned sb oc = oc\<lparr>oc_err := map Hint (warnings sb) @ oc_err oc\<rparr>"

definition run :: "env \<Rightarrow> cli \<Rightarrow> outcome" where
  "run e cli =
     (case cl_cmd cli of
        HelperCmd a \<Rightarrow> do_helper e a (cl_json cli)
      | Scan \<Rightarrow> do_scan e (cl_json cli)
      | c \<Rightarrow>
          (case fs_open (ev_ext e) (ev_windows e) (ev_open e) (cl_device cli) of
             Inl err \<Rightarrow> \<lparr>oc_out = [], oc_err = [], oc_result = Inl err\<rparr>
           | Inr s \<Rightarrow> warned (fs_sb s) (command e (cl_json cli) c s)))"

section \<open>The process\<close>

text \<open>
  \<open>println!\<close> panics when standard output cannot be written, and a panic ends the process with
  101.  What \<open>cat\<close> wrote was written by its own calls, which give errors instead.
\<close>

fun lines_of :: "env \<Rightarrow> shown \<Rightarrow> string list" where
  "lines_of e (Line l) = [l]"
| "lines_of e (Json v) = [ev_json e v]"
| "lines_of e (Fields w v) = ev_fields e w v"
| "lines_of e (Raw d) = []"

fun printlns_to :: "stdout \<Rightarrow> bytes \<Rightarrow> string list \<Rightarrow> bool \<times> bytes" where
  "printlns_to sw out [] = (True, out)"
| "printlns_to sw out (l # ls) =
     (let text = as_bytes l @ [10] in
      case sw out text of
        None \<Rightarrow> printlns_to sw (out @ text) ls
      | Some _ \<Rightarrow> (False, out))"

fun show_all :: "env \<Rightarrow> bytes \<Rightarrow> shown list \<Rightarrow> bool \<times> bytes" where
  "show_all e out [] = (True, out)"
| "show_all e out (Raw d # vs) = show_all e (out @ d) vs"
| "show_all e out (v # vs) =
     (case printlns_to (ev_stdout e) out (lines_of e v) of
        (True, out') \<Rightarrow> show_all e out' vs
      | (False, out') \<Rightarrow> (False, out'))"

text \<open>What a panicking process left on standard error is not part of the model.\<close>

record finished =
  ps_exit :: nat
  ps_stdout :: bytes
  ps_stderr :: "told list"

definition main :: "env \<Rightarrow> cli \<Rightarrow> finished" where
  "main e cli =
     (let oc = run e cli in
      case show_all e [] (oc_out oc) of
        (False, out) \<Rightarrow> \<lparr>ps_exit = 101, ps_stdout = out, ps_stderr = []\<rparr>
      | (True, out) \<Rightarrow>
          (case oc_result oc of
             Inr _ \<Rightarrow> \<lparr>ps_exit = 0, ps_stdout = out, ps_stderr = oc_err oc\<rparr>
           | Inl err \<Rightarrow>
               \<lparr>ps_exit = exit_code err, ps_stdout = out,
                ps_stderr = oc_err oc @ (if broken_pipe err then [] else [Fails [] err])\<rparr>))"

end
