(* ===== verification/Throws.thy ===== *)
theory Throws
  imports Program
begin

text \<open>
  Which errors each operation can end with, by root cause.  Only resolving a path says that it
  was not found, only opening devices (or the service manager) that access was denied, and only
  the end of a copy that it is incomplete; every error of the layers below is another one.
\<close>

section \<open>Root causes\<close>

fun root_cause :: "err \<Rightarrow> err" where
  "root_cause (Context c e) = root_cause e"
| "root_cause e = e"

definition not_found :: "err \<Rightarrow> bool" where
  "not_found e \<longleftrightarrow> (case root_cause e of PathNotFound p \<Rightarrow> True | _ \<Rightarrow> False)"

definition access_denied :: "err \<Rightarrow> bool" where
  "access_denied e \<longleftrightarrow> root_cause e = AccessDenied"

definition incomplete :: "err \<Rightarrow> bool" where
  "incomplete e \<longleftrightarrow> (case root_cause e of Incomplete n \<Rightarrow> True | _ \<Rightarrow> False)"

definition plain :: "err \<Rightarrow> bool" where
  "plain e \<longleftrightarrow> \<not> not_found e \<and> \<not> access_denied e \<and> \<not> incomplete e"

text \<open>What resolving a path can end with.\<close>

definition unresolved :: "err \<Rightarrow> bool" where
  "unresolved e \<longleftrightarrow> \<not> access_denied e \<and> \<not> incomplete e"

text \<open>The exit code is the root cause's.\<close>

lemma exit_code_root:
  "exit_code e =
     (case root_cause e of
        Io io \<Rightarrow> if io_kind io = IoBrokenPipe then 0 else 1
      | PathNotFound p \<Rightarrow> 3
      | AccessDenied \<Rightarrow> 4
      | Incomplete n \<Rightarrow> 5
      | _ \<Rightarrow> 1)"
proof (induction e rule: root_cause.induct)
  case (1 c e)
  have "exit_code (Context c e) = exit_code e" by (simp add: exit_code_def broken_pipe_def)
  with 1 show ?case by simp
qed (simp_all add: exit_code_def broken_pipe_def)

lemma exit_codes_iff:
  "exit_code e = 3 \<longleftrightarrow> not_found e" "exit_code e = 4 \<longleftrightarrow> access_denied e" "exit_code e = 5 \<longleftrightarrow> incomplete e"
  by (simp_all add: exit_code_root not_found_def access_denied_def incomplete_def split: err.split)

lemma exit_code_range: "exit_code e \<in> {0, 1, 3, 4, 5}"
  by (simp add: exit_code_root split: err.split)

lemma plain_simps [simp]:
  "plain (Disk d)" "plain (Codec c)" "plain (Fs f)" "plain (App a)" "plain (Io io)"
  "plain (Context t e) = plain e"
  by (simp_all add: plain_def not_found_def access_denied_def incomplete_def)

section \<open>Results and effects that only fail so\<close>

named_theorems throws_rules \<open>what an operation can end with\<close>

definition fails :: "(err \<Rightarrow> bool) \<Rightarrow> err + 'a \<Rightarrow> bool" where
  "fails E r \<longleftrightarrow> (\<forall>e. r = Inl e \<longrightarrow> E e)"

definition throws :: "(err \<Rightarrow> bool) \<Rightarrow> ('s, 'a) eff \<Rightarrow> bool" where
  "throws E m \<longleftrightarrow> (\<forall>s. fails E (fst (m s)))"

lemma throwsD: "throws E m \<Longrightarrow> m s = (Inl e, t) \<Longrightarrow> E e"
  unfolding throws_def fails_def by (metis fst_conv)

lemma throws_mono: "throws E m \<Longrightarrow> (\<And>e. E e \<Longrightarrow> F e) \<Longrightarrow> throws F m"
  by (auto simp: throws_def fails_def)

lemma fails_Inr [throws_rules]: "fails E (Inr v)"
  by (simp add: fails_def)

lemma fails_Inl: "E e \<Longrightarrow> fails E (Inl e)"
  by (simp add: fails_def)

lemma fails_plain [throws_rules]:
  "fails plain (Inl (Disk d))" "fails plain (Inl (Codec c))" "fails plain (Inl (Fs f))"
  "fails plain (Inl (App a))" "fails plain (Inl (Io io))"
  by (simp_all add: fails_def)

lemma fails_bind [throws_rules]: "fails E r \<Longrightarrow> (\<And>v. r = Inr v \<Longrightarrow> fails E (f v)) \<Longrightarrow> fails E (rbind r f)"
  by (cases r) (simp_all add: fails_def)

lemma fails_collect [throws_rules]: "(\<And>v. fails E (f v)) \<Longrightarrow> fails E (rcollect f vs)"
  by (induction vs) (auto simp: fails_def rbind_Inl_iff split: sum.splits)

lemma throws_ret [throws_rules]: "throws E (sret v)"
  and throws_get [throws_rules]: "throws E (sget f)"
  and throws_modify [throws_rules]: "throws E (smodify g)"
  and throws_try [throws_rules]: "throws E (stry m)"
  by (simp_all add: throws_def fails_def stry_def split_beta)

lemma throws_lift [throws_rules]: "fails E r \<Longrightarrow> throws E (slift r)"
  by (simp add: throws_def)

lemma throws_throw: "E e \<Longrightarrow> throws E (sthrow e)"
  by (simp add: throws_def fails_def)

lemma throws_plain [throws_rules]:
  "throws plain (sthrow (Disk d))" "throws plain (sthrow (Codec c))" "throws plain (sthrow (Fs f))"
  "throws plain (sthrow (App a))" "throws plain (sthrow (Io io))"
  by (simp_all add: throws_def fails_def)

lemma throws_bind [throws_rules]: "throws E m \<Longrightarrow> (\<And>v. throws E (f v)) \<Longrightarrow> throws E (sbind m f)"
  by (simp add: throws_def sbind_def fails_def split_beta split: sum.split)

text \<open>An error that is caught may be thrown again.\<close>

lemma throws_rethrow:
  assumes "throws E m" and "\<And>e. E e \<Longrightarrow> throws E (f e)" and "\<And>v. throws E (g v)"
  shows "throws E (sbind (stry m) (\<lambda>r. case r of Inl e \<Rightarrow> f e | Inr v \<Rightarrow> g v))"
  unfolding throws_def
proof
  fix s
  obtain r t where "m s = (r, t)" by (cases "m s")
  with assms show "fails E (fst (sbind (stry m) (\<lambda>r. case r of Inl e \<Rightarrow> f e | Inr v \<Rightarrow> g v) s))"
    by (cases r) (auto simp: throws_def sbind_def stry_def dest: throwsD [OF assms(1)])
qed

lemma throws_context [throws_rules]: "throws plain m \<Longrightarrow> throws plain (scontext c m)"
  by (simp add: throws_def fails_def scontext_def with_context_def split_beta split: sum.splits)

lemma throws_mapM [throws_rules]: "(\<And>v. throws E (f v)) \<Longrightarrow> throws E (smapM f vs)"
  by (induction vs) (auto intro!: throws_rules)

lemma throws_on_fst [throws_rules]: "throws E m \<Longrightarrow> throws E (on_fst m)"
  and throws_on_snd [throws_rules]: "throws E m2 \<Longrightarrow> throws E (on_snd m2)"
  and throws_with_fs [throws_rules]: "throws E n \<Longrightarrow> throws E (with_fs n)"
  and throws_on_fs [throws_rules]: "throws E n \<Longrightarrow> throws E (on_fs n)"
  by (simp_all add: throws_def on_fst_def on_snd_def with_fs_def on_fs_def split_beta)

lemma throws_pure [throws_rules]: "(\<And>s. fails E (f s)) \<Longrightarrow> throws E (\<lambda>s. (f s, s))"
  by (simp add: throws_def)

lemma fails_cases [throws_rules]:
  "(b \<Longrightarrow> fails E p) \<Longrightarrow> (\<not> b \<Longrightarrow> fails E q) \<Longrightarrow> fails E (if b then p else q)"
  "fails E p \<Longrightarrow> (\<And>v. fails E (f v)) \<Longrightarrow> fails E (case o' of None \<Rightarrow> p | Some v \<Rightarrow> f v)"
  "(\<And>e. fails E (g e)) \<Longrightarrow> (\<And>v. fails E (h v)) \<Longrightarrow> fails E (case r of Inl e \<Rightarrow> g e | Inr v \<Rightarrow> h v)"
  "(\<And>a b. ab = (a, b) \<Longrightarrow> fails E (k a b)) \<Longrightarrow> fails E (case ab of (a, b) \<Rightarrow> k a b)"
  "fails E (l a) \<Longrightarrow> fails E (let v = a in l v)"
  by (auto split: option.split sum.split prod.split)

lemma throws_cases [throws_rules]:
  "(b \<Longrightarrow> throws E p) \<Longrightarrow> (\<not> b \<Longrightarrow> throws E q) \<Longrightarrow> throws E (if b then p else q)"
  "throws E p \<Longrightarrow> (\<And>v. throws E (f v)) \<Longrightarrow> throws E (case o' of None \<Rightarrow> p | Some v \<Rightarrow> f v)"
  "(\<And>e. throws E (g e)) \<Longrightarrow> (\<And>v. throws E (h v)) \<Longrightarrow> throws E (case r of Inl e \<Rightarrow> g e | Inr v \<Rightarrow> h v)"
  "(\<And>a b. throws E (k a b)) \<Longrightarrow> throws E (case ab of (a, b) \<Rightarrow> k a b)"
  "throws E (l a) \<Longrightarrow> throws E (let v = a in l v)"
  by (auto split: option.split sum.split prod.split)

section \<open>Parsing and decompressing\<close>

lemma bytes_fails [throws_rules]: "fails plain (bytes b off len)"
  by (simp add: bytes_def fails_def split: option.splits)

lemma fields_fail [throws_rules]:
  "fails plain (u8_at b off)" "fails plain (u16_at b off)" "fails plain (u32_at b off)" "fails plain (u64_at b off)"
  unfolding u8_at_def u16_at_def u32_at_def u64_at_def by (intro throws_rules)+

lemma key_fails [throws_rules]: "fails plain (key_parse b off)"
  unfolding key_parse_def by (intro throws_rules)

lemma superblock_fails [throws_rules]: "fails plain (superblock_parse crc b)"
  unfolding superblock_parse_def by (intro throws_rules)

lemma chunk_fails [throws_rules]: "fails plain (chunk_parse start b)"
  unfolding chunk_parse_def stripe_at_def by (intro throws_rules)

lemma inode_fails [throws_rules]: "fails plain (inode_parse b)"
  unfolding inode_parse_def by (intro throws_rules)

lemma dir_from_fails: "fails plain (parse_dir_from b off out)"
proof (induction b off out rule: parse_dir_from.induct)
  case (1 b off out)
  then show ?case by (subst parse_dir_from.simps) (intro throws_rules, simp_all)
qed

lemma dir_fails [throws_rules]: "fails plain (parse_dir_entries b)"
  unfolding parse_dir_entries_def by (rule dir_from_fails)

lemma extent_fails [throws_rules]: "fails plain (extent_parse off b)"
  unfolding extent_parse_def by (intro throws_rules)

lemma finish_fails [throws_rules]: "fails plain (finish out sz what)"
  unfolding finish_def by (intro throws_rules)

lemma stream_fails [throws_rules]: "fails plain (stream reader src sz what)"
  unfolding stream_def by (intro throws_rules)

lemma le32_fails [throws_rules]: "fails plain (le32 src off)"
  unfolding le32_def by (intro throws_rules)

lemma lzo_loop_fails [throws_rules]: "fails plain (lzo_loop c src frame sz pos out)"
proof (induction c src frame sz pos out rule: lzo_loop.induct)
  case (1 c src frame sz pos out)
  then show ?case
    by (subst lzo_loop.simps, unfold Let_def, intro throws_rules)
      (auto intro!: throws_rules simp: Let_def split: lzo_result.split)
qed

lemma decode_fails [throws_rules]: "fails plain (decode c algo src ram sector inline)"
  unfolding decode_def lzo_def by (intro throws_rules)

section \<open>The file system\<close>

lemma mirrors_fails [throws_rules]: "fails plain (mirrors s logical len)"
  unfolding mirrors_def by (intro throws_rules)

lemma first_readable_fails: "plain e \<Longrightarrow> fails plain (first_readable len ms e)"
  by (induction len ms e rule: first_readable.induct) (auto simp: fails_def split: sum.splits)

lemma read_logical_fails [throws_rules]: "fails plain (read_logical s logical len)"
  unfolding read_logical_def by (intro throws_rules first_readable_fails) simp

lemma node_from_fails: "plain e \<Longrightarrow> fails plain (node_from x sb logical ms e)"
proof (induction ms arbitrary: e)
  case Nil
  then show ?case by (simp add: fails_Inl)
next
  case (Cons m ms)
  obtain dev phys where "m = (dev, phys)" by (cases m)
  then show ?case
    by (simp only: node_from.simps Let_def) (intro throws_rules Cons.IH, simp_all)
qed

lemma node_at_fails: "fails plain (node_at x s logical)"
  unfolding node_at_def by (intro throws_rules node_from_fails) simp

lemma read_node_throws [throws_rules]: "throws plain (read_node x logical)"
  using node_at_fails [of x _ logical]
  by (auto simp: throws_def fails_def read_node_def split: option.split sum.split)

lemma leaf_loop_fails:
  "(\<And>k d v. fails E (visit k d v)) \<Longrightarrow> (\<And>i. fails E (node_item node i))
   \<Longrightarrow> fails E (leaf_loop node mn mx visit is v)"
  by (induction "is" arbitrary: v) (simp_all, (intro throws_rules | simp)+)

lemma node_fields_fail [throws_rules]: "fails plain (node_item n i)" "fails plain (node_ptr n i)"
  unfolding node_item_def node_ptr_def by (intro throws_rules)+

lemma ptr_loop_throws:
  "(\<And>c v. throws plain (down c v)) \<Longrightarrow> throws plain (ptr_loop node mn mx down is n v)"
  by (induction "is" arbitrary: v) (simp_all only: ptr_loop.simps, (intro throws_rules | simp)+)

lemma walk_node_throws:
  "(\<And>k d v. fails plain (visit k d v))
   \<Longrightarrow> throws plain (walk_node x logical mn mx visit depth expect_level v)"
proof (induction x logical mn mx visit depth expect_level v rule: walk_node.induct)
  case (1 x logical mn mx visit depth expect_level v)
  show ?case
    by (subst walk_node.simps)
      (intro throws_rules ptr_loop_throws leaf_loop_fails "1.IH" "1.prems", simp_all)
qed

lemma walk_throws [throws_rules]:
  "(\<And>k d v. fails plain (visit k d v)) \<Longrightarrow> throws plain (walk x r mn mx visit v)"
  unfolding walk_def by (rule walk_node_throws)

lemma get_throws [throws_rules]: "throws plain (get x r k)"
  unfolding get_def by (intro throws_rules)

lemma tree_throws [throws_rules]: "throws plain (tree x tid)"
  unfolding tree_def tree_load_def by (intro throws_rules)

lemma root_throws [throws_rules]: "throws plain (root x)"
  unfolding root_def by (intro throws_rules)

lemma inode_throws [throws_rules]: "throws plain (inode x l)"
  unfolding inode_def by (intro throws_rules)

lemma extents_throws [throws_rules]: "throws plain (extents x l)"
  unfolding extents_def by (intro throws_rules)

lemma snapshot_flag_fails [throws_rules]: "fails plain (snapshot_flag d)"
  unfolding snapshot_flag_def by (intro throws_rules)

lemma is_snapshot_throws [throws_rules]: "throws plain (is_snapshot x tid)"
  unfolding is_snapshot_def by (intro throws_rules)

lemma decode_extent_fails [throws_rules]: "fails plain (decode_extent x s a n algo ram)"
  unfolding decode_extent_def decompress_def by (intro throws_rules)

lemma compressed_extent_throws [throws_rules]: "throws plain (compressed_extent x a n algo ram)"
  using decode_extent_fails [of x _ a n algo ram]
  by (auto simp: throws_def fails_def compressed_extent_def split: option.split sum.split)

lemma sources_fail [throws_rules]:
  "fails plain (inline_source b frm s at n)" "fails plain (disk_source base frm s at n)"
  "fails plain (plain_source b off frm s at n)" "fails plain (inline_plain x s e raw)"
  unfolding inline_source_def disk_source_def plain_source_def inline_plain_def decompress_inline_def
  by (intro throws_rules)+

lemma data_loop_throws:
  assumes "\<And>p. throws plain (sink p)" and "\<And>s at n. fails plain (read s at n)"
  shows "throws plain (data_loop sink read at to)"
proof (induction at rule: data_loop_step_induct [where to = to])
  case (1 at)
  then show ?case
    unfolding data_loop.simps [of sink read at to] from_source_def
    by (intro throws_rules assms) (simp_all add: Let_def)
qed

lemma emit_throws:
  "(\<And>p. throws plain (sink p)) \<Longrightarrow> (\<And>read s at n. dat = Some read \<Longrightarrow> fails plain (read s at n))
   \<Longrightarrow> throws plain (emit sink end' frm to pos dat)"
  unfolding emit_def
  by (cases dat) (simp_all only: option.case, (intro throws_rules data_loop_throws | simp)+)

lemma emit_extent_throws:
  "(\<And>p. throws plain (sink p)) \<Longrightarrow> throws plain (emit_extent x sink end' e pos)"
  unfolding emit_extent_def
  by (cases "ex_kind e")
    (simp_all only: extent_kind.case, (intro throws_rules emit_throws | (simp; fail) | (clarsimp, rule sources_fail))+)

lemma range_loop_throws:
  "(\<And>p. throws plain (sink p)) \<Longrightarrow> throws plain (range_loop x sink end' es pos)"
  by (induction es arbitrary: pos)
    (simp_all only: range_loop.simps, (intro throws_rules emit_extent_throws | simp)+)

lemma read_range_throws:
  "(\<And>p. throws plain (sink p)) \<Longrightarrow> throws plain (read_range x l start end' sink)"
  unfolding read_range_def by (intro throws_rules range_loop_throws emit_throws) simp_all

lemma read_to_vec_throws [throws_rules]: "throws plain (read_to_vec x l cap)"
proof -
  have "throws plain (vec_sink p)" for p by (simp add: throws_def fails_def vec_sink_def)
  from throwsD [OF read_range_throws, OF this] show ?thesis
    by (fastforce simp: throws_def fails_def read_to_vec_def split: prod.splits sum.splits)
qed

lemma target_throws [throws_rules]: "throws plain (read_symlink_target x l)"
  unfolding read_symlink_target_def by (intro throws_rules)

lemma entry_throws [throws_rules]: "throws plain (entry x dir e)"
  unfolding entry_def by (intro throws_rules)

lemma lookup_throws [throws_rules]: "throws plain (lookup x dir name)"
  unfolding lookup_def by (intro throws_rules)

lemma readdir_throws [throws_rules]: "throws plain (readdir x dir)"
  unfolding readdir_def by (intro throws_rules)

lemma check_dir_throws: "throws plain (check_dir x dir walked)"
  unfolding check_dir_def by (intro throws_rules)

text \<open>A path that is not found is said to be so by the loop over its names.\<close>

lemma plain_unresolved: "plain e \<Longrightarrow> unresolved e"
  by (simp add: plain_def unresolved_def)

lemma throws_unresolved: "throws plain m \<Longrightarrow> throws unresolved m"
  by (erule throws_mono) (rule plain_unresolved)

lemma resolve_loop_throws: "throws unresolved (resolve_loop x parts stack walked)"
proof (induction parts arbitrary: stack walked)
  case Nil
  then show ?case by (simp only: resolve_loop.simps throws_ret)
next
  case (Cons part parts)
  have "unresolved (PathNotFound w)" for w
    by (simp add: unresolved_def access_denied_def incomplete_def)
  with Cons show ?case
    unfolding resolve_loop.simps
    by (intro throws_rules throws_throw throws_unresolved [OF check_dir_throws]
        throws_unresolved [OF lookup_throws]) simp_all
qed

lemma resolve_throws: "throws unresolved (resolve x path)"
  unfolding resolve_def
  by (intro throws_rules resolve_loop_throws throws_unresolved [OF root_throws])

lemma default_subvol_throws [throws_rules]: "throws plain (default_subvol x)"
  unfolding default_subvol_def by (intro throws_rules)

lemma climb_throws: "throws plain (climb x tid r ino parts)"
proof (induction x tid r ino parts rule: climb.induct)
  case (1 x tid r ino parts)
  then show ?case
    by (subst climb.simps, unfold parent_ref_def) (intro throws_rules; simp)
qed

lemma path_in_tree_throws [throws_rules]: "throws plain (path_in_tree x tid ino)"
  unfolding path_in_tree_def by (intro throws_rules climb_throws)

lemma subvol_pass_throws: "throws plain (subvol_pass x backrefs pending paths out waiting)"
  by (induction pending arbitrary: paths out waiting)
    (simp_all only: subvol_pass.simps, (intro throws_rules | simp)+)

lemma subvol_passes_throws: "throws plain (subvol_passes x backrefs fuel pending paths out)"
proof (induction fuel arbitrary: pending paths out)
  case 0
  then show ?case by (subst subvol_passes.simps) (simp add: throws_ret)
next
  case (Suc fuel)
  then show ?case
    by (subst subvol_passes.simps, simp only: nat.case) (intro throws_rules subvol_pass_throws)
qed

lemma subvols_throws [throws_rules]: "throws plain (subvols x)"
  unfolding subvols_def root_items_def by (intro throws_rules subvol_passes_throws)

section \<open>The copier\<close>

lemma host_throws [throws_rules]: "throws plain (host w op)" "throws plain (call w op)"
  by (simp_all add: throws_def fails_def host_def call_def split_beta split: sum.split)

lemma tell_throws [throws_rules]:
  "throws E (tell f)" "throws E (warn v)" "throws E count_excluded" "throws E count_failure"
  unfolding warn_def count_excluded_def count_failure_def tell_def by (intro throws_rules)+

lemma manifest_throws [throws_rules]: "throws plain (manifest x w opts l src dest target)"
  unfolding manifest_def by (intro throws_rules)

lemma set_mtime_throws [throws_rules]: "throws plain (set_mtime x w l dest)"
  unfolding set_mtime_def by (intro throws_rules)

lemma seek_loop_throws: "throws plain (seek_loop w tmp left)"
proof (induction w tmp left rule: seek_loop.induct)
  case (1 w tmp left)
  then show ?case by (subst seek_loop.simps) (intro throws_rules; simp)
qed

lemma read_into_throws [throws_rules]: "throws plain (read_into x w l tmp)"
proof -
  have "throws plain (file_sink w tmp p)" for p
    by (cases p) (simp_all only: file_sink_def piece.case, (intro throws_rules seek_loop_throws)+)
  from throwsD [OF read_range_throws, OF this] show ?thesis
    by (fastforce simp: throws_def fails_def read_into_def split: prod.splits)
qed

lemma copy_leaf_throws [throws_rules]: "throws plain (copy_leaf x w opts l src dest)"
proof -
  have "throws plain (write_file x w l i tmp)" for i tmp
    unfolding write_file_def by (intro throws_rules)
  then have "throws plain (copy_file x w opts l i src dest)" for i
    unfolding copy_file_def
    by (intro throws_cases throws_rethrow throws_bind throws_throw throws_rules)
  then show ?thesis
    unfolding copy_leaf_def clear_dest_def copy_symlink_def symlink_def leads_to_dir_def by (intro throws_rules)
qed

lemma entries_loop_throws:
  "throws plain (entries_loop x w opts down dir src rel dest es taken)"
  by (induction es arbitrary: taken) (simp_all only: entries_loop.simps, (intro throws_rules | simp)+)

lemma copy_dir_throws [throws_rules]: "throws plain (copy_dir x w opts depth dir src rel dest)"
proof -
  have within: "throws plain (within dir m)" if "throws plain m" for m :: "(copier, unit) eff"
    using that by (simp add: throws_def fails_def within_def split_beta)
  show ?thesis
    by (subst copy_dir.simps, unfold copy_dir_inner_def) (intro throws_rules within entries_loop_throws)
qed

lemma copy_throws [throws_rules]: "throws plain (copy x w opts l src dest)"
  unfolding copy_def by (intro throws_rules)

section \<open>The commands\<close>

lemma describe_throws [throws_rules]: "throws plain (describe x l path subvol)"
  unfolding describe_def by (intro throws_rules)

text \<open>A command that works on a path ends with the error of resolving it, or with another one.\<close>

lemma after_resolve:
  assumes "sbind (resolve x path) f s = (Inl e, t)" and "\<And>l. throws plain (f l)"
  shows "plain e \<or> fst (resolve x path s) = Inl e"
proof (cases "resolve x path s")
  case (Pair r u)
  with assms throwsD [OF assms(2)] show ?thesis by (cases r) (auto simp: sbind_def)
qed

lemma info_plain: "fst (run_info x s) = Inl e \<Longrightarrow> plain e"
proof -
  have "throws plain (run_info x)" unfolding run_info_def by (intro throws_rules)
  then show "fst (run_info x s) = Inl e \<Longrightarrow> plain e" by (simp add: throws_def fails_def)
qed

lemma subvols_plain: "fst (run_subvols x s) = Inl e \<Longrightarrow> plain e"
proof -
  have "throws plain (run_subvols x)" unfolding run_subvols_def by (intro throws_rules)
  then show "fst (run_subvols x s) = Inl e \<Longrightarrow> plain e" by (simp add: throws_def fails_def)
qed

lemma ls_errors: "run_ls x path long s = (Inl e, t) \<Longrightarrow> plain e \<or> fst (resolve x path s) = Inl e"
  unfolding run_ls_def ls_entry_def by (erule after_resolve) (intro throws_rules)

lemma stat_errors: "run_stat x path s = (Inl e, t) \<Longrightarrow> plain e \<or> fst (resolve x path s) = Inl e"
  unfolding run_stat_def by (erule after_resolve) (intro throws_rules)

lemma print_zeros_throws: "throws plain (print_zeros sw n)"
proof (induction sw n rule: print_zeros.induct)
  case (1 sw n)
  have "throws plain (print sw d)" for d
    by (simp add: throws_def fails_def print_def split: option.split)
  with 1 show ?case by (subst print_zeros.simps) (intro throws_rules; simp)
qed

lemma cat_errors:
  assumes "run_cat x sw path off len (s, out) = (Inl e, t)"
  shows "plain e \<or> fst (resolve x path s) = Inl e"
proof -
  have "throws plain (print sw d)" for d
    by (simp add: throws_def fails_def print_def split: option.split)
  then have sink: "throws plain (cat_sink sw p)" for p
    by (cases p) (simp_all add: cat_sink_def print_zeros_throws)
  obtain r u where r: "resolve x path s = (r, u)" by (cases "resolve x path s")
  show ?thesis
  proof (cases r)
    case (Inl e')
    with assms r show ?thesis by (simp add: run_cat_def sbind_def on_fst_def)
  next
    case (Inr l)
    let ?rest = "sbind (on_fst (inode x l)) (\<lambda>i.
       if is_dir i then sthrow (App (IsADirectory path))
       else read_range x l off
         (case len of None \<Rightarrow> - 1 | Some n \<Rightarrow> saturating_add off n) (cat_sink sw))"
    have "throws plain ?rest" by (intro throws_rules read_range_throws sink)
    moreover have "?rest (u, out) = (Inl e, t)"
      using assms r Inr by (simp add: run_cat_def sbind_def on_fst_def)
    ultimately show ?thesis by (blast dest: throwsD)
  qed
qed

lemma find_throws: "throws plain (Cli.find x q depth dir path)"
proof -
  have entries: "throws plain (find_entries x q down p es)" for down p es
    by (induction es arbitrary: p)
      (simp_all only: find_entries.simps find_skip_def emit_path_def, (intro throws_rules | simp)+)
  have enter: "throws plain (enter dir path m)" if "throws plain m" for m
    using that by (simp add: throws_def fails_def enter_def)
  show ?thesis
    by (subst find.simps, unfold find_dir_def) (intro throws_rules enter entries)
qed

lemma find_errors:
  assumes "run_find x q path f = (Inl e, t)"
  shows "plain e \<or> fst (resolve x path (fd_fs f)) = Inl e"
proof -
  let ?bad = "case q_ty q of None \<Rightarrow> False | Some t \<Rightarrow> t \<notin> {CHR ''f'', CHR ''d'', CHR ''l''}"
  let ?rest = "\<lambda>l. sbind (Cli.find x q 0 l path) (\<lambda>_. sget fd_out)"
  show ?thesis
  proof (cases ?bad)
    case True
    with assms have "e = App BadTypeOption" by (simp add: run_find_def)
    then show ?thesis by simp
  next
    case False
    with assms have "sbind (on_fs (resolve x path)) ?rest f = (Inl e, t)"
      unfolding run_find_def by (simp only: if_False)
    then show ?thesis
      by (auto simp: sbind_def on_fs_def split: prod.splits sum.splits dest: throwsD [OF find_throws])
  qed
qed

lemma run_copy_errors:
  assumes "run_copy x w opts src dest c = (Inl e, t)"
  shows "plain e \<or> fst (resolve x src (cp_fs c)) = Inl e"
proof -
  show ?thesis using assms unfolding run_copy_def
    by (auto simp: sbind_def with_fs_def split: prod.splits sum.splits dest: throwsD [OF copy_throws])
qed

lemma globs_fail: "fails plain (check_globs e gs)"
  by (induction gs) (auto simp: fails_def split: sum.split)

lemma copy_with_errors:
  assumes "copy_with e src dest ex force one ns mf c = (Inl err, t)"
  shows "plain err \<or> fst (resolve (ev_ext e) src (cp_fs c)) = Inl err"
proof -
  have created: "throws plain (create_manifest w mf)" for w
    unfolding create_manifest_def by (intro throws_rules)
  have same: "cp_fs u = cp_fs c" if "create_manifest w mf c = (Inr v, u)" for u v w
    using that by (auto simp: create_manifest_def scontext_Inr_iff sbind_Inr_iff host_def
        split: option.splits prod.splits)
  let ?globs = "check_globs e ex"
  show ?thesis
  proof (cases ?globs)
    case (Inl g)
    with assms globs_fail [of e ex] show ?thesis by (simp add: copy_with_def fails_def)
  next
    case (Inr u)
    obtain r c1 where c1: "create_manifest (ev_world e) mf c = (r, c1)"
      by (cases "create_manifest (ev_world e) mf c")
    show ?thesis
    proof (cases r)
      case (Inl g)
      with assms c1 Inr created show ?thesis by (simp add: copy_with_def sbind_def) (metis throwsD)
    next
      case R: (Inr v)
      have fs: "cp_fs c1 = cp_fs c" using c1 R same by simp
      show ?thesis
      proof (cases "ev_glob_set e ex")
        case (Inl msg)
        with assms c1 Inr R fs show ?thesis
          by (auto simp: copy_with_def sbind_def with_fs_def split: prod.splits sum.splits)
      next
        case (Inr g)
        with assms c1 \<open>?globs = Inr u\<close> R fs show ?thesis
          by (auto simp: copy_with_def sbind_def dest: run_copy_errors)
      qed
    qed
  qed
qed

section \<open>Opening\<close>

definition open_errors :: "opener \<Rightarrow> string list \<Rightarrow> err \<Rightarrow> bool" where
  "open_errors dev_open paths e \<longleftrightarrow>
     plain e \<or> access_denied e \<and> \<not> not_found e \<and> \<not> incomplete e \<and> (\<exists>p \<in> set paths. denied dev_open p)"

lemma probe_errors:
  assumes "probe x windows dev_open p = Inl e"
  shows "open_errors dev_open (p # ps) e"
  using assms superblock_fails [of "crc32c x"]
  by (auto simp: probe_def open_errors_def open_error_def denied_def access_denied_def not_found_def
      incomplete_def with_context_def fails_def rbind_Inl_iff split: sum.splits if_splits)

lemma open_devices_errors:
  "open_devices x windows dev_open paths devs best = Inl e \<Longrightarrow> open_errors dev_open paths e"
proof (induction paths arbitrary: devs best)
  case (Cons p ps)
  show ?case
  proof (cases "probe x windows dev_open p")
    case (Inl e')
    with Cons.prems probe_errors show ?thesis by simp
  next
    case (Inr v)
    have "open_errors dev_open (p # ps) e" if "open_errors dev_open ps e"
      using that by (auto simp: open_errors_def)
    with Inr Cons show ?thesis
      by (cases v) (auto simp: open_errors_def split: if_splits)
  qed
qed simp

lemma sys_chunks_fails: "fails plain (sys_chunks arr off m)"
proof (induction arr off m rule: sys_chunks.induct)
  case (1 arr off m)
  show ?case by (subst sys_chunks.simps) (intro throws_rules, rule "1.IH", assumption+, simp_all)
qed

lemma fs_open_errors:
  assumes "fs_open x windows dev_open paths = Inl e"
  shows "open_errors dev_open paths e"
proof -
  have walks: "throws plain (walk x r mn mx chunk_items v)" for r mn mx v
    unfolding chunk_items_def by (intro throws_rules)
  have load: "plain e" if "load_chunks x s = Inl e" for s
    using that unfolding load_chunks_def
    by (auto simp: scontext_def with_context_def split: prod.splits sum.splits dest: throwsD [OF walks])
  have sys: "plain e" if "sys_chunks arr off m = Inl e" for arr off m
    using that sys_chunks_fails [of arr off m] by (simp add: fails_def)
  have "open_errors dev_open paths e" if "plain e"
    using that by (simp add: open_errors_def)
  with assms show ?thesis
    by (auto simp: fs_open_def rbind_Inl_iff Let_def
        dest: open_devices_errors load sys split: if_splits)
qed

end
