(* ===== verification/Cli_Facts.thy ===== *)
theory Cli_Facts
  imports Cli Copy_Host Fs_Names_Facts
begin

text \<open>
  What the commands promise: \<open>cat\<close> writes the bytes of the file, \<open>find\<close> lists paths below
  where it started and no deeper than asked, and \<open>cp\<close> does not pass off an incomplete copy.
\<close>

section \<open>cat\<close>

definition works :: stdout where
  "works out d = None"

lemma print_works: "print works d out = (Inr (), out @ d)"
  by (simp add: print_def works_def)

lemma print_zeros_works: "print_zeros works n out = (Inr (), out @ replicate (unat n) 0)"
proof (induction "unat n" arbitrary: n out rule: less_induct)
  case less
  show ?case
  proof (cases "0 < n")
    case False
    then show ?thesis by (simp add: word_gt_0 print_zeros.simps [of works 0])
  next
    case True
    note n = zeros_step [OF True]
    have "print_zeros works n out = print_zeros works (n - min n 65536) (out @ replicate (unat (min n 65536)) 0)"
      using True by (simp add: print_zeros.simps [of works n] Let_def sbind_def print_works)
    also have "\<dots> = (Inr (), (out @ replicate (unat (min n 65536)) 0)
        @ replicate (unat (n - min n 65536)) 0)"
      using n by (intro less) linarith
    also have "\<dots> = (Inr (), out @ replicate (unat n) 0)"
      using n(1) by (simp add: add.commute flip: replicate_add)
    finally show ?thesis .
  qed
qed

interpretation to_stdout: matched_sinks "\<lambda>v out. out = v" vec_sink "cat_sink works"
  by unfold_locales
    (auto simp: follows_def vec_sink_def cat_sink_def piece_bytes_def print_works print_zeros_works
      split: piece.split)

lemma cat_delivers:
  fixes len :: "u64 option" and off :: u64
  assumes "caches_ok x s" and path: "resolve x path s = (Inr l, s1)"
    and inum: "file_at x s l i es" "\<not> is_dir i"
    and es: "coherent es" "last_ok x (core s) es (fs_last_extent s1)"
      "\<forall>e \<in> set es. readable x (core s) disk e"
  defines "fin \<equiv> case len of None \<Rightarrow> - 1 | Some n \<Rightarrow> saturating_add off n"
  shows "\<exists>t. run_cat x works path off len (s, [])
    = (Inr (), (t, map (file_byte x (core s) disk es) [unat off ..< unat (min fin (i_size i))]))"
proof -
  have "alike x (core s) s s" using assms(1) by (simp add: alike_iff)
  with resolve_steady have "alike x (core s) (snd (resolve x path s)) (snd (resolve x path s))"
    by (simp add: steady_def)
  then have s1: "caches_ok x s1" "core s1 = core s" by (simp_all add: path alike_iff)
  let ?I = "view x (core s) (sound_roots x (core s) (last_ok x (core s) es))"
  have "?I s1" using s1 es(2) by (auto simp: caches_ok_def view_def sound_roots_def)
  from computesD [OF file_at_computes(1) [OF inum(1) refl] this]
  obtain s2 where s2: "inode x l s1 = (Inr i, s2)" "?I s2" by (metis prod.collapse)
  have "run_cat x works path off len (s, []) = read_range x l off fin (cat_sink works) (s2, [])"
    using path s2(1) inum(2) by (simp add: run_cat_def sbind_def fin_def on_fst_def)
  moreover obtain t where v: "read_range x l off fin vec_sink (s2, [])
      = (Inr (), (t, map (file_byte x (core s) disk es) [unat off ..< unat (min fin (i_size i))]))"
    using file_delivers [OF inum(1) refl es(1,3) s2(2), of off fin] by blast
  moreover have "with_same (\<lambda>v out. out = v) (s2, []) (s2, [])" by (simp add: with_same_def)
  from followsD [OF to_stdout.read_range_follows this v]
  have "read_range x l off fin (cat_sink works) (s2, [])
      = (Inr (), (t, map (file_byte x (core s) disk es) [unat off ..< unat (min fin (i_size i))]))"
    by (auto simp: with_same_def)
  ultimately show ?thesis by (intro exI [of _ t]) (simp only:)
qed

lemma demo_resolves_in:
  assumes "caches_ok sample_ext s" and "core s = demo"
  shows "\<exists>s1. resolve sample_ext ''/.//../a'' s = (Inr (Loc 5 257), s1)
     \<and> view sample_ext demo (sound_roots sample_ext demo (\<lambda>_. True)) s1"
proof -
  have "view sample_ext demo (sound_roots sample_ext demo (\<lambda>_. True)) s"
    using assms by (simp add: caches_ok_def view_def sound_roots_def)
  from computesD [OF demo_resolve_computes this] show ?thesis by (metis prod.collapse)
qed

lemma demo_file_facts:
  assumes "core s = demo"
  shows "file_at sample_ext s (Loc 5 257) (demo_inode 6 0x81A4) [demo_file]"
    and "coherent [demo_file]" and "last_ok sample_ext (core s) [demo_file] le"
    and "\<forall>e \<in> set [demo_file]. readable sample_ext (core s) demo_disk e"
    and "\<not> is_dir (demo_inode 6 0x81A4)"
  using demo_readable demo_file_at(1) items_core [of sample_ext s] core_simps(2) [of s]
  by (simp_all add: coherent_single last_ok_def assms demo_file_def file_at_def demo_inode_def is_dir_def)

section \<open>cp\<close>

lemma copy_any_moves: "moves (proceeds (\<lambda>_. True)) (copy x w opts l src dest)"
proof -
  have leaf: "moves (proceeds (\<lambda>_. True)) (copy_leaf x w opts l src d)" for d
    unfolding copy_leaf_def clear_dest_def copy_symlink_def copy_file_def Let_def
    by (intro cop.moves_rules with_fs_moves host_moves symlink_moves manifest_moves warn_moves
        tell_moves write_file_moves set_mtime_moves) (simp_all add: only_inside_def)
  have "moves (proceeds (\<lambda>_. True)) (copy_dir x w opts depth dir src rel d)" for depth dir src rel d
    by (rule proceeds_mono [OF _ copy_dir_moves]) simp
  with leaf show ?thesis
    unfolding copy_def Let_def by (intro cop.moves_rules with_fs_moves host_moves) simp_all
qed

definition empty_report :: "copier \<Rightarrow> bool" where
  "empty_report c \<longleftrightarrow> r_failures (cp_report c) = 0 \<and> r_warnings (cp_report c) = []"

lemma run_copy_report:
  assumes "run_copy x w opts src dest c = (res, c')" and "empty_report c"
  shows "r_failures (cp_report c')
    = word_of_nat (length (filter is_failure (r_warnings (cp_report c'))))"
    and "res = Inr r \<Longrightarrow> r = cp_report c'"
proof -
  have "moves (proceeds (\<lambda>_. True)) (run_copy x w opts src dest)"
    unfolding run_copy_def
    by (intro cop.moves_rules with_fs_moves copy_any_moves)
  then have "proceeds (\<lambda>_. True) c c'"
    using assms(1) by (simp add: moves_def) (metis snd_conv)
  then show "r_failures (cp_report c')
      = word_of_nat (length (filter is_failure (r_warnings (cp_report c'))))"
    using assms(2) by (auto simp: proceeds_def reports_def empty_report_def)
  show "res = Inr r \<Longrightarrow> r = cp_report c'"
    using assms(1) by (auto simp: run_copy_def sbind_Inr_iff)
qed

lemma no_failures_iff:
  assumes "run_copy x w opts src dest c = (Inr r, c')" and "empty_report c"
    and "length (r_warnings r) < 2 ^ 64"
  shows "r_failures r = 0 \<longleftrightarrow> list_all (\<lambda>v. \<not> is_failure v) (r_warnings r)"
proof -
  let ?n = "length (filter is_failure (r_warnings r))"
  have "?n < 2 ^ 64" using assms(3) length_filter_le [of is_failure "r_warnings r"] by linarith
  then have "unat (word_of_nat ?n :: u64) = ?n" by (rule unat_of_nat_u64)
  then have "(word_of_nat ?n :: u64) = 0 \<longleftrightarrow> ?n = 0" by (metis unat_eq_0)
  moreover have "r_failures r = word_of_nat ?n"
    using run_copy_report [OF assms(1,2)] by metis
  ultimately show ?thesis by (simp add: list_all_iff filter_empty_conv)
qed

text \<open>Copying one file reports nothing but the file; on the demonstration's host it succeeds.\<close>

definition same_report :: "copier \<Rightarrow> copier \<Rightarrow> bool" where
  "same_report s t \<longleftrightarrow> r_failures (cp_report t) = r_failures (cp_report s)
     \<and> r_warnings (cp_report t) = r_warnings (cp_report s)"

interpretation same_report: progress same_report
  by unfold_locales (simp_all add: same_report_def)

lemma same_report_steps:
  "moves same_report (host w op)" "moves same_report (with_fs m)"
  "moves same_report (read_into x w l tmp)"
  "(\<And>r. r_failures (f r) = r_failures r \<and> r_warnings (f r) = r_warnings r) \<Longrightarrow> moves same_report (tell f)"
  by (simp_all add: moves_def same_report_def host_def with_fs_def read_into_def tell_def
      split_beta)

lemma same_report_file:
  "moves same_report (sbind (clear_dest w opts dest) (\<lambda>_. copy_file x w opts l i src dest))"
  unfolding clear_dest_def copy_file_def manifest_def set_mtime_def write_file_def Let_def
  by (intro same_report.moves_rules same_report_steps) simp_all

lemma same_report_leaf:
  assumes "inode x l (cp_fs c) = (Inr i, s)" and "is_file i"
  shows "same_report c (snd (copy_leaf x w opts l src dest c))"
proof -
  have "\<not> is_symlink i" using assms(2) by (auto simp: is_file_def is_symlink_def)
  with assms have "copy_leaf x w opts l src dest c
      = sbind (clear_dest w opts dest) (\<lambda>_. copy_file x w opts l i src dest) (c\<lparr>cp_fs := s\<rparr>)"
    by (simp add: copy_leaf_def sbind_def with_fs_def)
  moreover have "same_report (c\<lparr>cp_fs := s\<rparr>) (snd (\<dots>))"
    using same_report_file by (simp add: moves_def)
  ultimately show ?thesis by (simp add: same_report_def)
qed

lemma demo_copies:
  assumes c: "cp_fs c = s" "view sample_ext demo (sound_roots sample_ext demo (\<lambda>_. True)) s"
  shows "\<exists>c'. copy_leaf sample_ext demo_world demo_options (Loc 5 257) src demo_dest c = (Inr (), c')"
proof -
  have s: "caches_ok sample_ext (cp_fs c)" "core (cp_fs c) = demo"
    using c by (auto simp: view_def sound_roots_def caches_ok_def)
  moreover have "file_at sample_ext (cp_fs c) (Loc 5 257) (demo_inode 6 0x81A4) [demo_file]"
    using demo_file_at(1) items_core [of sample_ext "cp_fs c"] core_simps(2) [of "cp_fs c"]
    by (simp add: file_at_def s(2))
  moreover have "is_file (demo_inode 6 0x81A4)" by (simp add: demo_inode_def is_file_def)
  moreover have "\<forall>ops op. is_ok (demo_world ops op) \<longleftrightarrow> op \<noteq> SymlinkMetadata demo_dest"
    by (simp add: demo_world_def)
  moreover have "\<forall>e \<in> set [demo_file]. readable sample_ext (core (cp_fs c)) demo_disk e"
    using demo_readable by (simp add: s(2) demo_fields)
  ultimately show ?thesis
    using copy_leaf_delivers [of sample_ext c "Loc 5 257" "demo_inode 6 0x81A4" "[demo_file]"
        demo_disk "''a''" demo_world "Path True [''out'']" demo_options src
        "\<lambda>_. None" "\<lambda>_. None"]
      safe_a coherent_single [of demo_file]
    unfolding demo_dest_def [symmetric] by (auto simp: last_ok_def demo_file_def)
qed

lemma demo_run_copy:
  assumes c: "caches_ok sample_ext (cp_fs c)" "core (cp_fs c) = demo" and r: "r_warnings (cp_report c) = []"
  shows "\<exists>r c'. run_copy sample_ext demo_world demo_options ''/.//../a'' demo_dest c = (Inr r, c')
     \<and> r_warnings r = []"
proof -
  let ?I = "view sample_ext demo (sound_roots sample_ext demo (\<lambda>_. True))"
  obtain s1 where s1: "resolve sample_ext ''/.//../a'' (cp_fs c) = (Inr (Loc 5 257), s1)" "?I s1"
    using demo_resolves_in [OF c] by blast
  from computesD [OF file_at_computes(1) [OF demo_file_at(1) demo_fields(9)] s1(2)] obtain s2 where
      s2: "inode sample_ext (Loc 5 257) s1 = (Inr (demo_inode 6 0x81A4), s2)" "?I s2"
    by (metis prod.collapse)
  let ?c = "c\<lparr>cp_fs := s2, cp_ops := cp_ops c @ [IsDir demo_dest]\<rparr>"
  obtain c' where c': "copy_leaf sample_ext demo_world demo_options (Loc 5 257) ''/.//../a''
      demo_dest ?c = (Inr (), c')"
    using demo_copies [of ?c s2] s2(2) by auto
  obtain s3 where "inode sample_ext (Loc 5 257) s2 = (Inr (demo_inode 6 0x81A4), s3)"
    using computesD [OF file_at_computes(1) [OF demo_file_at(1) demo_fields(9)] s2(2)]
    by (metis prod.collapse)
  moreover have "is_file (demo_inode 6 0x81A4)" by (simp add: demo_inode_def is_file_def)
  ultimately have "same_report ?c c'"
    using same_report_leaf [of sample_ext "Loc 5 257" ?c _ s3 demo_world demo_options "''/.//../a''" demo_dest] c'
    by simp
  then have "r_warnings (cp_report c') = []" by (simp add: same_report_def r)
  moreover note demo_file_facts(5) [OF c(2)]
  ultimately have "run_copy sample_ext demo_world demo_options ''/.//../a'' demo_dest c
      = (Inr (cp_report c'), c') \<and> r_warnings (cp_report c') = []"
    using s1(1) s2(1) c'
    by (simp add: run_copy_def copy_def sbind_def with_fs_def stry_def host_def call_def
        demo_world_def Let_def)
  then show ?thesis by blast
qed

section \<open>find\<close>

text \<open>What a search may do: add paths that \<open>P\<close> holds of, and stream just these.\<close>

definition lists :: "find_query \<Rightarrow> (string \<Rightarrow> bool) \<Rightarrow> finder \<Rightarrow> finder \<Rightarrow> bool" where
  "lists q P s t \<longleftrightarrow>
     (\<exists>new. fd_out t = fd_out s @ new \<and> list_all P new
        \<and> fd_stdout t = fd_stdout s @ (if q_stream q then new else []))"

lemma lists_trans:
  assumes "lists q P s t" and "lists q P t u"
  shows "lists q P s u"
proof -
  obtain a b where "fd_out t = fd_out s @ a" "list_all P a"
      "fd_stdout t = fd_stdout s @ (if q_stream q then a else [])"
      "fd_out u = fd_out t @ b" "list_all P b"
      "fd_stdout u = fd_stdout t @ (if q_stream q then b else [])"
    using assms by (auto simp: lists_def)
  then show ?thesis unfolding lists_def by (intro exI [of _ "a @ b"]) simp
qed

interpretation lists: progress "lists q P" for q P
  by unfold_locales (auto simp: lists_def intro: lists_trans)

lemma lists_mono: "(\<And>p. P p \<Longrightarrow> Q p) \<Longrightarrow> moves (lists q P) m \<Longrightarrow> moves (lists q Q) m"
  unfolding moves_def lists_def by (metis list.pred_mono_strong)

lemma lists_on_fs: "moves (lists q P) (on_fs m)"
  by (simp add: moves_def on_fs_def lists_def split_beta)

lemma lists_emit: "P child \<Longrightarrow> moves (lists q P) (emit_path q child)"
  by (simp add: moves_def emit_path_def lists_def)

lemma lists_skip: "moves (lists q P) (find_skip x q e)"
  unfolding find_skip_def by (intro lists.moves_rules lists_on_fs)

text \<open>\<open>p\<close> is \<open>path\<close> with between one and \<open>n\<close> names joined to it.\<close>

definition below :: "string \<Rightarrow> nat \<Rightarrow> string \<Rightarrow> bool" where
  "below path n p \<longleftrightarrow> (\<exists>ns. ns \<noteq> [] \<and> length ns \<le> n \<and> p = foldl join path ns)"

lemma below_child: "0 < n \<Longrightarrow> below path n (join path name)"
  unfolding below_def by (intro exI [of _ "[name]"]) simp

lemma below_down: "below (join path name) n p \<Longrightarrow> below path (Suc n) p"
  unfolding below_def by (metis Suc_le_mono foldl_Cons length_Cons list.discI)

lemma lists_entries:
  assumes "\<And>l c. moves (lists q (below c n)) (down l c)"
  shows "moves (lists q (below path (Suc n))) (find_entries x q down path es)"
proof (induction es)
  case Nil
  then show ?case by (simp only: find_entries.simps lists.moves_ret)
next
  case (Cons e es)
  have "moves (lists q (below path (Suc n))) (down l (join path name))" for l name
    by (rule lists_mono [OF below_down assms])
  then show ?case
    unfolding find_entries.simps Let_def
    by (intro lists.moves_rules lists.moves_modify lists_emit lists_skip below_child Cons)
      (simp_all add: lists_def)
qed

lemma lists_dir:
  assumes "\<And>l c. moves (lists q (below c n)) (down l c)"
  shows "moves (lists q (below path (Suc n))) (enter dir path (find_dir x q down dir path))"
proof -
  have m: "moves (lists q (below path (Suc n))) (find_dir x q down dir path)"
    unfolding find_dir_def
    by (intro lists.moves_rules lists.moves_modify lists_on_fs lists_entries assms)
      (simp add: lists_def)
  show ?thesis
    unfolding moves_def
  proof
    fix s
    have "lists q (below path (Suc n)) (s\<lparr>fd_seen := dir # fd_seen s\<rparr>)
        (snd (find_dir x q down dir path (s\<lparr>fd_seen := dir # fd_seen s\<rparr>)))"
      using m by (simp add: moves_def)
    then show "lists q (below path (Suc n)) s (snd (enter dir path (find_dir x q down dir path) s))"
      by (simp add: enter_def lists.refl) (simp add: lists_def)
  qed
qed

definition depth_left :: "find_query \<Rightarrow> nat \<Rightarrow> nat" where
  "depth_left q depth =
     (case q_max_depth q of None \<Rightarrow> MAX_FIND_DEPTH | Some m \<Rightarrow> min m MAX_FIND_DEPTH) - depth"

lemma find_moves: "moves (lists q (below path (depth_left q depth))) (find x q depth dir path)"
proof (induction x q depth dir path rule: find.induct)
  case (1 x q depth dir path)
  let ?stop = "(case q_max_depth q of None \<Rightarrow> False | Some m \<Rightarrow> m \<le> depth) \<or> MAX_FIND_DEPTH \<le> depth"
  show ?case
  proof (cases ?stop)
    case True
    then show ?thesis by (simp only: find.simps [of x q depth] if_True lists.moves_ret)
  next
    case False
    then have "depth_left q depth = Suc (depth_left q (depth + 1))"
      by (auto simp: depth_left_def split: option.splits)
    with "1.IH" [OF False] show ?thesis
      unfolding find.simps [of x q depth dir] using False
      by (simp only: if_False) (rule lists_dir)
  qed
qed


end
