(* ===== verification/Triples.thy ===== *)
theory Triples
  imports Sinks
begin

text \<open>
  Triples for effects: from a state that satisfies the precondition an effect ends in one that
  satisfies the first postcondition with its result, or, when it fails, the second.
\<close>

definition triple ::
  "('s \<Rightarrow> bool) \<Rightarrow> ('s, 'a) eff \<Rightarrow> ('a \<Rightarrow> 's \<Rightarrow> bool) \<Rightarrow> ('s \<Rightarrow> bool) \<Rightarrow> bool" where
  "triple P m Q E \<longleftrightarrow> (\<forall>s. P s \<longrightarrow> (case m s of (Inr v, t) \<Rightarrow> Q v t | (Inl e, t) \<Rightarrow> E t))"

lemma tripleD: "triple P m Q E \<Longrightarrow> P s \<Longrightarrow> m s = (Inr v, t) \<Longrightarrow> Q v t"
  and tripleE: "triple P m Q E \<Longrightarrow> P s \<Longrightarrow> m s = (Inl e, t) \<Longrightarrow> E t"
  by (fastforce simp: triple_def)+

lemma triple_ret: "(\<And>s. P s \<Longrightarrow> Q v s) \<Longrightarrow> triple P (sret v) Q E"
  by (simp add: triple_def)

lemma triple_throw: "(\<And>s. P s \<Longrightarrow> E s) \<Longrightarrow> triple P (sthrow e) Q E"
  by (simp add: triple_def)

lemma triple_lift:
  "(\<And>s v. P s \<Longrightarrow> r = Inr v \<Longrightarrow> Q v s) \<Longrightarrow> (\<And>s. P s \<Longrightarrow> E s) \<Longrightarrow> triple P (slift r) Q E"
  by (auto simp: triple_def split: sum.splits)

lemma triple_get: "(\<And>s. P s \<Longrightarrow> Q (f s) s) \<Longrightarrow> triple P (sget f) Q E"
  by (simp add: triple_def)

lemma triple_modify: "(\<And>s. P s \<Longrightarrow> Q () (f s)) \<Longrightarrow> triple P (smodify f) Q E"
  by (simp add: triple_def)

lemma triple_bind:
  assumes "triple P m Q E" and "\<And>v. triple (Q v) (f v) R E"
  shows "triple P (sbind m f) R E"
  unfolding triple_def
proof (intro allI impI)
  fix s assume P: "P s"
  obtain r t where m: "m s = (r, t)" by (cases "m s")
  show "case sbind m f s of (Inr v, t) \<Rightarrow> R v t | (Inl e, t) \<Rightarrow> E t"
  proof (cases r)
    case (Inl e)
    with m tripleE [OF assms(1) P] show ?thesis by (simp add: sbind_def)
  next
    case (Inr v)
    with m tripleD [OF assms(1) P] have "Q v t" by simp
    with assms(2) [of v] m Inr show ?thesis by (simp add: sbind_def triple_def)
  qed
qed

lemma triple_try:
  assumes "triple P m (\<lambda>v. Q (Inr v)) E" and "\<And>s e. E s \<Longrightarrow> Q (Inl e) s"
  shows "triple P (stry m) Q F"
  using assms unfolding triple_def
  by (fastforce simp: stry_def split: prod.splits sum.splits)

lemma triple_context: "triple P m Q E \<Longrightarrow> triple P (scontext c m) Q E"
  by (auto simp: triple_def scontext_def with_context_def split_beta split: sum.splits)

lemma triple_if:
  "(b \<Longrightarrow> triple P m Q E) \<Longrightarrow> (\<not> b \<Longrightarrow> triple P n Q E) \<Longrightarrow> triple P (if b then m else n) Q E"
  by simp

lemma triple_weaken:
  assumes "triple P m Q E" and "\<And>s. P' s \<Longrightarrow> P s" and "\<And>v s. Q v s \<Longrightarrow> Q' v s" and "\<And>s. E s \<Longrightarrow> E' s"
  shows "triple P' m Q' E'"
  using assms unfolding triple_def by (fastforce split: prod.splits sum.splits)

text \<open>What an operation moves along is an invariant of it.\<close>

lemma triple_moves:
  assumes "moves R m" and "\<And>s t. P s \<Longrightarrow> R s t \<Longrightarrow> Q t"
  shows "triple P m (\<lambda>_. Q) Q"
  using assms unfolding triple_def moves_def
  by (metis (mono_tags, lifting) case_prod_beta old.sum.simps(5,6) sum.exhaust)

lemma triple_result:
  assumes "triple P m Q E" and "\<And>s v t. m s = (Inr v, t) \<Longrightarrow> R v"
  shows "triple P m (\<lambda>v s. R v \<and> Q v s) E"
  using assms unfolding triple_def by (fastforce split: prod.splits sum.splits)

text \<open>A precondition on the result alone comes out in front.\<close>

lemma triple_known: "(R \<Longrightarrow> triple P m Q E) \<Longrightarrow> triple (\<lambda>s. R \<and> P s) m Q E"
  by (auto simp: triple_def)

end
