(* ===== verification/Install_Facts.thy ===== *)
theory Install_Facts
  imports Install Triples
begin

text \<open>
  What installing and connecting promise: waits end when they say, a client speaks to the
  installed service or to nobody, and an installation leaves a whole service or none.
\<close>

section \<open>Time only passes\<close>

definition onward :: "win \<Rightarrow> win \<Rightarrow> bool" where
  "onward s t \<longleftrightarrow> wn_now s \<le> wn_now t"

interpretation onward: progress onward
  by unfold_locales (simp_all add: onward_def)

lemma onward_ask: "moves onward (invoke y c)"
  by (simp add: moves_def invoke_def onward_def)

lemma onward_sleep: "moves onward (sleep n)"
  by (simp add: moves_def sleep_def onward_def)

text \<open>With the deadline within reach, more fuel makes no difference.\<close>

lemma wait_loop_fuel:
  assumes "\<And>v. moves onward (is_done v)" and "deadline \<le> wn_now s + 100 * n"
  shows "wait_loop (n + k) deadline is_done v s = wait_loop n deadline is_done v s"
  using assms(2)
proof (induction n arbitrary: v s)
  case 0
  obtain r t where m: "is_done v s = (r, t)" by (cases "is_done v s")
  with assms(1) [of v] 0 have "deadline \<le> wn_now t"
    by (auto simp: moves_def onward_def dest: spec [of _ s])
  with m show ?case
    by (auto simp: wait_loop.simps [of k] wait_loop.simps [of 0] sbind_def split: sum.splits)
next
  case (Suc n)
  obtain r t where m: "is_done v s = (r, t)" by (cases "is_done v s")
  with assms(1) [of v] Suc.prems have "deadline \<le> wn_now (t\<lparr>wn_now := wn_now t + 100\<rparr>) + 100 * n"
    by (auto simp: moves_def onward_def dest: spec [of _ s])
  from Suc.IH [OF this] m show ?case
    by (auto simp: wait_loop.simps [of "Suc (n + k)"] wait_loop.simps [of "Suc n"] sbind_def sleep_def
        split: sum.splits)
qed

lemma wait_loop_False:
  assumes "\<And>v. moves onward (is_done v)" and "deadline \<le> wn_now s + 100 * n"
    and "wait_loop n deadline is_done v s = (Inr (False, w), t)"
  shows "deadline \<le> wn_now t"
  using assms(2,3)
proof (induction n arbitrary: v s)
  case 0
  obtain r u where m: "is_done v s = (r, u)" by (cases "is_done v s")
  with assms(1) [of v] 0 have "deadline \<le> wn_now u"
    by (auto simp: moves_def onward_def dest: spec [of _ s])
  with m 0 show ?case
    by (auto simp: wait_loop.simps [of 0] sbind_def split: sum.splits if_splits)
next
  case (Suc n)
  obtain r u where m: "is_done v s = (r, u)" by (cases "is_done v s")
  with assms(1) [of v] Suc.prems have "deadline \<le> wn_now (u\<lparr>wn_now := wn_now u + 100\<rparr>) + 100 * n"
    by (auto simp: moves_def onward_def dest: spec [of _ s])
  from Suc.IH [OF this] Suc.prems(2) m show ?case
    by (auto simp: wait_loop.simps [of "Suc n"] sbind_def sleep_def split: sum.splits if_splits)
qed

lemma retry_loop_fuel:
  assumes "moves onward f" and "deadline \<le> wn_now s + 200 * n"
  shows "retry_loop (n + k) deadline f s = retry_loop n deadline f s"
  using assms(2)
proof (induction n arbitrary: s)
  case 0
  obtain r t where m: "f s = (r, t)" by (cases "f s")
  with assms(1) 0 have "deadline \<le> wn_now t"
    by (auto simp: moves_def onward_def dest: spec [of _ s])
  with m show ?case
    by (auto simp: retry_loop.simps [of k] retry_loop.simps [of 0] sbind_def stry_def split: sum.splits)
next
  case (Suc n)
  obtain r t where m: "f s = (r, t)" by (cases "f s")
  with assms(1) Suc.prems have "deadline \<le> wn_now (t\<lparr>wn_now := wn_now t + 200\<rparr>) + 200 * n"
    by (auto simp: moves_def onward_def dest: spec [of _ s])
  from Suc.IH [OF this] m show ?case
    by (auto simp: retry_loop.simps [of "Suc (n + k)"] retry_loop.simps [of "Suc n"] sbind_def stry_def
        sleep_def split: sum.splits)
qed

lemma busy_loop_fuel:
  assumes "deadline \<le> wn_now s + 10 * n"
  shows "busy_loop (n + k) y deadline name s = busy_loop n y deadline name s"
  using assms
proof (induction n arbitrary: s)
  case 0
  then show ?case
    by (auto simp: busy_loop.simps [of k] busy_loop.simps [of 0] sbind_def invoke_def split: option.splits)
next
  case (Suc n)
  then show ?case
    by (auto simp: busy_loop.simps [of "Suc (n + k)"] busy_loop.simps [of "Suc n"] sbind_def invoke_def
        sleep_def split: option.splits)
qed

section \<open>Whom a client talks to\<close>

lemma busy_loop_Some:
  assumes "busy_loop n y deadline name s = (Inr (Some p), t)"
  shows "\<exists>h. wn_calls t = h @ [OpenPipe name] \<and> mc_code y h (OpenPipe name) = None \<and> p = mc_pipe y h"
  using assms
proof (induction n arbitrary: s)
  case 0
  then show ?case
    by (auto simp: busy_loop.simps [of 0] sbind_def invoke_def sthrow_def split: option.splits if_splits)
next
  case (Suc n)
  show ?case
  proof (cases "mc_code y (wn_calls s) (OpenPipe name)")
    case None
    with Suc.prems show ?thesis
      by (auto simp: busy_loop.simps [of "Suc n"] sbind_def invoke_def)
  next
    case (Some e)
    with Suc.prems Suc.IH show ?thesis
      by (auto simp: busy_loop.simps [of "Suc n"] sbind_def invoke_def sthrow_def sleep_def split: if_splits)
  qed
qed

text \<open>The service manager says that the service runs as the process \<open>pid\<close>.\<close>

definition service_runs_as :: "machine \<Rightarrow> call list \<Rightarrow> nat \<Rightarrow> bool" where
  "service_runs_as y h pid \<longleftrightarrow>
     mc_code y h (OpenManager False) = None
     \<and> mc_code y (h @ [OpenManager False]) OpenService = None
     \<and> mc_code y (h @ [OpenManager False, OpenService]) QueryStatus = None
     \<and> mc_status y (h @ [OpenManager False, OpenService, QueryStatus]) = (SERVICE_RUNNING, pid)"

lemma service_pid_Some:
  assumes "service_pid y s = (Inr (Some pid), t)"
  shows "service_runs_as y (wn_calls s) pid"
    and "wn_calls t = wn_calls s @ [OpenManager False, OpenService, QueryStatus]"
  using assms
  by (auto simp: service_pid_def query_def sbind_def invoke_def sthrow_def service_runs_as_def
      split: option.splits prod.splits if_splits)

text \<open>
  C33: A client never talks to an impostor: the pipe it is given when it asks for verification is
  one whose server process, invoked for after the pipe was opened, is the process the service manager
  then names as the running service.
\<close>

theorem connect_trusts_service:
  assumes "connect_to y name True s = (Inr (Some p), t)"
  shows "\<exists>h. mc_code y h (OpenPipe name) = None \<and> p = mc_pipe y h
    \<and> mc_code y (h @ [OpenPipe name]) ServerPid = None
    \<and> service_runs_as y (h @ [OpenPipe name, ServerPid]) (mc_server_pid y (h @ [OpenPipe name, ServerPid]))
    \<and> wn_calls t = h @ [OpenPipe name, ServerPid, OpenManager False, OpenService, QueryStatus]"
proof -
  obtain r u where loop: "busy_loop 500 y (wn_now s + 5000) name s = (r, u)"
    by (cases "busy_loop 500 y (wn_now s + 5000) name s")
  with assms have r: "r = Inr (Some p)"
    by (auto simp: connect_to_def sbind_def sthrow_def invoke_def
        split: sum.splits option.splits if_splits prod.splits)
  from busy_loop_Some [OF loop [unfolded r]] obtain h where
    h: "wn_calls u = h @ [OpenPipe name]" "mc_code y h (OpenPipe name) = None" "p = mc_pipe y h" by blast
  let ?u = "u\<lparr>wn_calls := wn_calls u @ [ServerPid], wn_now := wn_now u + mc_time y (wn_calls u)\<rparr>"
  obtain q v where q: "service_pid y ?u = (q, v)" by (cases "service_pid y ?u")
  have "mc_code y (wn_calls u) ServerPid = None" and "q = Inr (Some (mc_server_pid y (wn_calls ?u)))"
    and "t = v"
    using assms loop r q
    by (auto simp: connect_to_def sbind_def sthrow_def invoke_def stry_def
        split: sum.splits option.splits if_splits)
  with service_pid_Some [of y ?u _ v] q h show ?thesis by auto
qed

text \<open>A system where every call succeeds and the service, process 77, owns the pipe.\<close>

definition demo_machine :: machine where
  "demo_machine =
     \<lparr>mc_code = (\<lambda>_ _. None), mc_time = (\<lambda>_. 1),
      mc_status = (\<lambda>_. (SERVICE_RUNNING, 77)), mc_error = (\<lambda>_. IoError IoOther ''os error''),
      mc_user_sid = Inr ''S-1-5-21'', mc_exe = Inr ''peek.exe'', mc_program_files = None,
      mc_same_file = (\<lambda>_ _ _. False), mc_exists = (\<lambda>_ _. False), mc_server_pid = (\<lambda>_. 77),
      mc_pipe = (\<lambda>_. (clear, [Byte 0])), mc_status_file = (\<lambda>_. None)\<rparr>"

definition demo_win :: win where
  "demo_win = \<lparr>wn_calls = [], wn_now = 0, wn_out = [], wn_err = []\<rparr>"

theorem connect_trusts_service_witness:
  "\<exists>t h. connect_to demo_machine PIPE True demo_win = (Inr (Some (clear, [Byte 0])), t)
     \<and> service_runs_as demo_machine (h @ [OpenPipe PIPE, ServerPid]) 77
     \<and> wn_calls t = h @ [OpenPipe PIPE, ServerPid, OpenManager False, OpenService, QueryStatus]"
proof -
  have "busy_loop 500 demo_machine 5000 PIPE demo_win =
      (Inr (Some (clear, [Byte 0])), demo_win\<lparr>wn_calls := [OpenPipe PIPE], wn_now := 1\<rparr>)"
    by (subst busy_loop.simps) (simp add: sbind_def invoke_def demo_machine_def demo_win_def)
  then obtain t where run: "connect_to demo_machine PIPE True demo_win = (Inr (Some (clear, [Byte 0])), t)"
    by (auto simp: connect_to_def service_pid_def query_def sbind_def invoke_def stry_def demo_machine_def demo_win_def)
  have "mc_server_pid demo_machine h = 77" for h by (simp add: demo_machine_def)
  with run connect_trusts_service [OF run] show ?thesis by auto
qed

section \<open>What an installation leaves\<close>

text \<open>The service as the service manager keeps it, after the calls that succeeded.\<close>

record service_entry =
  en_command :: string
  en_description :: "string option"
  en_privileges :: "string option"
  en_failure_actions :: "nat list option"
  en_on_errors :: bool
  en_started :: bool

definition new_entry :: "string \<Rightarrow> service_entry" where
  "new_entry b =
     \<lparr>en_command = b, en_description = None, en_privileges = None, en_failure_actions = None,
      en_on_errors = False, en_started = False\<rparr>"

fun call_effect :: "call \<Rightarrow> service_entry option \<Rightarrow> service_entry option" where
  "call_effect (CreateService b) v = Some (new_entry b)"
| "call_effect DeleteService v = None"
| "call_effect ControlStop v = map_option (\<lambda>e. e\<lparr>en_started := False\<rparr>) v"
| "call_effect (Describe d) v = map_option (\<lambda>e. e\<lparr>en_description := Some d\<rparr>) v"
| "call_effect (LimitPrivileges p) v = map_option (\<lambda>e. e\<lparr>en_privileges := Some p\<rparr>) v"
| "call_effect (FailureActions a) v = map_option (\<lambda>e. e\<lparr>en_failure_actions := Some a\<rparr>) v"
| "call_effect FailureFlag v = map_option (\<lambda>e. e\<lparr>en_on_errors := True\<rparr>) v"
| "call_effect StartService v = map_option (\<lambda>e. e\<lparr>en_started := True\<rparr>) v"
| "call_effect c v = v"

fun replay :: "machine \<Rightarrow> call list \<Rightarrow> call list \<Rightarrow> service_entry option \<Rightarrow> service_entry option" where
  "replay y before [] v = v"
| "replay y before (c # cs) v =
     replay y (before @ [c]) cs (if mc_code y before c = None then call_effect c v else v)"

definition service_after :: "machine \<Rightarrow> service_entry option \<Rightarrow> call list \<Rightarrow> service_entry option" where
  "service_after y v cs = replay y [] cs v"

lemma replay_snoc:
  "replay y before (cs @ [c]) v =
     (if mc_code y (before @ cs) c = None then call_effect c (replay y before cs v) else replay y before cs v)"
  by (induction cs arbitrary: before v) auto

lemma service_after_snoc [simp]:
  "service_after y v (cs @ [c]) =
     (if mc_code y cs c = None then call_effect c (service_after y v cs) else service_after y v cs)"
  by (simp add: service_after_def replay_snoc)

text \<open>The service an installation is after.\<close>

definition whole :: "string \<Rightarrow> string \<Rightarrow> bool \<Rightarrow> service_entry" where
  "whole exe sid started =
     \<lparr>en_command = command_line exe sid, en_description = Some (description_of sid),
      en_privileges = Some PRIVILEGES, en_failure_actions = Some [2000, 10000, 60000],
      en_on_errors = True, en_started = started\<rparr>"

text \<open>Calls that leave the service alone.\<close>

definition leaves :: "machine \<Rightarrow> service_entry option \<Rightarrow> win \<Rightarrow> win \<Rightarrow> bool" where
  "leaves y v s t \<longleftrightarrow> service_after y v (wn_calls t) = service_after y v (wn_calls s)"

interpretation leaves: progress "leaves y v" for y v
  by unfold_locales (simp_all add: leaves_def)

lemma leaves_ask: "(\<And>v. call_effect c v = v) \<Longrightarrow> moves (leaves y v) (invoke y c)"
  by (simp add: moves_def invoke_def leaves_def)

lemma leaves_silent:
  "moves (leaves y v) (sleep n)" "moves (leaves y v) (println l)" "moves (leaves y v) (talk m c)"
  by (simp_all add: moves_def sleep_def println_def talk_def leaves_def)

lemma leaves_wait_loop: "(\<And>w. moves (leaves y v) (f w)) \<Longrightarrow> moves (leaves y v) (wait_loop n dl f w)"
proof (induction n arbitrary: w)
  case 0
  then show ?case
    unfolding wait_loop.simps [of 0] nat.case by (intro leaves.moves_rules)
next
  case (Suc n)
  show ?case
    unfolding wait_loop.simps [of "Suc n"] nat.case
    by (intro leaves.moves_rules leaves_silent Suc.IH Suc.prems)
qed

lemma leaves_wait_for: "moves (leaves y v) f \<Longrightarrow> moves (leaves y v) (wait_for n f)"
  unfolding wait_for_def wait_until_def by (intro leaves.moves_rules leaves_wait_loop)

lemma leaves_retry_loop: "moves (leaves y v) f \<Longrightarrow> moves (leaves y v) (retry_loop n dl f)"
proof (induction n)
  case 0
  then show ?case
    unfolding retry_loop.simps [of 0] nat.case by (intro leaves.moves_rules)
next
  case (Suc n)
  then show ?case
    unfolding retry_loop.simps [of "Suc n"] nat.case
    by (intro leaves.moves_rules leaves_silent)
qed

lemma leaves_busy_loop: "moves (leaves y v) (busy_loop n y dl name)"
proof (induction n)
  case 0
  then show ?case
    unfolding busy_loop.simps [of 0] nat.case by (intro leaves.moves_rules leaves_ask) simp
next
  case (Suc n)
  then show ?case
    unfolding busy_loop.simps [of "Suc n"] nat.case
    by (intro leaves.moves_rules leaves_silent leaves_ask) simp_all
qed

lemma leaves_query: "moves (leaves y v) (query y)"
  unfolding query_def by (intro leaves.moves_rules leaves_ask) simp

lemma leaves_connect: "moves (leaves y v) (connect_to y name b)"
  unfolding connect_to_def service_pid_def
  by (intro leaves.moves_rules leaves_busy_loop leaves_query leaves_ask) simp_all

lemma leaves_answers: "moves (leaves y v) (answers y e)"
  unfolding answers_def probe_service_def
  by (intro leaves.moves_rules leaves_connect leaves_silent)

lemma leaves_copy_exe: "moves (leaves y v) (copy_exe y)"
  unfolding copy_exe_def must_def retry_def
  by (intro leaves.moves_rules leaves_retry_loop leaves_ask) simp_all

definition invoked :: "machine \<Rightarrow> call \<Rightarrow> win \<Rightarrow> win" where
  "invoked y c s = s\<lparr>wn_calls := wn_calls s @ [c], wn_now := wn_now s + mc_time y (wn_calls s)\<rparr>"

lemma invoked_calls [simp]: "wn_calls (invoked y c s) = wn_calls s @ [c]"
  by (simp add: invoked_def)

lemma triple_ask:
  "(\<And>s. P s \<Longrightarrow> Q (mc_code y (wn_calls s) c) (invoked y c s)) \<Longrightarrow> triple P (invoke y c) Q E"
  by (simp add: triple_def invoke_def invoked_def)

lemma triple_must:
  assumes "\<And>s. P s \<Longrightarrow> mc_code y (wn_calls s) c = None \<Longrightarrow> Q (invoked y c s)"
    and "\<And>s e. P s \<Longrightarrow> mc_code y (wn_calls s) c = Some e \<Longrightarrow> E (invoked y c s)"
  shows "triple P (must y msg c) (\<lambda>_. Q) E"
  using assms
  by (auto simp: triple_def must_def invoke_def invoked_def sbind_def sthrow_def split: option.splits)

definition at_rest :: "service_entry option \<Rightarrow> service_entry option \<Rightarrow> bool" where
  "at_rest x w \<longleftrightarrow> w = x \<or> w = None \<or> w = map_option (\<lambda>e. e\<lparr>en_started := False\<rparr>) x"

abbreviation (input) rests :: "machine \<Rightarrow> service_entry option \<Rightarrow> service_entry option \<Rightarrow> win \<Rightarrow> bool" where
  "rests y v x s \<equiv> at_rest x (service_after y v (wn_calls s))"

lemma triple_leaves:
  assumes "moves (leaves y v) m"
  shows "triple (\<lambda>s. P (service_after y v (wn_calls s))) m (\<lambda>_ s. P (service_after y v (wn_calls s)))
    (\<lambda>s. P (service_after y v (wn_calls s)))"
  by (rule triple_moves [OF assms]) (simp add: leaves_def)

lemma at_rest_effect:
  "at_rest x w \<Longrightarrow> at_rest x (call_effect ControlStop w)" "at_rest x w \<Longrightarrow> at_rest x (call_effect DeleteService w)"
  by (auto simp: at_rest_def option.map_comp comp_def)

lemma triple_remove: "triple (rests y v x) (remove_service y) (\<lambda>_. rests y v x) (rests y v x)"
proof -
  have ask: "triple (rests y v x) (invoke y c) (\<lambda>_. rests y v x) (rests y v x)"
    if "\<And>w. at_rest x w \<Longrightarrow> at_rest x (call_effect c w)" for c
    by (rule triple_ask) (simp add: that)
  note asks = ask [of OpenService] ask [of ControlStop] ask [of DeleteService] ask [of CloseService]
  have wait: "triple (rests y v x) (wait_for n f) (\<lambda>_. rests y v x) (rests y v x)"
    if "moves (leaves y v) f" for n f
    by (rule triple_leaves [OF leaves_wait_for [OF that]])
  have stopped: "moves (leaves y v) (sbind (stry (query y)) (\<lambda>q. sret (g q)))" for g
    by (intro leaves.moves_rules leaves_query)
  have gone: "moves (leaves y v) (sbind (invoke y OpenService) (\<lambda>r. sret (g r)))" for g
    by (intro leaves.moves_rules leaves_ask) simp
  show ?thesis
    unfolding remove_service_def bail_def
    by (rule triple_bind, rule asks, simp)
      (auto simp only: at_rest_effect at_rest_effect [simplified] call_effect.simps split: option.split
        intro!: triple_bind [OF asks(2)] triple_bind [OF asks(3)] triple_bind [OF asks(4)]
          triple_bind [OF wait [OF stopped]] triple_bind [OF wait [OF gone]] triple_if
          triple_ret triple_throw)
qed

text \<open>Configuring puts the new entry in order, or the entry is deleted again.\<close>

definition undeleted :: "machine \<Rightarrow> call list \<Rightarrow> bool" where
  "undeleted y cs \<longleftrightarrow> (\<exists>h. cs = h @ [DeleteService] \<and> mc_code y h DeleteService \<noteq> None)"

lemma triple_configure:
  "triple (\<lambda>s. service_after y v (wn_calls s) = Some (new_entry (command_line exe sid))) (configure y sid)
     (\<lambda>_ s. service_after y v (wn_calls s) = Some (whole exe sid False)) (\<lambda>_. True)"
proof -
  let ?e0 = "new_entry (command_line exe sid)"
  let ?e1 = "?e0\<lparr>en_description := Some (description_of sid)\<rparr>"
  let ?e2 = "?e1\<lparr>en_privileges := Some PRIVILEGES\<rparr>"
  let ?e3 = "?e2\<lparr>en_failure_actions := Some [2000, 10000, 60000]\<rparr>"
  let ?at = "\<lambda>e s. service_after y v (wn_calls s) = Some e"
  have last: "triple (?at ?e3) (must y c FailureFlag) (\<lambda>_. ?at (whole exe sid False)) (\<lambda>_. True)" for c
    by (rule triple_must) (simp_all add: new_entry_def whole_def)
  show ?thesis
    unfolding configure_def restart_on_failure_def Let_def
    by (rule triple_bind [where Q = "\<lambda>_. ?at ?e1"], rule triple_must, simp, simp,
        rule triple_bind [where Q = "\<lambda>_. ?at ?e2"], rule triple_must, simp, simp,
        rule triple_bind [where Q = "\<lambda>_. ?at ?e3"], rule triple_must, simp, simp, rule last)
qed

lemma triple_create:
  "triple (rests y v x) (create_service y exe sid)
     (\<lambda>_ s. service_after y v (wn_calls s) = Some (whole exe sid False))
     (\<lambda>s. rests y v x s \<or> service_after y v (wn_calls s) = None \<or> undeleted y (wn_calls s))"
  unfolding create_service_def
proof (rule triple_bind [where Q = "\<lambda>_ s. service_after y v (wn_calls s) = Some (new_entry (command_line exe sid))"],
    goal_cases)
  case 1 show ?case by (rule triple_must) simp_all
next
  case (2 u)
  have delete: "triple (\<lambda>_. True) (sbind (invoke y DeleteService) (\<lambda>_. sthrow e))
      (\<lambda>_ s. service_after y v (wn_calls s) = Some (whole exe sid False))
      (\<lambda>s. rests y v x s \<or> service_after y v (wn_calls s) = None \<or> undeleted y (wn_calls s))" for e
    by (rule triple_bind [where Q = "\<lambda>_ s. service_after y v (wn_calls s) = None \<or> undeleted y (wn_calls s)"],
        rule triple_ask) (auto simp: undeleted_def intro: triple_throw)
  show ?case
    by (rule triple_bind [where Q = "\<lambda>r s. case r of Inr _ \<Rightarrow> service_after y v (wn_calls s) = Some (whole exe sid False)
        | Inl _ \<Rightarrow> True"], rule triple_try [where E = "\<lambda>_. True"])
      (auto intro: triple_weaken [OF triple_configure] triple_weaken [OF delete] triple_ret split: sum.split)
qed

lemma copy_exe_result: "copy_exe y s = (Inr exe, t) \<Longrightarrow> exe = installed_exe y"
  by (auto simp: copy_exe_def sbind_def split: sum.splits prod.splits if_splits)

definition for_account :: "machine \<Rightarrow> string option \<Rightarrow> string \<Rightarrow> bool" where
  "for_account y asked sid \<longleftrightarrow>
     sid_ok sid \<and> (case asked of Some a \<Rightarrow> a = sid | None \<Rightarrow> mc_user_sid y = Inr sid)"

text \<open>What a failed installation may leave.\<close>

definition left_behind ::
  "machine \<Rightarrow> string \<Rightarrow> service_entry option \<Rightarrow> service_entry option \<Rightarrow> win \<Rightarrow> bool" where
  "left_behind y sid v x s \<longleftrightarrow>
     at_rest x (service_after y v (wn_calls s))
     \<or> (\<exists>started. service_after y v (wn_calls s) = Some (whole (installed_exe y) sid started))
     \<or> undeleted y (wn_calls s)"

lemma triple_set_up:
  "triple (\<lambda>s. service_after y v (wn_calls s) = x) (set_up_service y sid)
     (\<lambda>_ s. service_after y v (wn_calls s) = Some (whole (installed_exe y) sid True))
     (left_behind y sid v x)"
proof -
  let ?in = "\<lambda>s. service_after y v (wn_calls s)"
  let ?E = "left_behind y sid v x"
  let ?up = "\<lambda>w. w = Some (whole (installed_exe y) sid True)"
  have E: "?E s" if "at_rest x (?in s) \<or> ?in s = None \<or> undeleted y (wn_calls s)
      \<or> ?in s = Some (whole (installed_exe y) sid b)" for s b
    using that by (auto simp: left_behind_def at_rest_def)
  have say: "triple (\<lambda>s. ?up (?in s)) (println l) (\<lambda>_ s. ?up (?in s)) ?E" for l
    by (rule triple_weaken [OF triple_leaves [OF leaves_silent(2), where P = ?up]]) (use E in auto)
  have "moves (leaves y v) (wait_until WAIT (answers y) None)"
    unfolding wait_until_def by (intro leaves.moves_rules leaves_wait_loop leaves_answers)
  from triple_leaves [OF this, where P = ?up]
  have wait: "triple (\<lambda>s. ?up (?in s)) (wait_until WAIT (answers y) None) (\<lambda>_ s. ?up (?in s)) ?E"
    by (rule triple_weaken) (use E in auto)
  have start: "triple (\<lambda>s. ?in s = Some (whole (installed_exe y) sid False)) (must y c StartService)
      (\<lambda>_ s. ?up (?in s)) ?E" for c
    by (rule triple_must) (auto simp: whole_def intro!: E [of _ False, unfolded whole_def])
  have create: "triple (\<lambda>s. at_rest x (?in s)) (create_service y (installed_exe y) sid)
      (\<lambda>_ s. ?in s = Some (whole (installed_exe y) sid False)) ?E"
    by (rule triple_weaken [OF triple_create]) (use E in auto)
  have copy: "triple (\<lambda>s. at_rest x (?in s)) (copy_exe y) (\<lambda>exe s. exe = installed_exe y \<and> at_rest x (?in s)) ?E"
    by (rule triple_weaken [OF triple_result [OF triple_leaves [OF leaves_copy_exe, where P = "at_rest x"] copy_exe_result]])
      (use E in auto)
  have remove: "triple (\<lambda>s. ?in s = x) (remove_service y) (\<lambda>_ s. at_rest x (?in s)) ?E"
    by (rule triple_weaken [OF triple_remove]) (use E in \<open>auto simp: at_rest_def\<close>)
  have bailed: "triple (\<lambda>s. ?up (?in s)) (bail l) (\<lambda>_ s. ?up (?in s)) ?E" for l
    unfolding bail_def by (rule triple_throw) (use E in blast)
  show ?thesis
    unfolding set_up_service_def
  proof (rule triple_bind [OF remove], rule triple_bind [OF copy], rule triple_known, goal_cases)
    case (1 u exe)
    then show ?case
      by (simp only:) (rule triple_bind [OF create], rule triple_bind [OF start],
        rule triple_bind [OF wait], auto intro: bailed say)
  qed
qed


text \<open>A system on which the last step of the configuration fails: the service is deleted again.\<close>

definition stubborn :: machine where
  "stubborn = demo_machine\<lparr>mc_code := (\<lambda>cs c.
     if c = FailureFlag then Some 5
     else if c = OpenService \<and> (\<forall>b. CreateService b \<notin> set cs) then Some 1060 else None)\<rparr>"


end
