(* ===== verification/Program_Facts.thy ===== *)
theory Program_Facts
  imports Throws Cli_Facts Install_Facts
begin

text \<open>
  What the whole program promises: \<open>cat\<close> of a file writes its bytes and exits with 0, \<open>cp\<close> exits
  with 0 only if every entry was copied, and what the other exit codes say.
\<close>

section \<open>Running a command on a file system\<close>

definition on_image :: "cmd \<Rightarrow> bool" where
  "on_image c \<longleftrightarrow> (case c of Scan \<Rightarrow> False | HelperCmd a \<Rightarrow> False | _ \<Rightarrow> True)"

lemma run_opened:
  assumes "on_image c" and "fs_open (ev_ext e) (ev_windows e) (ev_open e) devs = Inr s"
  shows "run e \<lparr>cl_device = devs, cl_json = j, cl_cmd = c\<rparr> = warned (fs_sb s) (command e j c s)"
  using assms by (cases c) (simp_all add: run_def on_image_def)

lemma run_unopened:
  assumes "on_image c" and "fs_open (ev_ext e) (ev_windows e) (ev_open e) devs = Inl err"
  shows "run e \<lparr>cl_device = devs, cl_json = j, cl_cmd = c\<rparr>
    = \<lparr>oc_out = [], oc_err = [], oc_result = Inl err\<rparr>"
  using assms by (cases c) (simp_all add: run_def on_image_def)

section \<open>cat\<close>

text \<open>
  C36: From the command line to the bytes: on devices that open as a file system, for a path that
  resolves to a readable file, \<open>btrfs-peek cat\<close> writes exactly the bytes of the file in the
  range asked for to standard output, zeros for holes and nothing past its end, adds only the
  file system's warnings on standard error, and exits with 0.
\<close>

theorem main_cat:
  assumes "fs_open (ev_ext e) (ev_windows e) (ev_open e) devs = Inr s" and "caches_ok (ev_ext e) s"
    and "resolve (ev_ext e) path s = (Inr l, s1)"
    and "file_at (ev_ext e) s l i es" and "\<not> is_dir i"
    and "coherent es" and "last_ok (ev_ext e) (core s) es (fs_last_extent s1)"
    and "\<forall>x \<in> set es. readable (ev_ext e) (core s) disk x"
    and "ev_stdout e = works" and "ev_flush e = (\<lambda>_. None)"
  shows "main e \<lparr>cl_device = devs, cl_json = j, cl_cmd = Cat path off len\<rparr>
    = \<lparr>ps_exit = 0,
       ps_stdout = map (file_byte (ev_ext e) (core s) disk es)
         [unat off ..< unat (min (case len of None \<Rightarrow> - 1 | Some n \<Rightarrow> saturating_add off n) (i_size i))],
       ps_stderr = map Hint (warnings (fs_sb s))\<rparr>"
proof -
  obtain t where "run_cat (ev_ext e) works path off len (s, [])
    = (Inr (), (t, map (file_byte (ev_ext e) (core s) disk es)
        [unat off ..< unat (min (case len of None \<Rightarrow> - 1 | Some n \<Rightarrow> saturating_add off n) (i_size i))]))"
    using cat_delivers [OF assms(2-8)] by blast
  with assms(1,9,10) show ?thesis
    by (simp add: main_def run_opened on_image_def command_def do_cat_def warned_def)
qed

text \<open>The demonstration's image, and a host on which everything works.\<close>

definition demo_env :: env where
  "demo_env =
     \<lparr>ev_ext = sample_ext, ev_open = (\<lambda>_. Inr demo_device), ev_partitions = None,
      ev_glob = (\<lambda>_. Inr (\<lambda>_. False)), ev_glob_set = (\<lambda>_. Inr (\<lambda>_. False)), ev_world = demo_world,
      ev_stdout = works, ev_flush = (\<lambda>_. None), ev_machine = demo_machine, ev_debug = (\<lambda>s. s),
      ev_json = (\<lambda>_. []), ev_fields = (\<lambda>_ _. [])\<rparr>"


lemma demo_opens:
  "\<exists>s. fs_open (ev_ext demo_env) (ev_windows demo_env) (ev_open demo_env) [''img''] = Inr s
     \<and> core s = demo \<and> caches_ok sample_ext s"
  using demo_open by (simp add: demo_env_def)

theorem main_cat_witness:
  "\<exists>told. main demo_env \<lparr>cl_device = [''img''], cl_json = False, cl_cmd = Cat ''/.//../a'' 2 (Some 3)\<rparr>
     = \<lparr>ps_exit = 0, ps_stdout = [12, 13, 14], ps_stderr = told\<rparr>"
proof -
  obtain s where s: "fs_open (ev_ext demo_env) (ev_windows demo_env) (ev_open demo_env) [''img''] = Inr s"
      "core s = demo" "caches_ok sample_ext s"
    using demo_opens by blast
  obtain s1 where s1: "resolve sample_ext ''/.//../a'' s = (Inr (Loc 5 257), s1)"
    using demo_resolves_in [OF s(3,2)] by blast
  have f: "file_at sample_ext s (Loc 5 257) (demo_inode 6 0x81A4) [demo_file]"
      "coherent [demo_file]" "last_ok sample_ext (core s) [demo_file] (fs_last_extent s1)"
      "\<forall>x \<in> set [demo_file]. readable sample_ext (core s) demo_disk x"
      "\<not> is_dir (demo_inode 6 0x81A4)"
    using demo_file_facts [OF s(2)] by blast+
  have e: "ev_ext demo_env = sample_ext" "ev_stdout demo_env = works" "ev_flush demo_env = (\<lambda>_. None)"
    by (simp_all add: demo_env_def)
  have "[2 ..< 5] = [2, 3, 4 :: nat]" by (simp add: upt_rec)
  then show ?thesis
    using main_cat [OF s(1), unfolded e, OF s(3) s1 f(1,5,2,3,4) refl refl, of False 2 "Some 3"]
    by (simp add: s(2) demo_inode_def saturating_add_def min_def demo_bytes)
qed

section \<open>cp\<close>

lemma printlns_works: "\<exists>out'. printlns_to works out ls = (True, out')"
  by (induction ls arbitrary: out) (simp_all add: works_def Let_def)

lemma show_all_works:
  assumes "ev_stdout e = works"
  shows "\<exists>out'. show_all e out vs = (True, out')"
proof (induction vs arbitrary: out)
  case (Cons v vs)
  obtain out' where "printlns_to works out (lines_of e v) = (True, out')"
    using printlns_works by blast
  with Cons assms show ?case by (cases v) simp_all
qed simp

lemma main_works:
  assumes "ev_stdout e = works"
  shows "ps_exit (main e cli) = (case oc_result (run e cli) of Inr _ \<Rightarrow> 0 | Inl err \<Rightarrow> exit_code err)"
  using show_all_works [OF assms, of "[]" "oc_out (run e cli)"]
  by (auto simp: main_def Let_def split: sum.split)

lemma copy_with_runs:
  assumes "copy_with e src dest ex force one ns mf c = (Inr r, c')"
  shows "\<exists>opts c1. run_copy (ev_ext e) (ev_world e) opts src dest c1 = (Inr r, c') \<and> cp_report c1 = cp_report c"
proof -
  obtain u c1 where c1: "create_manifest (ev_world e) mf c = (Inr u, c1)"
      and run: "\<exists>opts. run_copy (ev_ext e) (ev_world e) opts src dest c1 = (Inr r, c')"
    using assms by (auto simp: copy_with_def sbind_Inr_iff split: sum.splits)
  have "cp_report c1 = cp_report c"
    using c1 by (auto simp: create_manifest_def scontext_Inr_iff sbind_Inr_iff host_def
        split: option.splits prod.splits)
  with run show ?thesis by blast
qed

text \<open>
  C37: When a copy has come to its end, \<open>btrfs-peek cp\<close> exits with 0 exactly if no entry failed,
  and with 5 otherwise: a copy that is not complete never looks like one that is (the warnings
  are fewer than \<open>2\<^sup>64\<close>, and standard output works).
\<close>

theorem main_cp:
  assumes "fs_open (ev_ext e) (ev_windows e) (ev_open e) devs = Inr s"
    and "copy_with e src dest ex force one ns mf (new_copier s) = (Inr r, c')"
    and "length (r_warnings r) < 2 ^ 64" and "ev_stdout e = works"
  shows "ps_exit (main e \<lparr>cl_device = devs, cl_json = j, cl_cmd = Cp src dest ex force one ns mf\<rparr>)
    = (if list_all (\<lambda>v. \<not> is_failure v) (r_warnings r) then 0 else 5)"
proof -
  obtain opts c1 where c: "run_copy (ev_ext e) (ev_world e) opts src dest c1 = (Inr r, c')"
      "empty_report c1"
    using copy_with_runs [OF assms(2)] by (auto simp: empty_report_def new_copier_def)
  have "exit_code (Incomplete n) = 5" for n by (simp add: exit_code_def broken_pipe_def)
  with assms(1,2) have "ps_exit (main e \<lparr>cl_device = devs, cl_json = j, cl_cmd = Cp src dest ex force one ns mf\<rparr>)
      = (if r_failures r = 0 then 0 else 5)"
    by (simp add: main_works [OF assms(4)] run_opened on_image_def command_def warned_def report_copy_def word_gt_0)
  moreover have "r_failures r = 0 \<longleftrightarrow> list_all (\<lambda>v. \<not> is_failure v) (r_warnings r)"
    using no_failures_iff [OF c assms(3)] .
  ultimately show ?thesis by simp
qed

theorem main_cp_witness:
  "ps_exit (main demo_env \<lparr>cl_device = [''img''], cl_json = True,
     cl_cmd = Cp ''/.//../a'' demo_dest [] False False False (Some (Path True [''m'']))\<rparr>) = 0"
proof -
  obtain s where s: "fs_open (ev_ext demo_env) (ev_windows demo_env) (ev_open demo_env) [''img''] = Inr s"
      "core s = demo" "caches_ok sample_ext s"
    using demo_opens by blast
  let ?mf = "Some (Path True [''m''])" and ?c = "(new_copier s)\<lparr>cp_ops := [CreateFile (Path True [''m''])]\<rparr>"
  obtain r c' where r: "run_copy sample_ext demo_world demo_options ''/.//../a'' demo_dest ?c = (Inr r, c')"
      "r_warnings r = []"
    using demo_run_copy [of ?c] s(2,3) by (auto simp: new_copier_def)
  have "demo_world [] (CreateFile (Path True [''m''])) = Inr False" by (simp add: demo_world_def)
  then have "copy_with demo_env ''/.//../a'' demo_dest [] False False False ?mf (new_copier s) = (Inr r, c')"
    using r(1)
    by (simp add: copy_with_def create_manifest_def demo_env_def demo_options_def sbind_def scontext_def host_def
        call_def new_copier_def)
  from main_cp [OF s(1) this] r(2) show ?thesis by (simp add: demo_env_def)
qed

section \<open>Exit codes\<close>

definition source_path :: "cmd \<Rightarrow> string option" where
  "source_path c =
     (case c of
        Ls p long \<Rightarrow> Some p | Stat p \<Rightarrow> Some p | Cat p off len \<Rightarrow> Some p
      | Find p name ty max_depth one no_snap \<Rightarrow> Some p
      | Cp p dest ex force one no_snap mf \<Rightarrow> Some p
      | _ \<Rightarrow> None)"

text \<open>The copy of a \<open>cp\<close> came to its end with entries that failed.\<close>

definition copied_incompletely :: "env \<Rightarrow> cmd \<Rightarrow> fs \<Rightarrow> bool" where
  "copied_incompletely e c s \<longleftrightarrow>
     (case c of
        Cp src dest ex force one ns mf \<Rightarrow>
          (case fst (copy_with e src dest ex force one ns mf (new_copier s)) of
             Inl _ \<Rightarrow> False | Inr r \<Rightarrow> 0 < r_failures r)
      | _ \<Rightarrow> False)"

lemma command_errors:
  assumes "oc_result (command e j c s) = Inl err" and "on_image c"
  shows "plain err
    \<or> (\<exists>p. source_path c = Some p \<and> fst (resolve (ev_ext e) p s) = Inl err)
    \<or> incomplete err \<and> \<not> not_found err \<and> \<not> access_denied err \<and> copied_incompletely e c s"
proof (cases c)
  case Info
  with assms(1) show ?thesis
    by (auto simp: command_def do_info_def prints_def split: sum.splits dest: info_plain)
next
  case Subvols
  with assms(1) show ?thesis
    by (auto simp: command_def do_subvols_def prints_def split: sum.splits dest: subvols_plain)
next
  case (Ls p long)
  with assms(1) show ?thesis
    by (cases "run_ls (ev_ext e) p (long \<or> j) s")
      (auto simp: command_def do_ls_def prints_def source_path_def split: sum.splits dest: ls_errors)
next
  case (Stat p)
  with assms(1) show ?thesis
    by (cases "run_stat (ev_ext e) p s")
      (auto simp: command_def do_stat_def prints_def source_path_def split: sum.splits dest: stat_errors)
next
  case (Cat p off len)
  with assms(1) show ?thesis
    by (auto simp: command_def do_cat_def source_path_def rbind_Inl_iff split: prod.splits option.splits
        dest: cat_errors)
next
  case (Find p name ty max_depth one ns)
  have "fails plain (name_glob e name)"
    by (auto simp: fails_def name_glob_def split: option.splits sum.splits)
  with Find assms(1) show ?thesis
    by (auto simp: command_def do_find_def source_path_def fails_def new_finder_def
        split: prod.splits sum.splits if_splits dest!: find_errors)
next
  case (Cp src dest ex force one ns mf)
  then show ?thesis
    using assms(1) copy_with_errors [of e src dest ex force one ns mf "new_copier s" err]
    by (cases "copy_with e src dest ex force one ns mf (new_copier s)")
      (auto simp: command_def report_copy_def source_path_def copied_incompletely_def new_copier_def
        incomplete_def not_found_def access_denied_def split: sum.splits if_splits)
qed (use assms(2) in \<open>simp_all add: on_image_def\<close>)


definition denying :: env where
  "denying = demo_env\<lparr>ev_open := \<lambda>_. Inl (IoError IoPermissionDenied [])\<rparr>"


section \<open>Standard output that is closed\<close>

text \<open>
  A closed pipe counts as success, whatever the pipe was: when the helper's connection breaks,
  the program says nothing and exits with 0 as if it had done what it was asked to.
\<close>

lemma lost_helper_succeeds:
  assumes "on_image c" and "ev_open e p = Inr dev"
    and "device_read dev SUPER_OFFSET SUPER_SIZE = Inl (IoError IoBrokenPipe msg)"
  shows "main e \<lparr>cl_device = p # devs, cl_json = j, cl_cmd = c\<rparr>
    = \<lparr>ps_exit = 0, ps_stdout = [], ps_stderr = []\<rparr>"
  using assms
  by (simp add: main_def run_unopened fs_open_def probe_def with_context_def exit_code_def broken_pipe_def)

text \<open>
  But what \<open>println!\<close> meets a closed pipe with is a panic, so that only \<open>cat\<close> ends well there.
\<close>

lemma closed_pipe_panics:
  assumes "ev_stdout e [] = (\<lambda>_. Some (IoError IoBrokenPipe msg))" and "oc_out (run e cli) = Line l # vs"
  shows "ps_exit (main e cli) = 101"
  using assms by (simp add: main_def Let_def)

end
