(* ===== verification/Spec2Isabelle.thy ===== *)
theory Spec2Isabelle
  imports Fs_Walk_Facts Fs_Names_Facts Copy_Host Helper_Device Cli_Time Updater_Facts Service_Facts Program_Facts
begin

text \<open>
  \<^bold>\<open>btrfs-peek\<close> reads btrfs file systems without mounting them: it lists, finds, prints and
  copies files out of an image or a raw partition, on Linux and on Windows, where a service
  can open partitions for an account that may not.

  \<^bold>\<open>The program and its theories.\<close>  Data flows upwards through these layers; each theory
  names the source file it models, and functions keep their names.

  \<^item> Foundations.  \<open>Prelude\<close>: the machine integers (\<open>u8\<close> to \<open>u64\<close> as words), slices, little
    endian, results as sums.  \<open>Effects\<close>: the program's errors as values, \<open>anyhow\<close>'s context
    chains, and effects \<open>('s, 'a) eff\<close>, functions from a state to a result and the next state,
    so that what was done before an error stays done.  \<open>Containers\<close>: \<open>HashMap\<close> and \<open>BTreeMap\<close>
    as association lists behind the locales \<open>hash_map\<close> and \<open>ordered_map\<close>.  \<open>Text\<close>, \<open>Utf8\<close>: the
    string functions of the standard library, and decoding of names.
  \<^item> src/disk.rs: \<open>Disk\<close>, every structure of the disk format with its parser, and the
    format's writer as the specification the parsers invert.
  \<^item> src/dev.rs: \<open>Device\<close>, aligned positioned reads in pieces of at most 4 MiB; the locale
    \<open>block_reader\<close> states what a device owes its callers.
  \<^item> src/decompress.rs: \<open>Decompress\<close>, limits, padding and the LZO frame; the three codecs are
    the record \<open>codecs\<close>.
  \<^item> src/fs.rs: \<open>Fs_Core\<close> (state, chunk map, mirrors, verified block reads, node cache),
    \<open>Fs_Walk\<close> (tree walks), \<open>Fs_Trees\<close> (tree roots, inodes, extents), \<open>Fs_Read\<close> (streaming a
    file to a sink, compressed extents and their cache), \<open>Fs_Lookup\<close> (names, paths,
    subvolumes), \<open>Fs_Open\<close> (opening).  The record \<open>fs\<close> is the struct \<open>Fs\<close> with its three
    caches, and the crates it calls are the record \<open>ext\<close>.  \<open>Fs_Format\<close> writes tree blocks from
    the documented layout, \<open>Fs_Sample\<close> is a whole image in it, for the witnesses.
  \<^item> src/copy.rs: \<open>Copy\<close>, the copier.  The host answers every call (\<open>world\<close>) from the calls made
    so far; \<open>Copy_Host\<close> gives the calls their documented effect on files.
  \<^item> src/helper/update.rs: \<open>Update\<close>; src/helper.rs: \<open>Helper\<close>, both sides of the protocol over
    streams of bytes; src/helper/windows/updater.rs: \<open>Updater\<close>, the check and the thread
    that makes one daily, the swap of the program's file and the restart, the last as a step relation.
  \<^item> src/helper/windows.rs: \<open>Service\<close>, the pipe server, whose threads interleave in a step relation
    that refines the restart's (\<open>Traces\<close> has runs and simulations); \<open>Install\<close>, the client's
    connection, installing, removing and asking after the service, over a system (\<open>machine\<close>)
    that answers each call from the calls made so far.
  \<^item> src/main.rs: \<open>Cli\<close>, the commands as effects on the caches, standard output and the host;
    src/scan.rs, \<open>info\<close> and the long listing: \<open>Scan\<close>; the dispatch on the parsed command line,
    what each command prints, and the process's end: \<open>Program\<close>, over the record \<open>env\<close> of all
    that stands outside.

  \<^bold>\<open>What is shown.\<close>  The theories named \<open>_Facts\<close> (and \<open>Disk\<close>, \<open>Decompress\<close>, \<open>Device\<close>,
  \<open>Update\<close>, \<open>Copy_Host\<close>, \<open>Cli_Time\<close>) end in the properties.

  \<^item> Formats: parsers read back exactly what the format's writer lays out, and what they accept
    satisfies what later code relies on.
  \<^item> Reading: a device read is exact; a tree block comes from the first mirror that has it, with
    the right address and checksum; a walk visits exactly the items of its range, in order; a
    file's range is delivered exactly, holes as zeros, through every kind of extent; nothing
    depends on what the caches hold; damaged metadata cannot exceed the bounds on reads.
  \<^item> Names: lookups, listings, paths and subvolumes say what the items of the trees say, and on
    any image a name that is found is the one asked for.
  \<^item> Copying: names are made safe, nothing outside the destination is touched, a file's name never
    holds half of it, every failure is counted, and a copy on a working host has the bytes.
  \<^item> The helper: its client gets what it would get by doing the requests itself, so a device read
    through it reads as if it were opened directly (\<open>Helper_Device\<close>); whatever a client
    sends, only btrfs partitions are read; an update is installed only if it verifies, an
    update never loses the program.
  \<^item> The service: a client speaks to the installed service or to nobody, the pipe's name never
    lapses, an installation leaves a whole service or none, and a restart waits for the sessions it
    counts, an hour at most.
  \<^item> The commands: \<open>cat\<close>, \<open>cp\<close>, \<open>find\<close> and \<open>scan\<close> do what they say, from the command line to the
    exit code, and every exit code means what the usage text says (\<open>Throws\<close> follows the root
    causes of errors through every operation); times are the calendar's.

  Locales carry what several of these share: \<open>matched_sinks\<close> (what a file's reader promises any
  sink), \<open>progress\<close> and \<open>sink_progress\<close> (relations every step of an effect moves along),
  \<open>observation\<close> (results that do not depend on part of the state), \<open>fixed_codec\<close> and \<open>text_codec\<close>
  (round trips), \<open>simulation\<close> (one state machine run by another).  Each is interpreted on the model's own definitions.

  \<^bold>\<open>Loops and fuel.\<close>  Walks recurse to depth 8 and descents to 256, as in the source.  Where the
  operating system may interrupt a call again and again, the model counts calls:
  \<open>read_loop\<close> of \<open>Device\<close> and \<open>super_loop\<close> of \<open>Helper\<close> have one unit for each byte wanted and
  \<open>dev_retries\<close> or \<open>retries\<close> more, so they run out only after that many interruptions; the
  source would go on.  \<open>subvol_passes\<close> has one unit for each subvolume, and \<open>subvol_passes_fuel\<close>
  shows that more make no difference.  \<open>next_free\<close> of \<open>Copy\<close> has one for each name taken, enough by
  \<open>next_free_new\<close>.  The waits of \<open>Install\<close> have one for each pause that fits before
  their deadline; \<open>wait_loop_fuel\<close>, \<open>retry_loop_fuel\<close> and \<open>busy_loop_fuel\<close> show that more
  make no difference, because every call takes time and every round sleeps.  Other loops end by a measure.

  \<^bold>\<open>Not modelled.\<close>  What the crates do (CRC32C, the decompressors, minisign, glob matching,
  argument parsing, JSON text) is a parameter; so are the host's calls, \<open>curl\<close>, the clock and
  Unicode's \<open>to_lowercase\<close>.  Of Windows, handles, security descriptors, wide strings and the registry
  are left out.  The tests of the source are not part of the model.  Arithmetic is that of a release build: it wraps.  Threads appear
  where their interleaving matters, in the service.
\<close>

end
